(* ===== verification/Prelude.thy ===== *)
theory Prelude
  imports Main "HOL-Library.Word"
begin

text \<open>
  Shared vocabulary of the development.

  A gwyh node is three actors (\<open>PacketHandler\<close>, \<open>Handshaker\<close>, \<open>PeerManager\<close>) that handle
  one message at a time. A method of an actor is an \<open>act\<close>: it takes the actor's state and
  returns the effects it performed, in order, and either the new state or the panic that
  stopped it. The effects performed before a panic are kept, as they are in the running program.
  The combinators below are the ones the source's \<open>async\<close> method bodies are made of:
  sequencing, assignment to a field, an effect, a \<open>for\<close> loop, \<open>unwrap\<close>/\<open>expect\<close> on a value.

  Proofs about methods follow the bodies: \<open>wp\<close> is the weakest precondition of an act for a
  predicate on its effects and one on its final state, and the collection \<open>wp_simps\<close> computes it
  combinator by combinator; \<open>act_simps\<close> executes an act symbolically.
\<close>

named_theorems act_simps
named_theorems wp_simps

subsection \<open>Machine types\<close>

type_synonym u16 = "16 word"
type_synonym u32 = "32 word"
type_synonym u64 = "64 word"
type_synonym bytes = "8 word list"
type_synonym uuid = "128 word"

text \<open>\<open>DateTime<Utc>\<close>: nanoseconds since the epoch.\<close>

type_synonym timestamp = int

subsection \<open>Panics and results\<close>

datatype panic = Unwrap_none | Expect_failed | Assert_failed | Arithmetic_overflow

type_synonym 'a result = "panic + 'a"

definition unwrap :: "'a option \<Rightarrow> 'a result" where
  "unwrap x = (case x of None \<Rightarrow> Inl Unwrap_none | Some y \<Rightarrow> Inr y)"

definition expect :: "'a option \<Rightarrow> 'a result" where
  "expect x = (case x of None \<Rightarrow> Inl Expect_failed | Some y \<Rightarrow> Inr y)"

definition bind_result :: "'a result \<Rightarrow> ('a \<Rightarrow> 'b result) \<Rightarrow> 'b result" where
  "bind_result r f = (case r of Inl p \<Rightarrow> Inl p | Inr x \<Rightarrow> f x)"

fun map_result :: "('a \<Rightarrow> 'b result) \<Rightarrow> 'a list \<Rightarrow> 'b list result" where
  "map_result f [] = Inr []"
| "map_result f (x # xs) =
     bind_result (f x) (\<lambda>y. bind_result (map_result f xs) (\<lambda>ys. Inr (y # ys)))"

text \<open>\<open>Iterator::any\<close>: stops at the first element for which the predicate holds.\<close>

fun any_result :: "('a \<Rightarrow> bool result) \<Rightarrow> 'a list \<Rightarrow> bool result" where
  "any_result f [] = Inr False"
| "any_result f (x # xs) = bind_result (f x) (\<lambda>b. if b then Inr True else any_result f xs)"

lemma unwrap_simps [simp]: "unwrap None = Inl Unwrap_none" "unwrap (Some x) = Inr x"
  by (simp_all add: unwrap_def)

lemma expect_simps [simp]: "expect None = Inl Expect_failed" "expect (Some x) = Inr x"
  by (simp_all add: expect_def)

lemma bind_result_simps [simp]:
  "bind_result (Inl p) f = Inl p" "bind_result (Inr x) f = f x"
  by (simp_all add: bind_result_def)

lemma map_result_Inr:
  "(\<And>x. x \<in> set xs \<Longrightarrow> f x = Inr (g x)) \<Longrightarrow> map_result f xs = Inr (map g xs)"
  by (induction xs) simp_all

lemma any_result_Inr:
  "(\<And>x. x \<in> set xs \<Longrightarrow> f x = Inr (g x)) \<Longrightarrow> any_result f xs = Inr (\<exists>x \<in> set xs. g x)"
  by (induction xs) simp_all

lemma map_result_cong [fundef_cong]:
  "xs = ys \<Longrightarrow> (\<And>x. x \<in> set ys \<Longrightarrow> f x = g x) \<Longrightarrow> map_result f xs = map_result g ys"
proof (induction xs arbitrary: ys)
  case Nil
  then show ?case by simp
next
  case (Cons a xs)
  then obtain zs where "ys = a # zs" "xs = zs" by (cases ys) auto
  with Cons show ?case by auto
qed

lemma find_SomeD: "find P xs = Some x \<Longrightarrow> x \<in> set xs \<and> P x"
  by (auto simp: find_Some_iff)

lemma list_all2_leftD: "list_all2 P xs ys \<Longrightarrow> x \<in> set xs \<Longrightarrow> \<exists>y \<in> set ys. P x y"
  by (induction rule: list_all2_induct) auto

lemma list_all2_rightD: "list_all2 P xs ys \<Longrightarrow> y \<in> set ys \<Longrightarrow> \<exists>x \<in> set xs. P x y"
  by (induction rule: list_all2_induct) auto

lemma enumerate_mem: "(\<exists>k. (k, x) \<in> set (enumerate n xs)) \<longleftrightarrow> x \<in> set xs"
proof -
  have "x \<in> snd ` set (enumerate n xs) \<longleftrightarrow> x \<in> set xs"
    by (simp only: set_map [symmetric] map_snd_enumerate)
  then show ?thesis by force
qed

lemma in_set_map_filter: "y \<in> set (List.map_filter f xs) \<longleftrightarrow> (\<exists>x \<in> set xs. f x = Some y)"
  by (force simp: List.map_filter_def)

lemma snd_enumerate: "snd ` set (enumerate n xs) = set xs"
  by (simp only: set_map [symmetric] map_snd_enumerate)

subsection \<open>Acts\<close>

type_synonym ('s, 'e) act = "'s \<Rightarrow> 'e list \<times> 's result"

definition skip :: "('s, 'e) act" where
  "skip s = ([], Inr s)"

definition emit :: "'e \<Rightarrow> ('s, 'e) act" where
  "emit e s = ([e], Inr s)"

definition modify :: "('s \<Rightarrow> 's) \<Rightarrow> ('s, 'e) act" where
  "modify f s = ([], Inr (f s))"

definition abort :: "panic \<Rightarrow> ('s, 'e) act" where
  "abort p s = ([], Inl p)"

definition then_do :: "('s, 'e) act \<Rightarrow> ('s, 'e) act \<Rightarrow> ('s, 'e) act" where
  "then_do a b s =
     (case a s of
        (es, Inl p) \<Rightarrow> (es, Inl p)
      | (es, Inr s') \<Rightarrow> (case b s' of (es', r) \<Rightarrow> (es @ es', r)))"

fun do_all :: "('s, 'e) act list \<Rightarrow> ('s, 'e) act" where
  "do_all [] = skip"
| "do_all (a # as) = then_do a (do_all as)"

definition foreach :: "'a list \<Rightarrow> ('a \<Rightarrow> ('s, 'e) act) \<Rightarrow> ('s, 'e) act" where
  "foreach xs f = do_all (map f xs)"

text \<open>A value read from the state, and a value whose computation may panic.\<close>

definition with_state :: "('s \<Rightarrow> ('s, 'e) act) \<Rightarrow> ('s, 'e) act" where
  "with_state f s = f s s"

definition with_result :: "'a result \<Rightarrow> ('a \<Rightarrow> ('s, 'e) act) \<Rightarrow> ('s, 'e) act" where
  "with_result r f = (case r of Inl p \<Rightarrow> abort p | Inr x \<Rightarrow> f x)"

lemma skip_apply [act_simps]: "skip s = ([], Inr s)"
  by (simp add: skip_def)

lemma emit_apply [act_simps]: "emit e s = ([e], Inr s)"
  by (simp add: emit_def)

lemma modify_apply [act_simps]: "modify f s = ([], Inr (f s))"
  by (simp add: modify_def)

lemma abort_apply [act_simps]: "abort p s = ([], Inl p)"
  by (simp add: abort_def)

lemma with_state_apply [act_simps]: "with_state f s = f s s"
  by (simp add: with_state_def)

lemma with_result_simps [act_simps, simp]:
  "with_result (Inl p) f = abort p" "with_result (Inr x) f = f x"
  by (simp_all add: with_result_def)

lemma then_do_Inr [act_simps]:
  "a s = (es, Inr s') \<Longrightarrow> then_do a b s = (es @ fst (b s'), snd (b s'))"
  by (simp add: then_do_def split: prod.splits)

lemma then_do_Inl [act_simps]:
  "a s = (es, Inl p) \<Longrightarrow> then_do a b s = (es, Inl p)"
  by (simp add: then_do_def)

lemma then_do_effects: "e \<in> set (fst (a s)) \<Longrightarrow> e \<in> set (fst (then_do a b s))"
  by (auto simp: then_do_def split: prod.splits sum.splits)

lemma then_do_skip [simp]: "then_do skip b = b"
  by (rule ext) (simp add: then_do_def skip_def)

lemma foreach_Nil [simp, act_simps]: "foreach [] f = skip"
  by (simp add: foreach_def)

lemma foreach_Cons [act_simps]: "foreach (x # xs) f = then_do (f x) (foreach xs f)"
  by (simp add: foreach_def)

lemma foreach_emit: "foreach xs (\<lambda>x. emit (g x)) s = (map g xs, Inr s)"
  by (induction xs) (simp_all add: act_simps)

subsection \<open>Weakest preconditions\<close>

text \<open>
  \<open>wp pan E a Q s\<close>: run from \<open>s\<close>, every effect of \<open>a\<close> satisfies \<open>E\<close> and the final state satisfies
  \<open>Q\<close>; a panic is allowed exactly if \<open>pan\<close>. With \<open>pan = False\<close> this is total correctness.
\<close>

definition wp :: "bool \<Rightarrow> ('e \<Rightarrow> bool) \<Rightarrow> ('s, 'e) act \<Rightarrow> ('s \<Rightarrow> bool) \<Rightarrow> 's \<Rightarrow> bool" where
  "wp pan E a Q s \<longleftrightarrow>
     (\<forall>e \<in> set (fst (a s)). E e) \<and> (case snd (a s) of Inl p \<Rightarrow> pan | Inr s' \<Rightarrow> Q s')"

lemma wp_skip [wp_simps]: "wp pan E skip Q = Q"
  by (rule ext) (simp add: wp_def skip_def)

lemma wp_emit [wp_simps]: "wp pan E (emit e) Q s \<longleftrightarrow> E e \<and> Q s"
  by (simp add: wp_def emit_def)

lemma wp_modify [wp_simps]: "wp pan E (modify f) Q s \<longleftrightarrow> Q (f s)"
  by (simp add: wp_def modify_def)

lemma wp_abort [wp_simps]: "wp pan E (abort p) Q s \<longleftrightarrow> pan"
  by (simp add: wp_def abort_def)

lemma wp_with_state [wp_simps]: "wp pan E (with_state f) Q s \<longleftrightarrow> wp pan E (f s) Q s"
  by (simp add: wp_def with_state_def)

lemma wp_then [wp_simps]: "wp pan E (then_do a b) Q = wp pan E a (wp pan E b Q)"
proof (rule ext)
  fix s
  obtain es r where "a s = (es, r)" by (cases "a s")
  then show "wp pan E (then_do a b) Q s = wp pan E a (wp pan E b Q) s"
    by (cases r; cases "b (projr r)") (auto simp: wp_def then_do_def)
qed

lemma wp_with_result [wp_simps]:
  "wp pan E (with_result r f) Q s \<longleftrightarrow> (case r of Inl p \<Rightarrow> pan | Inr x \<Rightarrow> wp pan E (f x) Q s)"
  by (cases r) (simp_all add: wp_abort)

lemma wp_do_all [wp_simps]:
  "wp pan E (do_all []) Q = Q"
  "wp pan E (do_all (a # as)) Q = wp pan E a (wp pan E (do_all as) Q)"
  by (simp_all add: wp_skip wp_then)

lemma wp_if [wp_simps]:
  "wp pan E (if c then a else b) Q s \<longleftrightarrow> (if c then wp pan E a Q s else wp pan E b Q s)"
  by simp

lemma wp_mono:
  assumes "wp pan E a Q s"
    and "\<And>e. E e \<Longrightarrow> E' e" and "\<And>t. Q t \<Longrightarrow> Q' t"
  shows "wp pan E' a Q' s"
  using assms by (auto simp: wp_def split: sum.splits)

text \<open>A loop keeps an invariant that every iteration keeps.\<close>

lemma wp_foreach:
  assumes "I s"
    and "\<And>x t. x \<in> set xs \<Longrightarrow> I t \<Longrightarrow> wp pan E (f x) I t"
  shows "wp pan E (foreach xs f) I s"
  using assms
proof (induction xs arbitrary: s)
  case Nil
  then show ?case by (simp add: wp_simps)
next
  case (Cons x xs)
  have tail: "wp pan E (foreach xs f) I t" if "I t" for t
    using that Cons.prems(2) by (intro Cons.IH) simp_all
  from Cons.prems have "wp pan E (f x) I s" by simp
  then have "wp pan E (f x) (wp pan E (foreach xs f) I) s"
    by (rule wp_mono) (simp_all add: tail)
  then show ?case by (simp add: foreach_Cons wp_then)
qed

lemma wp_foreachI:
  assumes "I s" and "\<And>x t. x \<in> set xs \<Longrightarrow> I t \<Longrightarrow> wp pan E (f x) I t" and "\<And>t. I t \<Longrightarrow> Q t"
  shows "wp pan E (foreach xs f) Q s"
  by (rule wp_mono [OF wp_foreach [where I = I]]) (use assms in simp_all)

lemma wp_total:
  assumes "wp False E a Q s"
  obtains es s' where "a s = (es, Inr s')" and "Q s'" and "\<forall>e \<in> set es. E e"
  using assms by (cases "a s") (auto simp: wp_def split: sum.splits)

lemma wp_InrD:
  assumes "wp pan E a Q s" and "a s = (es, Inr s')"
  shows "Q s'" and "\<forall>e \<in> set es. E e"
  using assms by (simp_all add: wp_def)

lemma wp_eqI: "a s = (es, Inr s') \<Longrightarrow> \<forall>e \<in> set es. E e \<Longrightarrow> Q s' \<Longrightarrow> wp pan E a Q s"
  by (simp add: wp_def)

lemma wp_effects: "wp pan E a Q s \<Longrightarrow> e \<in> set (fst (a s)) \<Longrightarrow> E e"
  by (simp add: wp_def)

subsection \<open>What an act can do at most\<close>

text \<open>\<open>acts_within P A a\<close>: from any state, every effect of \<open>a\<close> satisfies \<open>A\<close>, and if it panics, with a panic that satisfies \<open>P\<close>.\<close>

definition acts_within :: "(panic \<Rightarrow> bool) \<Rightarrow> ('e \<Rightarrow> bool) \<Rightarrow> ('s, 'e) act \<Rightarrow> bool" where
  "acts_within P A a \<longleftrightarrow> (\<forall>s. (\<forall>e \<in> set (fst (a s)). A e) \<and> (\<forall>p. snd (a s) = Inl p \<longrightarrow> P p))"

named_theorems within_rules

lemma within_basic [within_rules]:
  "acts_within P A skip" "acts_within P A (modify f)" "A e \<Longrightarrow> acts_within P A (emit e)" "P p \<Longrightarrow> acts_within P A (abort p)"
  by (simp_all add: acts_within_def act_simps)

lemma within_then [within_rules]: "acts_within P A a \<Longrightarrow> acts_within P A b \<Longrightarrow> acts_within P A (then_do a b)"
  unfolding acts_within_def
proof (intro allI conjI ballI impI)
  fix s
  assume a: "\<forall>s. (\<forall>e\<in>set (fst (a s)). A e) \<and> (\<forall>p. snd (a s) = Inl p \<longrightarrow> P p)"
    and b: "\<forall>s. (\<forall>e\<in>set (fst (b s)). A e) \<and> (\<forall>p. snd (b s) = Inl p \<longrightarrow> P p)"
  obtain es r where as: "a s = (es, r)" by (cases "a s")
  show "A e" if "e \<in> set (fst (then_do a b s))" for e
    using that a [rule_format, of s] b [rule_format, of "projr r"] by (cases r) (auto simp: then_do_def as split: prod.splits)
  show "P p" if "snd (then_do a b s) = Inl p" for p
    using that a [rule_format, of s] b [rule_format, of "projr r"] by (cases r) (auto simp: then_do_def as split: prod.splits)
qed

lemma within_do_all [within_rules]:
  "acts_within P A (do_all [])" "acts_within P A a \<Longrightarrow> acts_within P A (do_all as) \<Longrightarrow> acts_within P A (do_all (a # as))"
  by (simp_all add: within_rules)

lemma within_foreach [within_rules]: "(\<And>x. x \<in> set xs \<Longrightarrow> acts_within P A (f x)) \<Longrightarrow> acts_within P A (foreach xs f)"
  by (induction xs) (simp_all add: within_rules foreach_Cons)

lemma within_with_state [within_rules]: "(\<And>t. acts_within P A (f t)) \<Longrightarrow> acts_within P A (with_state f)"
  unfolding acts_within_def with_state_def by blast

lemma within_with_result [within_rules]:
  "(\<And>p. r = Inl p \<Longrightarrow> P p) \<Longrightarrow> (\<And>x. r = Inr x \<Longrightarrow> acts_within P A (f x)) \<Longrightarrow> acts_within P A (with_result r f)"
  by (cases r) (simp_all add: within_rules)

end
