(* ===== verification/Rust_Std.thy ===== *)
theory Rust_Std
  imports Prelude "HOL-Library.Product_Lexorder" "HOL-Library.Sublist"
begin

text \<open>
  The parts of the Rust language and its standard library that the sources use: checked machine
  arithmetic (a profile with overflow checks panics, one without wraps around), decimal printing,
  \<open>slice::chunk_by\<close>, \<open>HashMap::from_iter\<close>, \<open>HashMap::try_insert\<close>, string bytes and \<open>std::net::SocketAddr\<close>.
\<close>

subsection \<open>Machine arithmetic\<close>

text \<open>The first argument says whether the build checks for overflow.\<close>

definition u32_add :: "bool \<Rightarrow> u32 \<Rightarrow> u32 \<Rightarrow> u32 result" where
  "u32_add chk a b =
     (if unat a + unat b < 2 ^ 32 then Inr (a + b)
      else if chk then Inl Arithmetic_overflow else Inr (a + b))"

definition u32_sub :: "bool \<Rightarrow> u32 \<Rightarrow> u32 \<Rightarrow> u32 result" where
  "u32_sub chk a b =
     (if b \<le> a then Inr (a - b)
      else if chk then Inl Arithmetic_overflow else Inr (a - b))"

definition i64_range :: "int \<Rightarrow> bool" where
  "i64_range x \<longleftrightarrow> - (2 ^ 63) \<le> x \<and> x < 2 ^ 63"

definition i64_abs :: "bool \<Rightarrow> int \<Rightarrow> int result" where
  "i64_abs chk x =
     (if x = - (2 ^ 63) then (if chk then Inl Arithmetic_overflow else Inr x) else Inr \<bar>x\<bar>)"

lemma u32_add_unchecked [simp]: "u32_add False a b = Inr (a + b)"
  by (simp add: u32_add_def)

lemma u32_sub_unchecked [simp]: "u32_sub False a b = Inr (a - b)"
  by (simp add: u32_sub_def)

lemma u32_sub_le [simp]: "b \<le> a \<Longrightarrow> u32_sub chk a b = Inr (a - b)"
  by (simp add: u32_sub_def)

lemma u32_sub_Inr: "u32_sub chk a b = Inr c \<Longrightarrow> c = a - b"
  by (auto simp: u32_sub_def split: if_splits)

lemma u32_add_Inr: "u32_add chk a b = Inr c \<Longrightarrow> c = a + b"
  by (auto simp: u32_add_def split: if_splits)

lemma i64_abs_inside [simp]: "x \<noteq> - (2 ^ 63) \<Longrightarrow> i64_abs chk x = Inr \<bar>x\<bar>"
  by (simp add: i64_abs_def)

subsection \<open>Decimal printing: \<open>i64::to_string\<close>\<close>

fun dec_digits :: "nat \<Rightarrow> bytes" where
  "dec_digits n =
     (if n < 10 then [48 + of_nat n] else dec_digits (n div 10) @ [48 + of_nat (n mod 10)])"

declare dec_digits.simps [simp del]

definition i64_to_string :: "int \<Rightarrow> bytes" where
  "i64_to_string x = (if x < 0 then 45 # dec_digits (nat (- x)) else dec_digits (nat x))"

definition dec_value :: "bytes \<Rightarrow> nat" where
  "dec_value ds = foldl (\<lambda>v d. 10 * v + (unat d - 48)) 0 ds"

lemma unat_digit: "n < 10 \<Longrightarrow> unat (48 + of_nat n :: 8 word) = 48 + n"
  by (simp add: unat_word_ariths take_bit_nat_eq_self unat_of_nat)

lemma dec_value_digits: "dec_value (dec_digits n) = n"
proof (induction n rule: dec_digits.induct)
  case (1 n)
  show ?case
  proof (cases "n < 10")
    case True
    then show ?thesis by (simp add: dec_digits.simps [of n] dec_value_def unat_digit)
  next
    case False
    with "1.IH" have "dec_value (dec_digits (n div 10)) = n div 10" by simp
    with False show ?thesis
      by (simp add: dec_digits.simps [of n] dec_value_def unat_digit)
  qed
qed

lemma dec_digits_head: "hd (dec_digits n) \<noteq> 45 \<and> dec_digits n \<noteq> []"
proof (induction n rule: dec_digits.induct)
  case (1 n)
  show ?case
  proof (cases "n < 10")
    case True
    have "unat (48 + of_nat n :: 8 word) \<noteq> unat (45 :: 8 word)"
      unfolding unat_digit [OF True] by simp
    then have "(48 + of_nat n :: 8 word) \<noteq> 45" by metis
    with True show ?thesis by (simp add: dec_digits.simps [of n])
  next
    case False
    with 1 show ?thesis by (simp add: dec_digits.simps [of n])
  qed
qed

definition i64_value :: "bytes \<Rightarrow> int" where
  "i64_value bs = (if hd bs = 45 then - int (dec_value (tl bs)) else int (dec_value bs))"

lemma i64_value_to_string: "i64_value (i64_to_string x) = x"
  by (simp add: i64_value_def i64_to_string_def dec_value_digits dec_digits_head)

lemma i64_to_string_inject [simp]: "i64_to_string x = i64_to_string y \<longleftrightarrow> x = y"
  by (metis i64_value_to_string)

subsection \<open>Slices and maps\<close>

text \<open>\<open>slice::chunk_by\<close>: maximal runs in which adjacent elements are related.\<close>

fun chunk_by :: "('a \<Rightarrow> 'a \<Rightarrow> bool) \<Rightarrow> 'a list \<Rightarrow> 'a list list" where
  "chunk_by R [] = []"
| "chunk_by R [x] = [[x]]"
| "chunk_by R (x # y # xs) =
     (if R x y
      then (case chunk_by R (y # xs) of [] \<Rightarrow> [[x]] | c # cs \<Rightarrow> (x # c) # cs)
      else [x] # chunk_by R (y # xs))"

lemma concat_chunk_by [simp]: "concat (chunk_by R xs) = xs"
  by (induction R xs rule: chunk_by.induct) (auto split: list.splits)

lemma chunk_by_nonempty: "c \<in> set (chunk_by R xs) \<Longrightarrow> c \<noteq> []"
  by (induction R xs arbitrary: c rule: chunk_by.induct) (auto split: list.splits if_splits)

lemma chunk_by_hd_hd: "xs \<noteq> [] \<Longrightarrow> \<exists>c cs. chunk_by R xs = c # cs \<and> c \<noteq> [] \<and> hd c = hd xs"
  by (induction R xs rule: chunk_by.induct) (auto split: list.splits)

text \<open>Chunking by equality of a key puts equal keys only in one chunk.\<close>

lemma chunk_by_key:
  "c \<in> set (chunk_by (\<lambda>a b. f a = f b) xs) \<Longrightarrow> x \<in> set c \<Longrightarrow> f x = f (hd c)"
proof (induction "\<lambda>a b. f a = f b" xs arbitrary: c x rule: chunk_by.induct)
  case (3 a b xs)
  obtain d ds where d: "chunk_by (\<lambda>a b. f a = f b) (b # xs) = d # ds" "d \<noteq> []" "hd d = b"
    using chunk_by_hd_hd [of "b # xs" "\<lambda>a b. f a = f b"] by auto
  show ?case
  proof (cases "f a = f b")
    case True
    have IH: "f y = f (hd c')" if "c' \<in> set (d # ds)" "y \<in> set c'" for c' y
      using "3.hyps"(1) [OF True] that d(1) by simp
    from True d(1) "3.prems"(1) consider "c = a # d" | "c \<in> set ds" by auto
    then show ?thesis
    proof cases
      case 1
      with "3.prems"(2) IH [of d x] d(3) True show ?thesis by fastforce
    next
      case 2
      with "3.prems"(2) IH [of c x] show ?thesis by simp
    qed
  next
    case False
    with "3.prems"(1) consider "c = [a]" | "c \<in> set (chunk_by (\<lambda>a b. f a = f b) (b # xs))" by auto
    then show ?thesis
    proof cases
      case 1
      with "3.prems"(2) show ?thesis by simp
    next
      case 2
      show ?thesis by (rule "3.hyps"(2) [OF False 2 "3.prems"(2)])
    qed
  qed
qed simp_all

lemma length_chunk_by: "length (chunk_by R xs) \<le> length xs"
  by (induction R xs rule: chunk_by.induct) (auto split: list.splits)

text \<open>\<open>HashMap::from_iter\<close> inserts in order, a later pair for a key wins.\<close>

definition from_iter :: "('k \<times> 'v) list \<Rightarrow> ('k \<rightharpoonup> 'v)" where
  "from_iter kvs = map_of (rev kvs)"

lemma from_iter_Some: "from_iter kvs k = Some v \<Longrightarrow> (k, v) \<in> set kvs"
  by (auto simp: from_iter_def dest: map_of_SomeD)

lemma from_iter_distinct:
  "distinct (map fst kvs) \<Longrightarrow> from_iter kvs k = Some v \<longleftrightarrow> (k, v) \<in> set kvs"
  by (simp add: from_iter_def rev_map [symmetric])

text \<open>\<open>HashMap::try_insert\<close>: an occupied entry is left alone and the call is an error.\<close>

definition try_insert :: "'k \<Rightarrow> 'v \<Rightarrow> ('k \<rightharpoonup> 'v) \<Rightarrow> ('k \<rightharpoonup> 'v) \<times> bool" where
  "try_insert k v m = (case m k of Some w \<Rightarrow> (m, False) | None \<Rightarrow> (m(k \<mapsto> v), True))"

definition as_bytes :: "string \<Rightarrow> bytes" where
  "as_bytes s = map of_char s"

subsection \<open>Socket addresses\<close>

datatype sockaddr =
    V4 u32 u16
  | V6 "128 word" u16 u32 u32

text \<open>The order of \<open>std::net::SocketAddr\<close>: by family, then field by field.\<close>

fun sock_key :: "sockaddr \<Rightarrow> nat \<times> nat \<times> nat \<times> nat \<times> nat" where
  "sock_key (V4 ip port) = (0, unat ip, unat port, 0, 0)"
| "sock_key (V6 ip port flow scope) = (1, unat ip, unat port, unat flow, unat scope)"

lemma sock_key_inject: "sock_key a = sock_key b \<longleftrightarrow> a = b"
  by (cases a; cases b) (auto simp: word_unat_eq_iff)

instantiation sockaddr :: linorder
begin

definition less_eq_sockaddr :: "sockaddr \<Rightarrow> sockaddr \<Rightarrow> bool" where
  "less_eq_sockaddr a b \<longleftrightarrow> sock_key a \<le> sock_key b"

definition less_sockaddr :: "sockaddr \<Rightarrow> sockaddr \<Rightarrow> bool" where
  "less_sockaddr a b \<longleftrightarrow> sock_key a < sock_key b"

instance
  by standard (auto simp: less_eq_sockaddr_def less_sockaddr_def sock_key_inject [symmetric]
      simp del: less_eq_prod_simp less_prod_simp)

end

end
