(* ===== verification/Sequence.thy ===== *)
theory Sequence
  imports Prelude
begin

text \<open>
  \<^verbatim>\<open>sequence.rs\<close>: the 32-bit packet sequence numbers \<open>Seq32\<close>, which wrap around.
\<close>

datatype seq32 = Seq (seq_value: u32)

definition seq_new :: seq32 where
  "seq_new = Seq 0"

definition seq_inc :: "seq32 \<Rightarrow> seq32" where
  "seq_inc s = Seq (seq_value s + 1)"

definition seq_from :: "u32 \<Rightarrow> seq32" where
  "seq_from v = Seq v"

definition seq_deref :: "seq32 \<Rightarrow> u32" where
  "seq_deref s = seq_value s"

lemma seq_inc_iterate: "(seq_inc ^^ n) (Seq v) = Seq (v + of_nat n)"
  by (induction n) (simp_all add: seq_inc_def algebra_simps)

text \<open>
  A sequence number is the number of increments since the start modulo \<open>2\<^sup>3\<^sup>2\<close>: after \<open>n\<close> calls
  of \<open>inc\<close> on a new \<open>Seq32\<close> the value is \<open>n mod 2\<^sup>3\<^sup>2\<close>, so it wraps from \<open>u32::MAX\<close> to 0 and
  never panics.
\<close>

theorem seq_counts: "unat (seq_deref ((seq_inc ^^ n) seq_new)) = n mod 2 ^ 32"
  by (simp add: seq_new_def seq_inc_iterate seq_deref_def unat_of_nat take_bit_eq_mod)

end
