(* ===== verification/Node_Data.thy ===== *)
theory Node_Data
  imports Rust_Std Sequence
begin

text \<open>
  The data of a node: \<^verbatim>\<open>nodeinfo.rs\<close>, \<^verbatim>\<open>peer.rs\<close>, \<^verbatim>\<open>message.rs\<close>, \<^verbatim>\<open>packet.rs\<close>, the wire types of
  \<^verbatim>\<open>handshake.rs\<close> and \<^verbatim>\<open>peer_manager.rs\<close>, the messages the three actors exchange, the timers
  (\<^verbatim>\<open>delayed.rs\<close>, \<^verbatim>\<open>interval.rs\<close>), deferred actions (\<^verbatim>\<open>and_then.rs\<close>) and the effects a method can have.

  The \<open>serde(skip)\<close> fields of \<open>Peer\<close> are not sent and come back as \<open>None\<close>: the \<open>wire_\<close> functions say what
  the receiver sees of a value that was encoded and decoded.
\<close>

subsection \<open>Node configuration: \<^verbatim>\<open>nodeinfo.rs\<close>\<close>

datatype distribution_strategy = Uniform | HubAndSpoke | PreferLocal | PreferRemote

record nodeinfo =
  bind_addr :: string
  node_keys :: "string list"
  node_peers :: "string list"
  node_id :: uuid
  peer_subscriptions :: nat
  node_zone :: "string option"
  strategy :: distribution_strategy

subsection \<open>Peers: \<^verbatim>\<open>peer.rs\<close>\<close>

record keypair =
  public_key :: bytes
  secret_key :: bytes

record peer =
  our_keypair :: "keypair option"
  their_public_key :: "bytes option"
  handshake_timestamp :: "timestamp option"
  peer_sockaddr :: sockaddr
  peer_id :: uuid
  peer_zone :: "string option"

text \<open>The first argument is the key pair that \<open>KeyPair::gen\<close> produces.\<close>

definition peer_new ::
    "keypair \<Rightarrow> bytes option \<Rightarrow> sockaddr \<Rightarrow> uuid \<Rightarrow> timestamp option \<Rightarrow> string option \<Rightarrow> peer" where
  "peer_new kp pk addr i ts zone =
     \<lparr>our_keypair = Some kp, their_public_key = pk, handshake_timestamp = ts,
      peer_sockaddr = addr, peer_id = i, peer_zone = zone\<rparr>"

definition is_handshaken :: "peer \<Rightarrow> bool" where
  "is_handshaken p \<longleftrightarrow> our_keypair p \<noteq> None \<and> their_public_key p \<noteq> None"

definition set_their_public_key :: "bytes \<Rightarrow> peer \<Rightarrow> peer" where
  "set_their_public_key pk p = p\<lparr>their_public_key := Some pk\<rparr>"

definition set_id :: "uuid \<Rightarrow> peer \<Rightarrow> peer" where
  "set_id i p = p\<lparr>peer_id := i\<rparr>"

definition set_zone :: "string option \<Rightarrow> peer \<Rightarrow> peer" where
  "set_zone z p = p\<lparr>peer_zone := z\<rparr>"

definition wire_peer :: "peer \<Rightarrow> peer" where
  "wire_peer p = p\<lparr>our_keypair := None, their_public_key := None, handshake_timestamp := None\<rparr>"

lemma wire_peer_not_handshaken [simp]: "\<not> is_handshaken (wire_peer p)"
  by (simp add: wire_peer_def is_handshaken_def)

lemma wire_peer_id [simp]: "peer_id (wire_peer p) = peer_id p"
  by (simp add: wire_peer_def)

lemma wire_peer_idem [simp]: "wire_peer (wire_peer p) = wire_peer p"
  by (simp add: wire_peer_def)

subsection \<open>Peer requests: \<^verbatim>\<open>peer_manager.rs\<close>\<close>

datatype peer_state = Up | Down

record peer_status =
  status_peer :: peer
  status_state :: peer_state

datatype peer_request =
    PeerList
  | Peers "peer list"
  | PeerStatus peer_status
  | StartSubscription
  | SubscriptionStarted
  | EndSubscription
  | Heartbeat

subsection \<open>Messages: \<^verbatim>\<open>message.rs\<close>\<close>

record frame =
  frame_len :: nat
  frame_idx :: nat
  frame_data :: bytes

datatype body =
    Broadcast bytes
  | PeerRequest peer_request
  | Frame frame
  | Nak u32 u32

record message =
  msg_id :: uuid
  msg_body :: body

fun wire_request :: "peer_request \<Rightarrow> peer_request" where
  "wire_request (Peers ps) = Peers (map wire_peer ps)"
| "wire_request (PeerStatus st) = PeerStatus (st\<lparr>status_peer := wire_peer (status_peer st)\<rparr>)"
| "wire_request r = r"

fun wire_body :: "body \<Rightarrow> body" where
  "wire_body (PeerRequest r) = PeerRequest (wire_request r)"
| "wire_body b = b"

definition wire_message :: "message \<Rightarrow> message" where
  "wire_message m = m\<lparr>msg_body := wire_body (msg_body m)\<rparr>"

lemma wire_message_id [simp]: "msg_id (wire_message m) = msg_id m"
  by (simp add: wire_message_def)

lemma wire_message_fields [simp]: "wire_message \<lparr>msg_id = i, msg_body = b\<rparr> = \<lparr>msg_id = i, msg_body = wire_body b\<rparr>"
  by (simp add: wire_message_def)

lemma wire_request_idem [simp]: "wire_request (wire_request r) = wire_request r"
  by (cases r) simp_all

lemma wire_body_idem [simp]: "wire_body (wire_body b) = wire_body b"
  by (cases b) simp_all

lemma wire_message_idem [simp]: "wire_message (wire_message m) = wire_message m"
  by (simp add: wire_message_def)

subsection \<open>Handshake messages and packets: \<^verbatim>\<open>handshake.rs\<close>, \<^verbatim>\<open>packet.rs\<close>\<close>

record hmac =
  hmac_hash :: bytes
  hmac_message :: bytes

datatype handshake_step =
    Hello bytes "string option" "hmac list" timestamp
  | Ohai bytes "string option" "hmac list" bytes
  | OkBoss "bytes list"
  | GoTeam
  | Dead

record handshake =
  hs_id :: uuid
  hs_step :: handshake_step

datatype payload = H handshake | B bytes bytes

record packet =
  pkt_s :: seq32
  pkt_id :: uuid
  pkt_p :: payload

subsection \<open>Messages to the actors\<close>

text \<open>
  The only deferred action of the program is the one \<open>trigger_reassignment\<close> builds: start a subscription
  to a peer once it has been handshaken. Sockets, \<open>Notify\<close> objects and broadcast handlers are named by
  numbers.
\<close>

datatype and_then = AndThen_start_subscription uuid

datatype handshaker_message =
    Bootstrap
  | Packet sockaddr handshake uuid
  | SendHello sockaddr "and_then option"

type_synonym keys = "uuid \<rightharpoonup> sockaddr \<times> keypair \<times> bytes"

datatype packet_handler_message =
    Start nat
  | Send sockaddr payload
  | Recv sockaddr packet
  | KeysUpdated keys
  | SendMessage uuid message
  | SubscribersUpdated "uuid list"
  | SendBroadcast bytes
  | BroadcastPeerStatus peer_status
  | SetBroadcastHandler "nat option" "nat option"
  | RateControl

datatype peer_manager_request =
    Request uuid peer_request
  | SetNotify nat
  | Reassign
  | StartHeartbeats
  | SendHeartbeat
  | Shutdown
  | GetSubscriberCount

datatype peer_manager_response = SubscriberCount nat | Ok

subsection \<open>Timers: \<^verbatim>\<open>delayed.rs\<close>, \<^verbatim>\<open>interval.rs\<close>\<close>

text \<open>
  A timer is its delay or period in milliseconds and what its future does when it runs; a \<open>Delayed\<close> also has the
  instant (in nanoseconds) at which its task was spawned. Dropping the handle aborts the task, so a timer that is no
  longer stored does not run.
\<close>

datatype future =
    Future_cast_peer_manager peer_manager_request
  | Future_cast_handshaker handshaker_message
  | Future_cast_packet_handler packet_handler_message
  | Future_bootstrap "string list"

record delayed =
  delayed_spawned :: nat
  delayed_millis :: nat
  delayed_future :: future

record interval =
  interval_millis :: nat
  interval_future :: future

definition delayed_new :: "nat \<Rightarrow> nat \<Rightarrow> future \<Rightarrow> delayed" where
  "delayed_new t ms f = \<lparr>delayed_spawned = t, delayed_millis = ms, delayed_future = f\<rparr>"

definition interval_new :: "nat \<Rightarrow> future \<Rightarrow> interval" where
  "interval_new ms f = \<lparr>interval_millis = ms, interval_future = f\<rparr>"

subsection \<open>Effects\<close>

text \<open>
  What a method does besides changing its actor's state: it casts to or calls an actor through the
  registry, hands bytes to a socket, wakes a waiter, calls the broadcast handler, or spawns a task that
  later does one of these. \<open>Spawn_send_to\<close> carries the earliest instant, in nanoseconds, at which the task sends.
\<close>

datatype effect =
    Cast_packet_handler packet_handler_message
  | Call_packet_handler packet_handler_message
  | Cast_handshaker handshaker_message
  | Call_handshaker handshaker_message
  | Cast_peer_manager peer_manager_request
  | Call_peer_manager peer_manager_request
  | Send_to nat bytes sockaddr
  | Spawn_send_to "nat option" nat packet sockaddr
  | Spawn_call_packet_handler nat packet_handler_message
  | Spawn_recv_loop nat
  | Notify_one nat
  | Handle_broadcast nat bytes

type_synonym 's operation = "('s, effect) act"

end
