(* ===== verification/Float64.thy ===== *)
theory Float64
  imports Prelude "HOL-Library.Log_Nat"
begin

text \<open>
  The \<open>f64\<close> arithmetic of the rate control. A finite double is the rational it denotes; an operation is the exact one
  followed by rounding to 53 significant bits, ties to even. Operands here are positive and far from the subnormal and
  overflow ranges: quotients of \<open>u32\<close> values and products of a \<open>u64\<close> with a factor from 2 to 8.
\<close>

subsection \<open>Rounding\<close>

definition round_even :: "rat \<Rightarrow> int" where
  "round_even x =
     (let f = \<lfloor>x\<rfloor>; d = x - of_int f in
      if d < 1 / 2 then f else if 1 / 2 < d then f + 1 else if even f then f else f + 1)"

text \<open>The exponent of the leading bit of a positive rational.\<close>

definition f64_exponent :: "rat \<Rightarrow> int" where
  "f64_exponent r =
     (case quotient_of r of (a, b) \<Rightarrow>
        let e = int (floorlog 2 (nat a)) - int (floorlog 2 (nat b)) in
        if 2 powi e \<le> r then e else e - 1)"

definition f64_round :: "rat \<Rightarrow> rat" where
  "f64_round r =
     (if r \<le> 0 then 0
      else let u = 2 powi (f64_exponent r - 52) in of_int (round_even (r / u)) * u)"

subsection \<open>Operations\<close>

definition f64_of_u32 :: "u32 \<Rightarrow> rat" where
  "f64_of_u32 n = f64_round (of_nat (unat n))"

definition f64_of_u64 :: "u64 \<Rightarrow> rat" where
  "f64_of_u64 n = f64_round (of_nat (unat n))"

definition f64_div :: "rat \<Rightarrow> rat \<Rightarrow> rat" where
  "f64_div x y = f64_round (x / y)"

definition f64_mul :: "rat \<Rightarrow> rat \<Rightarrow> rat" where
  "f64_mul x y = f64_round (x * y)"

text \<open>\<open>as u64\<close>: toward zero, saturating.\<close>

definition u64_of_f64 :: "rat \<Rightarrow> u64" where
  "u64_of_f64 x = of_int (min (max 0 \<lfloor>x\<rfloor>) (2 ^ 64 - 1))"

subsection \<open>Properties of rounding\<close>

lemma round_even_bounds: "\<bar>of_int (round_even x) - x\<bar> \<le> 1 / 2"
proof -
  define d where "d = x - of_int \<lfloor>x\<rfloor>"
  have d: "0 \<le> d" "d < 1" unfolding d_def by linarith+
  have "of_int (round_even x) - x = - d \<and> d \<le> 1 / 2 \<or> of_int (round_even x) - x = 1 - d \<and> 1 / 2 \<le> d"
    by (auto simp: round_even_def Let_def d_def [symmetric]) (auto simp: d_def)
  with d show ?thesis by (auto simp: abs_if)
qed

lemma round_even_int [simp]: "round_even (of_int n) = n"
  by (simp add: round_even_def)

lemma round_even_ge: "of_int n \<le> x \<Longrightarrow> n \<le> round_even x"
proof -
  assume "of_int n \<le> x"
  then have "n \<le> \<lfloor>x\<rfloor>" by (simp add: le_floor_iff)
  then show ?thesis by (auto simp: round_even_def Let_def)
qed

lemma round_even_le:
  assumes "x \<le> of_int n"
  shows "round_even x \<le> n"
proof (rule ccontr)
  assume "\<not> round_even x \<le> n"
  then have "n + 1 \<le> round_even x" by simp
  then have "of_int n + 1 \<le> (of_int (round_even x) :: rat)"
    by (metis of_int_1 of_int_add of_int_le_iff)
  with round_even_bounds [of x] assms show False by (auto simp: abs_if split: if_splits)
qed

lemma f64_exponent_le:
  assumes "0 < r"
  shows "2 powi (f64_exponent r) \<le> r"
proof -
  obtain a b where q: "quotient_of r = (a, b)" by (cases "quotient_of r")
  from q have r: "r = of_int a / of_int b" and b: "0 < b" by (auto simp: quotient_of_div quotient_of_denom_pos)
  from r b assms have a: "0 < a" by (simp add: zero_less_divide_iff)
  let ?la = "floorlog 2 (nat a)" and ?lb = "floorlog 2 (nat b)"
  have "2 ^ (?la - 1) \<le> nat a" using floorlog_bounds [of "nat a" 2] a by simp
  then have la: "2 ^ (?la - 1) \<le> (of_int a :: rat)"
    using a by (metis of_nat_le_iff of_nat_nat less_imp_le of_nat_numeral of_nat_power)
  have "nat b < 2 ^ ?lb" using floorlog_bounds [of "nat b" 2] b by simp
  then have lb: "of_int b < (2 ^ ?lb :: rat)"
    using b by (metis of_nat_less_iff of_nat_nat less_imp_le of_nat_numeral of_nat_power)
  have pos: "0 < ?la" using a by (simp add: floorlog_def)
  have e: "int ?la - int ?lb - 1 = int (?la - 1) - int ?lb" using pos by linarith
  have "2 powi (int ?la - int ?lb - 1) = (2 powi int (?la - 1) / 2 powi int ?lb :: rat)"
    unfolding e by (rule power_int_diff) simp
  also have "\<dots> = 2 ^ (?la - 1) / 2 ^ ?lb" unfolding power_int_of_nat ..
  also have "\<dots> \<le> of_int a / of_int b"
    using la lb a b by (intro frac_le) simp_all
  finally have "2 powi (int ?la - int ?lb - 1) \<le> r" by (simp add: r)
  then show ?thesis by (simp add: f64_exponent_def q Let_def)
qed

text \<open>The relative error of one rounding is at most \<open>2 ^ - 53\<close>.\<close>

lemma f64_round_error:
  assumes "0 < r"
  shows "\<bar>f64_round r - r\<bar> \<le> r / 2 ^ 53"
proof -
  define u :: rat where "u = 2 powi (f64_exponent r - 52)"
  have u: "0 < u" by (simp add: u_def)
  have "u * 2 ^ 52 = 2 powi (f64_exponent r)"
    by (simp add: u_def power_int_diff)
  then have ur: "u * 2 ^ 52 \<le> r" using f64_exponent_le [OF assms] by simp
  have "f64_round r - r = (of_int (round_even (r / u)) - r / u) * u"
    using assms u by (simp add: f64_round_def u_def [symmetric] field_simps)
  then have "\<bar>f64_round r - r\<bar> = \<bar>of_int (round_even (r / u)) - r / u\<bar> * u"
    using u by (simp add: abs_mult)
  also have "\<dots> \<le> 1 / 2 * u"
    by (intro mult_right_mono round_even_bounds) (use u in simp)
  also have "\<dots> \<le> r / 2 ^ 53" using ur by simp
  finally show ?thesis .
qed

text \<open>Integers below \<open>2 ^ 53\<close> are exact, and rounding does not cross them.\<close>

lemma f64_exponent_small:
  assumes "0 < r" and "r < 2 ^ 53"
  shows "f64_exponent r \<le> 52"
proof (rule ccontr)
  assume "\<not> ?thesis"
  then have "(2 :: rat) powi 53 \<le> 2 powi (f64_exponent r)" by (intro power_int_increasing) simp_all
  also have "\<dots> \<le> r" by (rule f64_exponent_le [OF assms(1)])
  finally show False using assms(2) by simp
qed

lemma f64_round_scaled:
  assumes "0 < r" and "r < 2 ^ 53"
  obtains k :: nat where "f64_round r = of_int (round_even (r * 2 ^ k)) / 2 ^ k"
proof -
  let ?k = "nat (52 - f64_exponent r)"
  have "f64_exponent r - 52 = - int ?k" using f64_exponent_small [OF assms] by simp
  then have "(2 :: rat) powi (f64_exponent r - 52) = 1 / 2 ^ ?k"
    by (simp only: power_int_minus power_int_of_nat) (simp add: field_simps)
  then have "f64_round r = of_int (round_even (r * 2 ^ ?k)) / 2 ^ ?k"
    using assms(1) by (simp add: f64_round_def)
  then show ?thesis by (rule that)
qed

lemma f64_round_ge_int:
  assumes "of_int n \<le> r" and "0 < r" and "r < 2 ^ 53"
  shows "of_int n \<le> f64_round r"
proof -
  obtain k where k: "f64_round r = of_int (round_even (r * 2 ^ k)) / 2 ^ k"
    by (rule f64_round_scaled [OF assms(2,3)])
  have "of_int (n * 2 ^ k) \<le> r * 2 ^ k" using assms(1) by simp
  then have "n * 2 ^ k \<le> round_even (r * 2 ^ k)" by (rule round_even_ge)
  then have "of_int (n * 2 ^ k) \<le> (of_int (round_even (r * 2 ^ k)) :: rat)" by (simp only: of_int_le_iff)
  then show ?thesis by (simp add: k field_simps)
qed

lemma f64_round_le_int:
  assumes "r \<le> of_int n" and "0 < r" and "r < 2 ^ 53"
  shows "f64_round r \<le> of_int n"
proof -
  obtain k where k: "f64_round r = of_int (round_even (r * 2 ^ k)) / 2 ^ k"
    by (rule f64_round_scaled [OF assms(2,3)])
  have "r * 2 ^ k \<le> of_int (n * 2 ^ k)" using assms(1) by simp
  then have "round_even (r * 2 ^ k) \<le> n * 2 ^ k" by (rule round_even_le)
  then have "(of_int (round_even (r * 2 ^ k)) :: rat) \<le> of_int (n * 2 ^ k)" by (simp only: of_int_le_iff)
  then show ?thesis by (simp add: k field_simps)
qed

lemma f64_round_nat:
  assumes "n < 2 ^ 53"
  shows "f64_round (of_nat n) = of_nat n"
proof (cases "n = 0")
  case True
  then show ?thesis by (simp add: f64_round_def)
next
  case False
  have "(of_nat n :: rat) < 2 ^ 53" using assms by (metis of_nat_less_iff of_nat_numeral of_nat_power)
  with False f64_round_ge_int [of "int n" "of_nat n"] f64_round_le_int [of "of_nat n" "int n"]
  show ?thesis by simp
qed

lemma f64_of_u32: "f64_of_u32 n = of_nat (unat n)"
proof -
  have "unat n < 2 ^ 53" using unsigned_less [of n, where 'a = nat] by simp
  then show ?thesis unfolding f64_of_u32_def by (rule f64_round_nat)
qed

lemma f64_of_u64:
  assumes "unat n < 2 ^ 53"
  shows "f64_of_u64 n = of_nat (unat n)"
  unfolding f64_of_u64_def by (rule f64_round_nat [OF assms])

text \<open>Comparing a rounded quotient of 32-bit numbers with the double nearest to 1/1000 is comparing the exact quotient with 1/1000.\<close>

lemma f64_div_below_thousandth:
  assumes "0 < c" and "c < 2 ^ 32"
  shows "f64_div (of_nat n) (of_nat c) < f64_round (1 / 1000) \<longleftrightarrow> 1000 * n < c"
proof -
  let ?T = "f64_round (1 / 1000)"
  define q :: rat where "q = of_nat n / of_nat c"
  have T: "\<bar>?T - 1 / 1000\<bar> \<le> 1 / 1000 / 2 ^ 53" by (rule f64_round_error) simp
  have c: "0 < (of_nat c :: rat)" "1 / 2 ^ 32 \<le> 1 / (of_nat c :: rat)"
  proof -
    show pos: "0 < (of_nat c :: rat)" using assms(1) by simp
    have "(of_nat c :: rat) \<le> 2 ^ 32"
      using assms(2) by (metis less_imp_le of_nat_le_iff of_nat_numeral of_nat_power)
    then show "1 / 2 ^ 32 \<le> 1 / (of_nat c :: rat)" using pos by (intro divide_left_mono) simp_all
  qed
  have err: "\<bar>f64_round q - q\<bar> \<le> q / 2 ^ 53"
  proof (cases "n = 0")
    case True
    then show ?thesis by (simp add: q_def f64_round_def)
  next
    case False
    then show ?thesis using c by (intro f64_round_error) (simp add: q_def)
  qed
  have "f64_round q < ?T \<longleftrightarrow> 1000 * n < c"
  proof (cases rule: linorder_cases [of "1000 * n" c])
    case less
    then have "of_nat (1000 * n + 1) \<le> (of_nat c :: rat)" by (simp only: of_nat_le_iff)
    then have "1000 * q + 1 / of_nat c \<le> 1" using c(1) by (simp add: q_def field_simps)
    with c(2) have "1000 * q \<le> 1 - 1 / 2 ^ 32" by linarith
    with err T have "f64_round q < ?T" unfolding abs_le_iff by simp
    with less show ?thesis by simp
  next
    case equal
    then have "q = 1 / 1000" using assms(1) by (auto simp: q_def field_simps)
    then have "f64_round q = ?T" by (rule arg_cong)
    with equal show ?thesis by simp
  next
    case greater
    then have "(of_nat (c + 1) :: rat) \<le> of_nat (1000 * n)" by (simp only: of_nat_le_iff)
    then have "of_nat (c + 1) / (of_nat c :: rat) \<le> of_nat (1000 * n) / of_nat c"
      using c(1) by (intro divide_right_mono) simp_all
    then have "1 + 1 / of_nat c \<le> 1000 * q" using c(1) by (simp add: q_def add_divide_distrib)
    with c(2) have "1 + 1 / 2 ^ 32 \<le> 1000 * q" by linarith
    with err T have "?T \<le> f64_round q" unfolding abs_le_iff by simp
    with greater show ?thesis by simp
  qed
  then show ?thesis by (simp add: f64_div_def q_def)
qed

text \<open>A 64-bit number below \<open>2 ^ 50\<close> times a factor from 2 to 8.\<close>

lemma u64_of_f64_bounds:
  assumes "of_nat a \<le> x" and "x \<le> of_nat b" and "b < 2 ^ 64"
  shows "a \<le> unat (u64_of_f64 x)" and "unat (u64_of_f64 x) \<le> b"
proof -
  have f: "int a \<le> \<lfloor>x\<rfloor>" "\<lfloor>x\<rfloor> \<le> int b"
    using assms(1,2) by (simp_all add: le_floor_iff floor_le_iff)
  with assms(3) have range: "min (max 0 \<lfloor>x\<rfloor>) (2 ^ 64 - 1) = \<lfloor>x\<rfloor>" by simp
  have "uint (u64_of_f64 x) = \<lfloor>x\<rfloor>"
  proof -
    have "int b < 2 ^ 64" using assms(3) by simp
    with f have nonneg: "0 \<le> \<lfloor>x\<rfloor>" "\<lfloor>x\<rfloor> < 2 ^ 64" by linarith+
    then have "take_bit 64 \<lfloor>x\<rfloor> = \<lfloor>x\<rfloor>" by (simp only: take_bit_int_eq_self_iff)
    with nonneg(1) show ?thesis unfolding u64_of_f64_def range by (simp add: unsigned_of_int)
  qed
  then have "int (unat (u64_of_f64 x)) = \<lfloor>x\<rfloor>" by simp
  with f show "a \<le> unat (u64_of_f64 x)" "unat (u64_of_f64 x) \<le> b" by linarith+
qed

lemma f64_mul_bounds:
  assumes "unat d < 2 ^ 50" and "2 \<le> f" and "f \<le> 8"
  shows "2 * unat d \<le> unat (u64_of_f64 (f64_mul (f64_of_u64 d) f))"
    and "unat (u64_of_f64 (f64_mul (f64_of_u64 d) f)) \<le> 8 * unat d"
proof -
  let ?n = "unat d" and ?y = "of_nat (unat d) * f"
  have mul: "f64_mul (f64_of_u64 d) f = f64_round ?y"
    using assms(1) by (simp only: f64_mul_def) (subst f64_of_u64, simp_all)
  have y: "of_int (int (2 * ?n)) \<le> ?y" "?y \<le> of_int (int (8 * ?n))"
    using mult_left_mono [OF assms(2), of "of_nat ?n"] mult_left_mono [OF assms(3), of "of_nat ?n"]
    by (simp_all del: of_nat_unat add: mult.commute)
  have "8 * ?n < 2 ^ 53" using assms(1) by simp
  then have "(of_nat (8 * ?n) :: rat) < of_nat (2 ^ 53)" by (simp only: of_nat_less_iff)
  with y(2) have y53: "?y < 2 ^ 53" by (simp del: of_nat_unat)
  have "of_nat (2 * ?n) \<le> f64_round ?y \<and> f64_round ?y \<le> of_nat (8 * ?n)"
  proof (cases "?n = 0")
    case True
    then show ?thesis by (simp add: f64_round_def)
  next
    case False
    then have "0 < ?y" using assms(2) by (simp del: of_nat_unat)
    from f64_round_ge_int [OF y(1) this y53] f64_round_le_int [OF y(2) this y53]
    show ?thesis by (simp del: of_nat_unat)
  qed
  then show "2 * ?n \<le> unat (u64_of_f64 (f64_mul (f64_of_u64 d) f))"
      "unat (u64_of_f64 (f64_mul (f64_of_u64 d) f)) \<le> 8 * ?n"
    using assms(1) u64_of_f64_bounds [of "2 * ?n" "f64_round ?y" "8 * ?n"] unfolding mul by simp_all
qed

end
