(* ===== verification/Externals.thy ===== *)
theory Externals
  imports Node_Data Float64 "HOL-Library.Multiset"
begin

text \<open>
  What the sources take from outside: the third-party crates (dryoc, rmp-serde, chrono, uuid, rand, lru)
  and name resolution are the fields of the records \<open>externals\<close>, \<open>chooser\<close> and \<open>lru\<close>; the clock and the random
  draws of one handler activation are the fields of \<open>inputs\<close>. The definitions of the components take these
  as arguments. The laws below state the documented behaviour that the properties rely on.
\<close>

subsection \<open>Functions of other crates\<close>

record externals =
  overflow_checks :: bool
    \<comment> \<open>the build profile\<close>
  generic_hash :: "bytes option \<Rightarrow> bytes \<Rightarrow> bytes option"
    \<comment> \<open>dryoc \<open>GenericHash\<close>: optional key, all the data fed to \<open>update\<close>\<close>
  box_encrypt :: "bytes \<Rightarrow> bytes \<Rightarrow> bytes \<Rightarrow> bytes \<Rightarrow> bytes option"
    \<comment> \<open>dryoc \<open>encrypt_to_vecbox\<close>: message, nonce, their public key, our secret key\<close>
  box_decrypt :: "bytes \<Rightarrow> bytes \<Rightarrow> bytes \<Rightarrow> bytes \<Rightarrow> bytes option"
    \<comment> \<open>dryoc \<open>decrypt_to_vec\<close>: box, nonce, their public key, our secret key\<close>
  message_to_vec :: "message \<Rightarrow> bytes option"
  message_from_slice :: "bytes \<Rightarrow> message option"
  packet_to_vec :: "packet \<Rightarrow> bytes option"
  packet_from_slice :: "bytes \<Rightarrow> packet option"
    \<comment> \<open>rmp-serde\<close>
  uuid_as_bytes :: "uuid \<Rightarrow> bytes"
  num_nanoseconds :: "timestamp \<Rightarrow> timestamp \<Rightarrow> int option"
    \<comment> \<open>chrono: \<open>now.signed_duration_since(then).num_nanoseconds()\<close>\<close>
  timestamp_nanos_opt :: "timestamp \<Rightarrow> int option"
  to_socket_addrs :: "string \<Rightarrow> sockaddr list option"
    \<comment> \<open>name resolution; \<open>None\<close> is the error\<close>

text \<open>rand and rand_chacha, as \<open>choose_peers\<close> uses them; \<open>'r\<close> is the state of the generator.\<close>

record 'r chooser =
  as_u64_pair :: "uuid \<Rightarrow> u64 \<times> u64"
  seed_from_u64 :: "u64 \<Rightarrow> 'r"
  choose_multiple :: "'r \<Rightarrow> uuid list \<Rightarrow> nat \<Rightarrow> uuid list \<times> 'r"
  choose_multiple_weighted :: "'r \<Rightarrow> peer list \<Rightarrow> nat \<Rightarrow> (peer \<Rightarrow> nat) \<Rightarrow> peer list option"

text \<open>lru; \<open>'c\<close> is the state of the cache.\<close>

record 'c lru =
  lru_new :: "nat \<Rightarrow> 'c"
  lru_contains :: "'c \<Rightarrow> uuid \<Rightarrow> bool"
  lru_put :: "uuid \<Rightarrow> 'c \<Rightarrow> 'c"

subsection \<open>Inputs of one activation of a handler\<close>

text \<open>
  The clock, the iteration order of hash sets, and the random draws, numbered in the order in which the
  activation makes them.
\<close>

record inputs =
  now :: timestamp
  instant_now :: nat
  id_order :: "uuid set \<Rightarrow> uuid list"
  sock_order :: "sockaddr set \<Rightarrow> sockaddr list"
  new_v4 :: "nat \<Rightarrow> uuid"
  keypair_gen :: keypair
  nonce_gen :: "nat \<Rightarrow> bytes"
  randombytes_buf :: "nat \<Rightarrow> nat \<Rightarrow> bytes"
  gen_range :: "nat \<Rightarrow> nat \<Rightarrow> nat \<Rightarrow> nat"
  gen_range_f64 :: "rat \<Rightarrow> rat \<Rightarrow> rat"

subsection \<open>Laws\<close>

definition order_law :: "inputs \<Rightarrow> bool" where
  "order_law I \<longleftrightarrow>
     (\<forall>S. set (id_order I S) = S \<and> distinct (id_order I S)) \<and>
     (\<forall>S. finite S \<longrightarrow> set (sock_order I S) = S \<and> distinct (sock_order I S))"

definition draw_law :: "inputs \<Rightarrow> bool" where
  "draw_law I \<longleftrightarrow>
     (\<forall>k lo hi. lo < hi \<longrightarrow> lo \<le> gen_range I k lo hi \<and> gen_range I k lo hi < hi) \<and>
     (\<forall>k n. length (randombytes_buf I k n) = n) \<and>
     (\<forall>lo hi. lo \<le> hi \<longrightarrow> lo \<le> gen_range_f64 I lo hi \<and> gen_range_f64 I lo hi \<le> hi)"

text \<open>A sample without replacement of the requested size, or of everything if there is less.\<close>

definition sample_of :: "'a list \<Rightarrow> nat \<Rightarrow> 'a list \<Rightarrow> bool" where
  "sample_of xs n ys \<longleftrightarrow> length ys = min n (length xs) \<and> mset ys \<subseteq># mset xs"

definition chooser_law :: "'r chooser \<Rightarrow> bool" where
  "chooser_law C \<longleftrightarrow>
     (\<forall>r xs n. sample_of xs n (fst (choose_multiple C r xs n))) \<and>
     (\<forall>r ps n w. (\<forall>p \<in> set ps. 0 < w p) \<longrightarrow>
        (\<exists>ys. choose_multiple_weighted C r ps n w = Some ys \<and> sample_of ps n ys))"

definition hash_law :: "externals \<Rightarrow> bool" where
  "hash_law E \<longleftrightarrow>
     (\<forall>d. \<exists>h. generic_hash E None d = Some h \<and> length h = 64) \<and>
     (\<forall>k d. length k = 64 \<longrightarrow> (\<exists>h. generic_hash E (Some k) d = Some h \<and> length h = 64))"

definition chrono_law :: "externals \<Rightarrow> bool" where
  "chrono_law E \<longleftrightarrow>
     (\<forall>a b. num_nanoseconds E a b = (if i64_range (a - b) then Some (a - b) else None)) \<and>
     (\<forall>t. timestamp_nanos_opt E t = (if i64_range t then Some t else None))"

definition codec_law :: "externals \<Rightarrow> bool" where
  "codec_law E \<longleftrightarrow>
     (\<forall>m. \<exists>v. message_to_vec E m = Some v \<and> message_from_slice E v = Some (wire_message m)) \<and>
     (\<forall>p. \<exists>v. packet_to_vec E p = Some v \<and> packet_from_slice E v = Some p)"

text \<open>Decoding fills the fields that are not sent with \<open>None\<close>, whatever the bytes are.\<close>

definition decode_law :: "externals \<Rightarrow> bool" where
  "decode_law E \<longleftrightarrow> (\<forall>v m. message_from_slice E v = Some m \<longrightarrow> wire_message m = m)"

text \<open>Decoding a packet reads no further than its encoding.\<close>

definition prefix_law :: "externals \<Rightarrow> bool" where
  "prefix_law E \<longleftrightarrow> (\<forall>p v rest. packet_to_vec E p = Some v \<longrightarrow> packet_from_slice E (v @ rest) = Some p)"

text \<open>\<open>valid\<close> says which pairs \<open>KeyPair::gen\<close> can return.\<close>

definition box_law :: "externals \<Rightarrow> (keypair \<Rightarrow> bool) \<Rightarrow> bool" where
  "box_law E valid \<longleftrightarrow>
     (\<forall>m n a b. valid a \<and> valid b \<longrightarrow>
        (\<exists>c. box_encrypt E m n (public_key b) (secret_key a) = Some c \<and>
             box_decrypt E c n (public_key a) (secret_key b) = Some m))"

text \<open>
  A new cache is empty, a put adds only its key, and a key is kept at least until as many other keys as the cache has
  room for have been put.
\<close>

definition lru_law :: "'c lru \<Rightarrow> bool" where
  "lru_law L \<longleftrightarrow>
     (\<forall>n k. \<not> lru_contains L (lru_new L n) k) \<and>
     (\<forall>c k j. lru_contains L (lru_put L k c) j \<longrightarrow> j = k \<or> lru_contains L c j) \<and>
     (\<forall>n js k ks. card (set ks) < n \<longrightarrow>
        lru_contains L (fold (lru_put L) ks (lru_put L k (fold (lru_put L) js (lru_new L n)))) k)"

lemma order_lawD:
  assumes "order_law I"
  shows "set (id_order I S) = S" "distinct (id_order I S)" "length (id_order I S) = card S"
proof -
  show *: "set (id_order I S) = S" "distinct (id_order I S)"
    using assms unfolding order_law_def by blast+
  show "length (id_order I S) = card S"
    using distinct_card [OF *(2)] *(1) by simp
qed

lemma order_law_sockD:
  assumes "order_law I" and "finite S"
  shows "set (sock_order I S) = S" "distinct (sock_order I S)"
  using assms unfolding order_law_def by blast+

lemma draw_lawD:
  assumes "draw_law I"
  shows "lo < hi \<Longrightarrow> lo \<le> gen_range I k lo hi" "lo < hi \<Longrightarrow> gen_range I k lo hi < hi"
    "length (randombytes_buf I k n) = n"
    "x \<le> y \<Longrightarrow> x \<le> gen_range_f64 I x y" "x \<le> y \<Longrightarrow> gen_range_f64 I x y \<le> y"
  using assms by (auto simp: draw_law_def)

lemma sample_ofD:
  assumes "sample_of xs n ys"
  shows "set ys \<subseteq> set xs" "length ys = min n (length xs)" "distinct xs \<Longrightarrow> distinct ys"
proof -
  from assms have sub: "mset ys \<subseteq># mset xs" by (simp add: sample_of_def)
  then show "set ys \<subseteq> set xs" using set_mset_mono by fastforce
  show "length ys = min n (length xs)" using assms by (simp add: sample_of_def)
  show "distinct ys" if "distinct xs"
  proof (rule distinct_count_atmost_1 [THEN iffD2], rule allI)
    fix a
    have "count (mset ys) a \<le> count (mset xs) a" using sub by (rule mset_subset_eq_count)
    also have "\<dots> \<le> 1" using that by (simp add: distinct_count_atmost_1)
    finally show "count (mset ys) a = (if a \<in> set ys then 1 else 0)"
      by (simp add: not_in_iff [symmetric] le_Suc_eq count_eq_zero_iff [symmetric])
  qed
qed

lemma chooser_lawD:
  assumes "chooser_law C"
  shows "sample_of xs n (fst (choose_multiple C r xs n))"
    and "(\<And>p. p \<in> set ps \<Longrightarrow> 0 < w p) \<Longrightarrow>
      \<exists>ys. choose_multiple_weighted C r ps n w = Some ys \<and> sample_of ps n ys"
  using assms by (auto simp: chooser_law_def)

end
