(* ===== verification/Gen_Server.thy ===== *)
theory Gen_Server
  imports Externals
begin

text \<open>
  The contract of an actor (a \<open>GenServer\<close>): it starts in a fixed state and handles its messages one after the
  other, each with the clock readings and random draws of that activation. The locale \<open>gen_server\<close> turns the
  preservation of an invariant by the handler into its validity along every run; \<open>total_server\<close> is the contract
  of an actor that never panics. Each actor of the program is an interpretation.
\<close>

fun run :: "('x \<Rightarrow> 'm \<Rightarrow> 's operation) \<Rightarrow> ('x \<times> 'm) list \<Rightarrow> 's operation" where
  "run h [] = skip"
| "run h ((x, m) # ms) = then_do (h x m) (run h ms)"

lemma run_append: "run h (ms @ ns) s = then_do (run h ms) (run h ns) s"
proof (induction ms arbitrary: s)
  case Nil
  then show ?case by simp
next
  case (Cons xm ms)
  obtain x m where xm: "xm = (x, m)" by (cases xm)
  show ?case
  proof (cases "h x m s")
    case (Pair es r)
    then show ?thesis
      by (cases r) (simp_all add: xm then_do_def Cons split: prod.splits sum.splits)
  qed
qed

lemma run_snoc: "run h (ms @ [xm]) = then_do (run h ms) (h (fst xm) (snd xm))"
  by (rule ext, cases xm) (simp add: run_append then_do_def skip_def split: prod.splits sum.splits)

text \<open>
  The most general contract: the invariant and the allowed effects may depend on the messages handled so far, so
  they can say where a piece of state or an effect comes from.
\<close>

locale history_server =
  fixes init :: 's
    and handle :: "'x \<Rightarrow> 'm \<Rightarrow> 's operation"
    and legal :: "'x \<Rightarrow> 'm \<Rightarrow> bool"
    and hinv :: "('x \<times> 'm) list \<Rightarrow> 's \<Rightarrow> bool"
    and good :: "('x \<times> 'm) list \<Rightarrow> effect \<Rightarrow> bool"
    and pan :: bool
  assumes init_hinv: "hinv [] init"
    and handle_hinv: "legal x m \<Longrightarrow> hinv ms s \<Longrightarrow>
      wp pan (good (ms @ [(x, m)])) (handle x m) (hinv (ms @ [(x, m)])) s"
    and good_mono: "good ms e \<Longrightarrow> good (ms @ [xm]) e"
begin

lemma run_history:
  assumes "\<forall>(x, m) \<in> set ms. legal x m"
  shows "wp pan (good ms) (run handle ms) (hinv ms) init"
  using assms
proof (induction ms rule: rev_induct)
  case Nil
  then show ?case by (simp add: wp_simps init_hinv)
next
  case (snoc xm ms)
  obtain x m where xm: "xm = (x, m)" by (cases xm)
  with snoc.prems have legal: "legal x m" by simp
  have "wp pan (good (ms @ [xm])) (run handle ms) (wp pan (good (ms @ [xm])) (handle x m) (hinv (ms @ [xm]))) init"
    by (rule wp_mono [OF snoc.IH]) (use snoc.prems legal in \<open>auto simp: xm intro: good_mono handle_hinv\<close>)
  then show ?case
    by (simp add: run_snoc wp_simps xm)
qed

end

locale gen_server =
  fixes init :: 's
    and handle :: "'x \<Rightarrow> 'm \<Rightarrow> 's operation"
    and legal :: "'x \<Rightarrow> 'm \<Rightarrow> bool"
    and inv :: "'s \<Rightarrow> bool"
    and allowed :: "effect \<Rightarrow> bool"
    and pan :: bool
  assumes init_inv: "inv init"
    and handle_wp: "legal x m \<Longrightarrow> inv s \<Longrightarrow> wp pan allowed (handle x m) inv s"
begin

lemma run_wp:
  assumes "\<forall>(x, m) \<in> set ms. legal x m" and "inv s"
  shows "wp pan allowed (run handle ms) inv s"
  using assms
proof (induction ms arbitrary: s)
  case Nil
  then show ?case by (simp add: wp_simps)
next
  case (Cons xm ms)
  obtain x m where xm: "xm = (x, m)" by (cases xm)
  with Cons.prems have "wp pan allowed (handle x m) inv s" by (auto intro: handle_wp)
  then have "wp pan allowed (handle x m) (wp pan allowed (run handle ms) inv) s"
    by (rule wp_mono) (use Cons in simp_all)
  then show ?case by (simp add: xm wp_simps)
qed

lemma run_inv:
  assumes "\<forall>(x, m) \<in> set ms. legal x m" and "run handle ms init = (es, Inr s)"
  shows "inv s"
  by (rule wp_InrD [OF run_wp assms(2)]) (use assms(1) init_inv in auto)

lemma run_allowed:
  assumes "\<forall>(x, m) \<in> set ms. legal x m" and "e \<in> set (fst (run handle ms init))"
  shows "allowed e"
  by (rule wp_effects [OF run_wp assms(2)]) (use assms(1) init_inv in auto)

end

text \<open>An invariant that does not look at the history is the special case.\<close>

sublocale gen_server \<subseteq> plain: history_server init handle legal "\<lambda>_. inv" "\<lambda>_. allowed" pan
  by unfold_locales (use init_inv handle_wp in simp_all)

locale total_server = gen_server init handle legal inv allowed False
  for init :: 's and handle :: "'x \<Rightarrow> 'm \<Rightarrow> 's operation" and legal inv allowed
begin

lemma run_total:
  assumes "\<forall>(x, m) \<in> set ms. legal x m"
  shows "\<exists>es s. run handle ms init = (es, Inr s) \<and> inv s"
  using run_wp [OF assms init_inv] by (auto elim: wp_total)

end

text \<open>
  One actor mirrors part of the state of another by applying its effects: \<open>see e v\<close> is the mirror after the effect
  \<open>e\<close>. If every activation keeps the mirror in the relation \<open>rel\<close> to the state, every run does.
\<close>

locale mirrored_server = gen_server init handle legal inv allowed pan
  for init :: 's and handle :: "'x \<Rightarrow> 'm \<Rightarrow> 's operation" and legal inv allowed pan +
  fixes see :: "effect \<Rightarrow> 'v \<Rightarrow> 'v" and start :: 'v and rel :: "'v \<Rightarrow> 's \<Rightarrow> bool"
  assumes start_rel: "rel start init"
    and handle_rel: "legal x m \<Longrightarrow> inv s \<Longrightarrow> rel v s \<Longrightarrow> handle x m s = (es, Inr s') \<Longrightarrow>
      rel (fold see es v) s'"
begin

lemma run_rel_from:
  assumes "\<forall>(x, m) \<in> set ms. legal x m" and "inv s" and "rel v s"
    and "run handle ms s = (es, Inr s')"
  shows "rel (fold see es v) s'"
  using assms
proof (induction ms arbitrary: s v es)
  case Nil
  then show ?case by (simp add: skip_def)
next
  case (Cons xm ms)
  obtain x m where xm: "xm = (x, m)" by (cases xm)
  from Cons.prems(1) have legal: "legal x m" by (simp add: xm)
  from Cons.prems(4) obtain es1 t es2 where h: "handle x m s = (es1, Inr t)"
    and r: "run handle ms t = (es2, Inr s')" and es: "es = es1 @ es2"
    by (auto simp: xm then_do_def split: prod.splits sum.splits)
  have "inv t" by (rule wp_InrD(1) [OF handle_wp [OF legal Cons.prems(2)] h])
  moreover have "rel (fold see es1 v) t" by (rule handle_rel [OF legal Cons.prems(2,3) h])
  ultimately have "rel (fold see es2 (fold see es1 v)) s'"
    using Cons.prems(1) r by (intro Cons.IH) simp_all
  then show ?case by (simp add: es)
qed

lemma run_rel:
  assumes "\<forall>(x, m) \<in> set ms. legal x m" and "run handle ms init = (es, Inr s)"
  shows "rel (fold see es start) s"
  by (rule run_rel_from [OF assms(1) init_inv start_rel assms(2)])

end

text \<open>
  A step relation that keeps an invariant keeps it in all reachable states, and along every execution, in which there may
  be pauses.
\<close>

definition execution :: "('s \<Rightarrow> 's \<Rightarrow> bool) \<Rightarrow> (nat \<Rightarrow> 's) \<Rightarrow> bool" where
  "execution step r \<longleftrightarrow> (\<forall>n. step (r n) (r (Suc n)) \<or> r (Suc n) = r n)"

locale transition_system =
  fixes initial :: "'s \<Rightarrow> bool" and step :: "'s \<Rightarrow> 's \<Rightarrow> bool" and inv :: "'s \<Rightarrow> bool"
  assumes initial_inv: "initial s \<Longrightarrow> inv s"
    and step_inv: "inv s \<Longrightarrow> step s t \<Longrightarrow> inv t"
begin

lemma reachable_inv: "step\<^sup>*\<^sup>* s t \<Longrightarrow> initial s \<Longrightarrow> inv t"
  by (induction rule: rtranclp_induct) (auto intro: initial_inv step_inv)

lemma execution_inv: "execution step r \<Longrightarrow> initial (r 0) \<Longrightarrow> inv (r n)"
  unfolding execution_def by (induction n) (metis initial_inv step_inv)+

lemma execution_mono:
  assumes "execution step r" and "\<And>s t. step s t \<Longrightarrow> le s t" and "\<And>s. le s s" and "\<And>s t u. le s t \<Longrightarrow> le t u \<Longrightarrow> le s u"
    and "m \<le> n"
  shows "le (r m) (r n)"
  using assms(5)
proof (induction n)
  case 0
  then show ?case by (simp add: assms(3))
next
  case (Suc n)
  then show ?case
  proof (cases "m = Suc n")
    case False
    with Suc have "le (r m) (r n)" by simp
    moreover have "le (r n) (r (Suc n))" using assms(1-3) unfolding execution_def by metis
    ultimately show ?thesis by (rule assms(4))
  qed (simp add: assms(3))
qed

end

text \<open>A refinement mapping: every step of the detailed system is a step of the abstract one, or none, after the mapping.\<close>

locale refinement_mapping =
  fixes step :: "'s \<Rightarrow> 's \<Rightarrow> bool" and abstract_step :: "'t \<Rightarrow> 't \<Rightarrow> bool" and abs :: "'s \<Rightarrow> 't"
  assumes step_abs: "step s t \<Longrightarrow> abstract_step\<^sup>=\<^sup>= (abs s) (abs t)"
begin

lemma reachable_abs: "step\<^sup>*\<^sup>* s t \<Longrightarrow> abstract_step\<^sup>*\<^sup>* (abs s) (abs t)"
proof (induction rule: rtranclp_induct)
  case (step t u)
  from step_abs [OF step.hyps(2)] step.IH show ?case by auto
qed simp

end

subsection \<open>Views of the effects\<close>

text \<open>
  \<open>keeps see rel a\<close>: running \<open>a\<close> keeps the relation between the state and a view that is updated by the effects. The
  rules follow the bodies of the methods.
\<close>

definition keeps :: "('e \<Rightarrow> 'v \<Rightarrow> 'v) \<Rightarrow> ('v \<Rightarrow> 's \<Rightarrow> bool) \<Rightarrow> ('s, 'e) act \<Rightarrow> bool" where
  "keeps see rel a \<longleftrightarrow> (\<forall>v s es s'. rel v s \<longrightarrow> a s = (es, Inr s') \<longrightarrow> rel (fold see es v) s')"

named_theorems keeps_rules

lemma keeps_skip [keeps_rules]: "keeps see rel skip"
  by (simp add: keeps_def skip_def)

lemma keeps_abort [keeps_rules]: "keeps see rel (abort p)"
  by (simp add: keeps_def abort_def)

lemma keeps_emit [keeps_rules]: "(\<And>v s. rel v s \<Longrightarrow> rel (see e v) s) \<Longrightarrow> keeps see rel (emit e)"
  by (simp add: keeps_def emit_def)

lemma keeps_modify [keeps_rules]: "(\<And>v s. rel v s \<Longrightarrow> rel v (f s)) \<Longrightarrow> keeps see rel (modify f)"
  by (simp add: keeps_def modify_def)

lemma keeps_then [keeps_rules]: "keeps see rel a \<Longrightarrow> keeps see rel b \<Longrightarrow> keeps see rel (then_do a b)"
  unfolding keeps_def then_do_def by (fastforce split: prod.splits sum.splits)

lemma keeps_do_all [keeps_rules]:
  "keeps see rel (do_all [])"
  "keeps see rel a \<Longrightarrow> keeps see rel (do_all as) \<Longrightarrow> keeps see rel (do_all (a # as))"
  by (simp_all add: keeps_skip keeps_then)

lemma keeps_foreach [keeps_rules]: "(\<And>x. x \<in> set xs \<Longrightarrow> keeps see rel (f x)) \<Longrightarrow> keeps see rel (foreach xs f)"
  by (induction xs) (simp_all add: keeps_skip keeps_then foreach_Cons)

lemma keeps_with_state [keeps_rules]: "(\<And>t. keeps see rel (f t)) \<Longrightarrow> keeps see rel (with_state f)"
  unfolding keeps_def with_state_def by blast

lemma keeps_with_result [keeps_rules]: "(\<And>x. r = Inr x \<Longrightarrow> keeps see rel (f x)) \<Longrightarrow> keeps see rel (with_result r f)"
  by (cases r) (simp_all add: keeps_abort)

lemma keepsD: "keeps see rel a \<Longrightarrow> rel v s \<Longrightarrow> a s = (es, Inr s') \<Longrightarrow> rel (fold see es v) s'"
  by (simp add: keeps_def)

end
