(* ===== verification/Packet_Handler.thy ===== *)
theory Packet_Handler
  imports Gen_Server
begin

text \<open>
  \<^verbatim>\<open>packet_handler.rs\<close>: the actor that owns the socket. It numbers, encrypts and sends packets, decrypts and
  deduplicates received ones, delivers and forwards broadcasts, and adapts the pace to lost packets. \<open>E\<close> is the library
  functions, \<open>L\<close> the cache library, \<open>N\<close> the node's configuration and \<open>I\<close> the inputs of the activation. The nonces of one
  activation are numbered: those of a message sent to several targets by target, that of a \<open>Nak\<close> after those of the
  forwarded message.
\<close>

subsection \<open>Constants and state\<close>

definition RC_DEFAULT_PACKET_INTERVAL_NANOS :: u64 where
  "RC_DEFAULT_PACKET_INTERVAL_NANOS = 10000"

definition RC_TIMER_MS :: nat where
  "RC_TIMER_MS = 60000"

definition RC_LOSS_RATE_THRESHOLD :: rat where
  "RC_LOSS_RATE_THRESHOLD = f64_round (1 / 1000)"

definition RC_DELAY_DECREASE :: u64 where
  "RC_DELAY_DECREASE = 100"

definition RC_DELAY_INCREASE :: "rat \<times> rat" where
  "RC_DELAY_INCREASE = (2, 8)"

text \<open>The room that is left in a UDP packet around an empty message. No other code uses it.\<close>

definition PAYLOAD_LENGTH_MAX ::
    "externals \<Rightarrow> keypair \<Rightarrow> keypair \<Rightarrow> bytes \<Rightarrow> uuid \<Rightarrow> nat result" where
  "PAYLOAD_LENGTH_MAX E sender recipient nonce i =
     bind_result (expect (box_encrypt E [] nonce (public_key recipient) (secret_key sender))) (\<lambda>dryocbox.
     bind_result (expect (packet_to_vec E \<lparr>pkt_s = seq_new, pkt_id = i, pkt_p = B dryocbox nonce\<rparr>)) (\<lambda>v.
       if length v \<le> 65507 then Inr (65507 - length v)
       else if overflow_checks E then Inl Arithmetic_overflow else Inr (2 ^ 64 + 65507 - length v)))"

record 'c packet_handler =
  ph_socket :: "nat option"
  tx_sequences :: "sockaddr \<rightharpoonup> seq32"
  rx_sequences :: "sockaddr \<rightharpoonup> seq32"
  last_tx :: "sockaddr \<rightharpoonup> nat"
  nak_count :: "sockaddr \<rightharpoonup> u32"
  tx_delay :: "sockaddr \<rightharpoonup> u64"
  rc_sequences :: "sockaddr \<rightharpoonup> seq32"
  ph_keys :: keys
  ph_subscribers :: "uuid list"
  seen :: 'c
  broadcast_handler_async :: "nat option"
  broadcast_handler :: "nat option"
  rate_control :: interval

definition packet_handler_new :: "'c lru \<Rightarrow> 'c packet_handler" where
  "packet_handler_new L =
     \<lparr>ph_socket = None, tx_sequences = Map.empty, rx_sequences = Map.empty, last_tx = Map.empty,
      nak_count = Map.empty, tx_delay = Map.empty, rc_sequences = Map.empty, ph_keys = Map.empty,
      ph_subscribers = [], seen = lru_new L 10000, broadcast_handler_async = None, broadcast_handler = None,
      rate_control = interval_new RC_TIMER_MS (Future_cast_packet_handler RateControl)\<rparr>"

definition put_seen :: "'c lru \<Rightarrow> uuid \<Rightarrow> 'c packet_handler operation" where
  "put_seen L i = modify (\<lambda>s. s\<lparr>seen := lru_put L i (seen s)\<rparr>)"

subsection \<open>Rate control\<close>

definition get_or :: "'v \<Rightarrow> ('k \<rightharpoonup> 'v) \<Rightarrow> 'k \<Rightarrow> 'v" where
  "get_or d m k = (case m k of Some v \<Rightarrow> v | None \<Rightarrow> d)"

definition loss_rate :: "u32 \<Rightarrow> u32 \<Rightarrow> rat" where
  "loss_rate naks sent = (if 0 < sent then f64_div (f64_of_u32 naks) (f64_of_u32 sent) else 0)"

definition decrease_delay :: "u64 \<Rightarrow> u64" where
  "decrease_delay d = (if RC_DELAY_DECREASE < d then d - RC_DELAY_DECREASE else 0)"

definition increase_delay :: "inputs \<Rightarrow> u64 \<Rightarrow> u64" where
  "increase_delay I d =
     u64_of_f64 (f64_mul (f64_of_u64 d) (gen_range_f64 I (fst RC_DELAY_INCREASE) (snd RC_DELAY_INCREASE)))"

text \<open>\<open>entry(k).and_modify(f).or_insert(d)\<close>.\<close>

definition modify_or_insert :: "'k \<Rightarrow> ('v \<Rightarrow> 'v) \<Rightarrow> 'v \<Rightarrow> ('k \<rightharpoonup> 'v) \<Rightarrow> ('k \<rightharpoonup> 'v)" where
  "modify_or_insert k f d m = m(k \<mapsto> (case m k of Some v \<Rightarrow> f v | None \<Rightarrow> d))"

text \<open>What the iterator chain does for one address.\<close>

definition rate_control_step :: "externals \<Rightarrow> sockaddr \<times> seq32 \<Rightarrow> 'c packet_handler operation" where
  "rate_control_step E = (\<lambda>(sock, q). with_state (\<lambda>s.
     with_result (u32_sub (overflow_checks E) (seq_deref q) (seq_deref (get_or seq_new (rc_sequences s) sock)))
       (\<lambda>cnt.
          if loss_rate (get_or 0 (nak_count s) sock) cnt < RC_LOSS_RATE_THRESHOLD
          then modify (\<lambda>s. s\<lparr>tx_delay :=
                 modify_or_insert sock decrease_delay RC_DEFAULT_PACKET_INTERVAL_NANOS (tx_delay s)\<rparr>)
          else skip)))"

definition update_rate_control :: "externals \<Rightarrow> inputs \<Rightarrow> 'c packet_handler operation" where
  "update_rate_control E I = with_state (\<lambda>s.
     foreach (List.map_filter (\<lambda>sock. map_option (Pair sock) (tx_sequences s sock))
                (sock_order I (dom (tx_sequences s))))
       (rate_control_step E))"

subsection \<open>Sending\<close>

definition next_seq :: "(sockaddr \<rightharpoonup> seq32) \<Rightarrow> sockaddr \<Rightarrow> seq32" where
  "next_seq txs addr = seq_inc (get_or seq_new txs addr)"

definition send :: "nodeinfo \<Rightarrow> inputs \<Rightarrow> payload \<Rightarrow> sockaddr \<Rightarrow> 'c packet_handler operation" where
  "send N I p addr = with_state (\<lambda>s.
     case ph_socket s of
       Some socket \<Rightarrow>
         (let q = next_seq (tx_sequences s) addr;
              delay = get_or RC_DEFAULT_PACKET_INTERVAL_NANOS (tx_delay s) addr;
              next_window = map_option (\<lambda>prev. prev + unat delay) (last_tx s addr)
          in do_all [
            modify (\<lambda>s. s\<lparr>tx_sequences := (tx_sequences s)(addr \<mapsto> q)\<rparr>),
            modify (\<lambda>s. s\<lparr>last_tx := (last_tx s)(addr \<mapsto> instant_now I)\<rparr>),
            emit (Spawn_send_to next_window socket \<lparr>pkt_s = q, pkt_id = node_id N, pkt_p = p\<rparr> addr)])
     | None \<Rightarrow> skip)"

text \<open>
  \<open>join_all\<close> numbers and encodes every packet before it polls the first send, so a packet that cannot be encoded stops
  the actor before anything is sent.
\<close>

fun prepare_packets ::
    "externals \<Rightarrow> nodeinfo \<Rightarrow> (payload \<times> sockaddr) list \<Rightarrow> (sockaddr \<rightharpoonup> seq32)
     \<Rightarrow> ((sockaddr \<rightharpoonup> seq32) \<times> (bytes \<times> sockaddr) list) result" where
  "prepare_packets E N [] txs = Inr (txs, [])"
| "prepare_packets E N ((p, addr) # ps) txs =
     (let q = next_seq txs addr in
      bind_result (unwrap (packet_to_vec E \<lparr>pkt_s = q, pkt_id = node_id N, pkt_p = p\<rparr>)) (\<lambda>v.
      bind_result (prepare_packets E N ps (txs(addr \<mapsto> q))) (\<lambda>(txs', vs).
        Inr (txs', (v, addr) # vs))))"

definition multisend :: "externals \<Rightarrow> nodeinfo \<Rightarrow> (payload \<times> sockaddr) list \<Rightarrow> 'c packet_handler operation" where
  "multisend E N payloads = with_state (\<lambda>s.
     case ph_socket s of
       Some socket \<Rightarrow>
         with_result (prepare_packets E N payloads (tx_sequences s)) (\<lambda>(txs, vs). do_all [
           modify (\<lambda>s. s\<lparr>tx_sequences := txs\<rparr>),
           foreach vs (\<lambda>(v, addr). emit (Send_to socket v addr))])
     | None \<Rightarrow> skip)"

text \<open>The result of \<open>encrypt\<close> is a panic, an error (\<open>None\<close>), or the box and its nonce.\<close>

definition encrypt :: "externals \<Rightarrow> bytes \<Rightarrow> message \<Rightarrow> keypair \<Rightarrow> bytes \<Rightarrow> (bytes \<times> bytes) option result" where
  "encrypt E nonce m kp pk =
     bind_result (unwrap (message_to_vec E m)) (\<lambda>serialized.
       Inr (map_option (\<lambda>enc. (enc, nonce)) (box_encrypt E serialized nonce pk (secret_key kp))))"

definition decrypt :: "externals \<Rightarrow> keys \<Rightarrow> uuid \<Rightarrow> bytes \<Rightarrow> bytes \<Rightarrow> message option" where
  "decrypt E ks i vecbox nonce =
     (case ks i of
        Some (addr, kp, pk) \<Rightarrow>
          (case box_decrypt E vecbox nonce pk (secret_key kp) of
             Some serialized \<Rightarrow> message_from_slice E serialized
           | None \<Rightarrow> None)
      | None \<Rightarrow> None)"

text \<open>Each encryption runs in a task of its own; one that fails or panics is left out.\<close>

definition encrypt_all ::
    "externals \<Rightarrow> inputs \<Rightarrow> nat \<Rightarrow> keys \<Rightarrow> uuid list \<Rightarrow> message \<Rightarrow> (payload \<times> sockaddr) list" where
  "encrypt_all E I base ks targets m =
     List.map_filter (\<lambda>(k, addr, kp, pk).
         case encrypt E (nonce_gen I (base + k)) m kp pk of
           Inr (Some (vecbox, nonce)) \<Rightarrow> Some (B vecbox nonce, addr)
         | _ \<Rightarrow> None)
       (enumerate 0 (List.map_filter ks targets))"

definition encrypt_and_send_messages ::
    "externals \<Rightarrow> 'c lru \<Rightarrow> nodeinfo \<Rightarrow> inputs \<Rightarrow> nat \<Rightarrow> uuid list \<Rightarrow> message \<Rightarrow> 'c packet_handler operation" where
  "encrypt_and_send_messages E L N I base targets m = do_all [
     put_seen L (msg_id m),
     with_state (\<lambda>s. multisend E N (encrypt_all E I base (ph_keys s) targets m))]"

definition encrypt_and_send_message ::
    "externals \<Rightarrow> 'c lru \<Rightarrow> nodeinfo \<Rightarrow> inputs \<Rightarrow> nat \<Rightarrow> uuid \<Rightarrow> message \<Rightarrow> 'c packet_handler operation" where
  "encrypt_and_send_message E L N I base target m = encrypt_and_send_messages E L N I base [target] m"

definition send_broadcast_to_subscribers ::
    "externals \<Rightarrow> 'c lru \<Rightarrow> nodeinfo \<Rightarrow> inputs \<Rightarrow> message \<Rightarrow> 'c packet_handler operation" where
  "send_broadcast_to_subscribers E L N I m = with_state (\<lambda>s.
     encrypt_and_send_messages E L N I 0 (ph_subscribers s) m)"

definition send_broadcast ::
    "externals \<Rightarrow> 'c lru \<Rightarrow> nodeinfo \<Rightarrow> inputs \<Rightarrow> bytes \<Rightarrow> 'c packet_handler operation" where
  "send_broadcast E L N I data =
     send_broadcast_to_subscribers E L N I \<lparr>msg_id = new_v4 I 0, msg_body = Broadcast data\<rparr>"

definition send_peer_status ::
    "externals \<Rightarrow> 'c lru \<Rightarrow> nodeinfo \<Rightarrow> inputs \<Rightarrow> peer_status \<Rightarrow> 'c packet_handler operation" where
  "send_peer_status E L N I st =
     send_broadcast_to_subscribers E L N I \<lparr>msg_id = new_v4 I 0, msg_body = PeerRequest (PeerStatus st)\<rparr>"

subsection \<open>Receiving\<close>

definition recv_broadcast ::
    "externals \<Rightarrow> 'c lru \<Rightarrow> nodeinfo \<Rightarrow> inputs \<Rightarrow> uuid \<Rightarrow> bytes \<Rightarrow> 'c packet_handler operation" where
  "recv_broadcast E L N I i data = do_all [
     with_state (\<lambda>s. case broadcast_handler_async s of
         Some handler \<Rightarrow> emit (Handle_broadcast handler data)
       | None \<Rightarrow> skip),
     send_broadcast_to_subscribers E L N I \<lparr>msg_id = i, msg_body = Broadcast data\<rparr>]"

definition recv_peer_request ::
    "externals \<Rightarrow> 'c lru \<Rightarrow> nodeinfo \<Rightarrow> inputs \<Rightarrow> uuid \<Rightarrow> uuid \<Rightarrow> peer_request \<Rightarrow> 'c packet_handler operation" where
  "recv_peer_request E L N I i from_id r = do_all [
     send_broadcast_to_subscribers E L N I \<lparr>msg_id = i, msg_body = PeerRequest r\<rparr>,
     emit (Cast_peer_manager (Request from_id r))]"

definition recv_nak :: "externals \<Rightarrow> inputs \<Rightarrow> sockaddr \<Rightarrow> u32 \<Rightarrow> u32 \<Rightarrow> 'c packet_handler operation" where
  "recv_nak E I from lo hi = with_state (\<lambda>s.
     with_result (u32_sub (overflow_checks E) hi lo) (\<lambda>lost.
     with_result (case nak_count s from of
         Some c \<Rightarrow> u32_add (overflow_checks E) c lost
       | None \<Rightarrow> Inr lost) (\<lambda>c. do_all [
       modify (\<lambda>s. s\<lparr>nak_count := (nak_count s)(from \<mapsto> c)\<rparr>),
       modify (\<lambda>s. s\<lparr>tx_delay :=
         modify_or_insert from (increase_delay I) RC_DEFAULT_PACKET_INTERVAL_NANOS (tx_delay s)\<rparr>)])))"

text \<open>The dispatch on the body of a message that has not been seen.\<close>

fun recv_body ::
    "externals \<Rightarrow> 'c lru \<Rightarrow> nodeinfo \<Rightarrow> inputs \<Rightarrow> sockaddr \<Rightarrow> uuid \<Rightarrow> uuid \<Rightarrow> body \<Rightarrow> 'c packet_handler operation" where
  "recv_body E L N I from from_id i (Broadcast data) = do_all [recv_broadcast E L N I i data, put_seen L i]"
| "recv_body E L N I from from_id i (PeerRequest r) = do_all [recv_peer_request E L N I i from_id r, put_seen L i]"
| "recv_body E L N I from from_id i (Frame f) = skip"
| "recv_body E L N I from from_id i (Nak lo hi) = recv_nak E I from lo hi"

definition send_nak ::
    "externals \<Rightarrow> 'c lru \<Rightarrow> nodeinfo \<Rightarrow> inputs \<Rightarrow> uuid \<Rightarrow> seq32 \<Rightarrow> seq32 \<Rightarrow> 'c packet_handler operation" where
  "send_nak E L N I target prev q =
     with_result (u32_add (overflow_checks E) (seq_deref prev) 1) (\<lambda>lo. with_state (\<lambda>s.
       encrypt_and_send_message E L N I (length (ph_subscribers s)) target
         \<lparr>msg_id = new_v4 I 0, msg_body = Nak lo (seq_deref q)\<rparr>))"

definition recv ::
    "externals \<Rightarrow> 'c lru \<Rightarrow> nodeinfo \<Rightarrow> inputs \<Rightarrow> packet \<Rightarrow> sockaddr \<Rightarrow> 'c packet_handler operation" where
  "recv E L N I pkt from = with_state (\<lambda>s0. do_all [
     modify (\<lambda>s. s\<lparr>rx_sequences := (rx_sequences s)(from \<mapsto> pkt_s pkt)\<rparr>),
     case pkt_p pkt of
       H h \<Rightarrow> emit (Cast_handshaker (Packet from h (pkt_id pkt)))
     | B vecbox nonce \<Rightarrow>
         (case decrypt E (ph_keys s0) (pkt_id pkt) vecbox nonce of
            Some m \<Rightarrow> do_all [
              if lru_contains L (seen s0) (msg_id m) then skip
              else recv_body E L N I from (pkt_id pkt) (msg_id m) (msg_body m),
              case rx_sequences s0 from of
                Some prev \<Rightarrow> send_nak E L N I (pkt_id pkt) prev (pkt_s pkt)
              | None \<Rightarrow> skip]
          | None \<Rightarrow> skip)])"

definition start_recv_loop :: "nat \<Rightarrow> 'c packet_handler operation" where
  "start_recv_loop socket = do_all [
     modify (\<lambda>s. s\<lparr>ph_socket := Some socket\<rparr>),
     emit (Spawn_recv_loop socket)]"

text \<open>
  The receive loop: a datagram overwrites the front of the buffer, which keeps what earlier ones left behind it, and the
  whole buffer is decoded. An error of the socket is \<open>None\<close>.
\<close>

definition receive_into :: "bytes \<Rightarrow> bytes \<Rightarrow> bytes" where
  "receive_into buf datagram =
     take (length buf) datagram @ drop (length datagram) buf"

fun recv_loop :: "externals \<Rightarrow> bytes \<Rightarrow> (bytes \<times> sockaddr) option list \<Rightarrow> effect list" where
  "recv_loop E buf [] = []"
| "recv_loop E buf (None # ds) = recv_loop E buf ds"
| "recv_loop E buf (Some (datagram, addr) # ds) =
     (let buf' = receive_into buf datagram in
      (case packet_from_slice E buf' of
         Some packet \<Rightarrow> [Cast_packet_handler (Recv addr packet)]
       | None \<Rightarrow> []) @ recv_loop E buf' ds)"

subsection \<open>The message handler\<close>

fun ph_handle_message ::
    "externals \<Rightarrow> 'c lru \<Rightarrow> nodeinfo \<Rightarrow> inputs \<Rightarrow> packet_handler_message \<Rightarrow> 'c packet_handler operation" where
  "ph_handle_message E L N I (SetBroadcastHandler async_handler handler) =
     modify (\<lambda>s. s\<lparr>broadcast_handler_async := async_handler, broadcast_handler := handler\<rparr>)"
| "ph_handle_message E L N I (Start socket) = start_recv_loop socket"
| "ph_handle_message E L N I (Send addr p) = send N I p addr"
| "ph_handle_message E L N I (Recv addr pkt) = recv E L N I pkt addr"
| "ph_handle_message E L N I (SendMessage target m) = encrypt_and_send_message E L N I 0 target m"
| "ph_handle_message E L N I (SendBroadcast data) = send_broadcast E L N I data"
| "ph_handle_message E L N I (BroadcastPeerStatus st) = send_peer_status E L N I st"
| "ph_handle_message E L N I (KeysUpdated ks) = modify (\<lambda>s. s\<lparr>ph_keys := ks\<rparr>)"
| "ph_handle_message E L N I (SubscribersUpdated subs) = modify (\<lambda>s. s\<lparr>ph_subscribers := subs\<rparr>)"
| "ph_handle_message E L N I RateControl = update_rate_control E I"

subsection \<open>What sending computes\<close>

text \<open>The packets \<open>multisend\<close> makes of its payloads, and the counters after them.\<close>

fun number_packets ::
    "nodeinfo \<Rightarrow> (payload \<times> sockaddr) list \<Rightarrow> (sockaddr \<rightharpoonup> seq32) \<Rightarrow> (sockaddr \<rightharpoonup> seq32) \<times> (packet \<times> sockaddr) list" where
  "number_packets N [] txs = (txs, [])"
| "number_packets N ((p, a) # ps) txs =
     (let q = next_seq txs a; r = number_packets N ps (txs(a \<mapsto> q)) in
      (fst r, (\<lparr>pkt_s = q, pkt_id = node_id N, pkt_p = p\<rparr>, a) # snd r))"

lemma number_packets_map:
  "map (\<lambda>(q, a). (pkt_p q, a)) (snd (number_packets N ps txs)) = ps"
  "map snd (snd (number_packets N ps txs)) = map snd ps"
  by (induction ps arbitrary: txs) (auto simp: Let_def)

definition packet_bytes :: "externals \<Rightarrow> packet \<Rightarrow> bytes" where
  "packet_bytes E p = the (packet_to_vec E p)"

definition send_effects :: "externals \<Rightarrow> nat \<Rightarrow> (packet \<times> sockaddr) list \<Rightarrow> effect list" where
  "send_effects E sock ps = map (\<lambda>(p, a). Send_to sock (packet_bytes E p) a) ps"

lemma codec_lawD:
  assumes "codec_law E"
  shows "\<exists>v. message_to_vec E m = Some v \<and> message_from_slice E v = Some (wire_message m)"
    and "packet_to_vec E p = Some (packet_bytes E p)"
    and "packet_from_slice E (packet_bytes E p) = Some p"
  using assms unfolding codec_law_def packet_bytes_def by (auto, metis option.sel, metis option.sel)

lemma prepare_packets_eq:
  assumes "codec_law E"
  shows "prepare_packets E N ps txs =
    Inr (fst (number_packets N ps txs), map (\<lambda>(p, a). (packet_bytes E p, a)) (snd (number_packets N ps txs)))"
  by (induction ps arbitrary: txs) (auto simp: Let_def codec_lawD [OF assms])

lemma multisend_eq:
  assumes "codec_law E"
  shows "multisend E N ps s =
    (case ph_socket s of
       Some sock \<Rightarrow> (send_effects E sock (snd (number_packets N ps (tx_sequences s))),
                     Inr (s\<lparr>tx_sequences := fst (number_packets N ps (tx_sequences s))\<rparr>))
     | None \<Rightarrow> ([], Inr s))"
proof -
  have "foreach (map (\<lambda>(p, a). (packet_bytes E p, a)) qs) (\<lambda>(v, a). emit (Send_to sock v a)) t =
      (send_effects E sock qs, Inr t)" for sock qs and t :: "'a packet_handler"
    unfolding case_prod_beta foreach_emit by (simp add: send_effects_def case_prod_beta)
  then show ?thesis
    by (simp add: multisend_def prepare_packets_eq [OF assms] act_simps then_do_def split: option.splits)
qed

text \<open>The effects of sending and the state after it, with or without a socket.\<close>

definition sent_of :: "externals \<Rightarrow> nodeinfo \<Rightarrow> (payload \<times> sockaddr) list \<Rightarrow> 'c packet_handler \<Rightarrow> effect list" where
  "sent_of E N ps s =
     (case ph_socket s of
        Some sock \<Rightarrow> send_effects E sock (snd (number_packets N ps (tx_sequences s)))
      | None \<Rightarrow> [])"

definition counted :: "nodeinfo \<Rightarrow> (payload \<times> sockaddr) list \<Rightarrow> 'c packet_handler \<Rightarrow> 'c packet_handler" where
  "counted N ps s =
     (case ph_socket s of
        Some sock \<Rightarrow> s\<lparr>tx_sequences := fst (number_packets N ps (tx_sequences s))\<rparr>
      | None \<Rightarrow> s)"

lemma counted_frame [simp]:
  "ph_socket (counted N ps s) = ph_socket s" "rx_sequences (counted N ps s) = rx_sequences s"
  "ph_keys (counted N ps s) = ph_keys s" "ph_subscribers (counted N ps s) = ph_subscribers s"
  "seen (counted N ps s) = seen s" "nak_count (counted N ps s) = nak_count s"
  "tx_delay (counted N ps s) = tx_delay s" "last_tx (counted N ps s) = last_tx s"
  "rc_sequences (counted N ps s) = rc_sequences s"
  "broadcast_handler_async (counted N ps s) = broadcast_handler_async s"
  by (simp_all add: counted_def split: option.splits)

lemma encrypt_and_send_messages_eq:
  assumes "codec_law E"
  shows "encrypt_and_send_messages E L N I base ts m s =
    (sent_of E N (encrypt_all E I base (ph_keys s) ts m) s,
     Inr ((counted N (encrypt_all E I base (ph_keys s) ts m) s)\<lparr>seen := lru_put L (msg_id m) (seen s)\<rparr>))"
  by (simp add: encrypt_and_send_messages_def put_seen_def act_simps then_do_def multisend_eq [OF assms]
      sent_of_def counted_def split: option.splits)

lemma encrypt_all_target:
  assumes "(p, b) \<in> set (encrypt_all E I base ks ts m)"
  shows "\<exists>i \<in> set ts. \<exists>kp pk. ks i = Some (b, kp, pk)"
proof -
  from assms obtain k kp pk where "(k, b, kp, pk) \<in> set (enumerate 0 (List.map_filter ks ts))"
    by (auto simp: encrypt_all_def in_set_map_filter split: sum.splits option.splits)
  then have "(b, kp, pk) \<in> set (List.map_filter ks ts)" by (metis enumerate_mem)
  then show ?thesis by (auto simp: in_set_map_filter)
qed

lemma sent_of_target:
  assumes "e \<in> set (sent_of E N ps s)"
  obtains sock bs b p where "e = Send_to sock bs b" "(p, b) \<in> set ps"
proof -
  from assms obtain sock q b where e: "e = Send_to sock (packet_bytes E q) b"
    and "(q, b) \<in> set (snd (number_packets N ps (tx_sequences s)))"
    by (auto simp: sent_of_def send_effects_def split: option.splits)
  then have "(pkt_p q, b) \<in> set (map (\<lambda>(q, a). (pkt_p q, a)) (snd (number_packets N ps (tx_sequences s))))"
    by force
  then show ?thesis unfolding number_packets_map by (rule that [OF e])
qed

end
