(* ===== verification/Samples.thy ===== *)
theory Samples
  imports Gen_Server
begin

text \<open>
  Concrete inputs and choosers, with proofs that they satisfy the laws. The witnesses of the properties use
  them to show that the hypotheses can hold.
\<close>

definition sample_keypair :: keypair where
  "sample_keypair = \<lparr>public_key = replicate 32 7, secret_key = replicate 32 7\<rparr>"

definition sample_inputs :: inputs where
  "sample_inputs =
     \<lparr>now = 1700000000000000000, instant_now = 1000, id_order = sorted_list_of_set,
      sock_order = sorted_list_of_set, new_v4 = (\<lambda>k. 1000 + of_nat k), keypair_gen = sample_keypair,
      nonce_gen = (\<lambda>k. replicate 24 (of_nat k)), randombytes_buf = (\<lambda>k n. replicate n (of_nat k)),
      gen_range = (\<lambda>k lo hi. lo),
      gen_range_f64 = (\<lambda>lo hi. lo)\<rparr>"

definition sample_chooser :: "unit chooser" where
  "sample_chooser =
     \<lparr>as_u64_pair = (\<lambda>u. (ucast (drop_bit 64 u), ucast u)), seed_from_u64 = (\<lambda>_. ()),
      choose_multiple = (\<lambda>r xs n. (take n xs, r)),
      choose_multiple_weighted = (\<lambda>r ps n w. Some (take n ps))\<rparr>"

definition sample_node :: "distribution_strategy \<Rightarrow> nodeinfo" where
  "sample_node st =
     \<lparr>bind_addr = ''127.0.0.1:6969'', node_keys = [''insecure''], node_peers = [], node_id = 1,
      peer_subscriptions = 2, node_zone = None, strategy = st\<rparr>"

definition sample_addr :: sockaddr where
  "sample_addr = V4 2130706433 6969"

definition sample_peer :: "uuid \<Rightarrow> peer" where
  "sample_peer i = peer_new sample_keypair (Some (replicate 32 9)) sample_addr i (Some 5) None"

lemma sample_order_law [simp]: "order_law sample_inputs"
  by (simp add: order_law_def sample_inputs_def)

lemma sample_draw_law [simp]: "draw_law sample_inputs"
  by (simp add: draw_law_def sample_inputs_def)

lemma sample_of_take: "sample_of xs n (take n xs)"
  unfolding sample_of_def
  by (metis append_take_drop_id length_take min.commute mset_append mset_subset_eq_add_left)

lemma sample_chooser_law [simp]: "chooser_law sample_chooser"
  by (simp add: chooser_law_def sample_chooser_def sample_of_take)

lemma sample_id_order [simp]: "id_order sample_inputs S = sorted_list_of_set S"
  by (simp add: sample_inputs_def)

lemma sample_peer_simps [simp]:
  "peer_id (sample_peer i) = i" "is_handshaken (sample_peer i)" "peer_sockaddr (sample_peer i) = sample_addr"
  "handshake_timestamp (sample_peer i) = Some 5" "peer_zone (sample_peer i) = None"
  by (simp_all add: sample_peer_def peer_new_def is_handshaken_def)

end
