(* ===== verification/Peer_Manager.thy ===== *)
theory Peer_Manager
  imports Samples
begin

text \<open>
  \<^verbatim>\<open>peer_manager.rs\<close>: the actor that knows the peers of the cluster, keeps the subscriptions in both directions,
  reassigns them and watches heartbeats. \<open>N\<close> is the node's configuration, reached through the registry, and \<open>I\<close>
  the inputs of the activation.
\<close>

subsection \<open>Constants and state\<close>

definition REASSIGN_DELAY_HIGH_MILLIS :: nat where
  "REASSIGN_DELAY_HIGH_MILLIS = 5000"

definition REASSIGN_DELAY_LOW_MILLIS :: nat where
  "REASSIGN_DELAY_LOW_MILLIS = 25"

definition HEARTBEAT_INTERVAL_MILLIS :: nat where
  "HEARTBEAT_INTERVAL_MILLIS = 5000"

definition HEARTBEAT_MISSED_INTERVAL_MILLIS :: nat where
  "HEARTBEAT_MISSED_INTERVAL_MILLIS = 3 * HEARTBEAT_INTERVAL_MILLIS"

record peer_manager =
  known :: "uuid \<rightharpoonup> peer"
  subscribers :: "uuid set"
  subscribed_to :: "uuid set"
  reassign_timer :: "delayed option"
  notify_ready :: "nat option"
  heartbeat :: "interval option"
  heartbeat_watchdogs :: "uuid \<rightharpoonup> delayed"

definition peer_manager_new :: peer_manager where
  "peer_manager_new =
     \<lparr>known = Map.empty, subscribers = {}, subscribed_to = {}, reassign_timer = None,
      notify_ready = None, heartbeat = None, heartbeat_watchdogs = Map.empty\<rparr>"

text \<open>\<open>HashMap::values\<close> of the known peers, in the iteration order of the map.\<close>

definition known_values :: "inputs \<Rightarrow> peer_manager \<Rightarrow> peer list" where
  "known_values I s = List.map_filter (known s) (id_order I (dom (known s)))"

definition peer_message :: "uuid \<Rightarrow> peer_request \<Rightarrow> message" where
  "peer_message u r = \<lparr>msg_id = u, msg_body = PeerRequest r\<rparr>"

subsection \<open>Timers\<close>

definition start_reassign_timer :: "nodeinfo \<Rightarrow> inputs \<Rightarrow> peer_manager operation" where
  "start_reassign_timer N I = with_state (\<lambda>s.
     if card (subscribed_to s) < peer_subscriptions N
     then modify (\<lambda>s. s\<lparr>reassign_timer := Some (delayed_new (instant_now I)
            (gen_range I 0 REASSIGN_DELAY_LOW_MILLIS REASSIGN_DELAY_HIGH_MILLIS)
            (Future_cast_peer_manager Reassign))\<rparr>)
     else skip)"

definition stop_heartbeat_watchdog :: "uuid \<Rightarrow> peer_manager operation" where
  "stop_heartbeat_watchdog i =
     modify (\<lambda>s. s\<lparr>heartbeat_watchdogs := (heartbeat_watchdogs s)(i := None)\<rparr>)"

definition watchdog_for :: "nodeinfo \<Rightarrow> nat \<Rightarrow> peer \<Rightarrow> delayed" where
  "watchdog_for N t p = delayed_new t HEARTBEAT_MISSED_INTERVAL_MILLIS
     (Future_cast_peer_manager
        (Request (node_id N) (PeerStatus \<lparr>status_peer = p, status_state = Down\<rparr>)))"

definition reset_heartbeat_watchdog :: "nodeinfo \<Rightarrow> inputs \<Rightarrow> uuid \<Rightarrow> peer_manager operation" where
  "reset_heartbeat_watchdog N I i = with_state (\<lambda>s.
     if i \<in> subscribed_to s then
       (case known s i of
          Some p \<Rightarrow> modify (\<lambda>s. s\<lparr>heartbeat_watchdogs :=
                       (heartbeat_watchdogs s)(i \<mapsto> watchdog_for N (instant_now I) p)\<rparr>)
        | None \<Rightarrow> stop_heartbeat_watchdog i)
     else stop_heartbeat_watchdog i)"

definition start_heartbeats :: "peer_manager operation" where
  "start_heartbeats = with_state (\<lambda>s.
     if heartbeat s = None
     then modify (\<lambda>s. s\<lparr>heartbeat := Some (interval_new HEARTBEAT_INTERVAL_MILLIS
            (Future_cast_peer_manager SendHeartbeat))\<rparr>)
     else skip)"

definition send_heartbeat :: "inputs \<Rightarrow> peer_manager operation" where
  "send_heartbeat I = with_state (\<lambda>s. do_all [
     if subscribed_to s = {} then emit (Cast_handshaker Bootstrap) else skip,
     foreach (enumerate 0 (id_order I (subscribers s))) (\<lambda>(k, i).
       emit (Cast_packet_handler (SendMessage i (peer_message (new_v4 I k) Heartbeat))))])"

subsection \<open>What the packet handler is told\<close>

definition handshaken_keys :: "peer list \<Rightarrow> keys result" where
  "handshaken_keys ps = bind_result
     (map_result (\<lambda>p.
        bind_result (unwrap (our_keypair p)) (\<lambda>kp.
        bind_result (unwrap (their_public_key p)) (\<lambda>pk.
          Inr (peer_id p, (peer_sockaddr p, kp, pk)))))
       (filter is_handshaken ps))
     (\<lambda>kvs. Inr (from_iter kvs))"

definition update_keys :: "inputs \<Rightarrow> peer_manager operation" where
  "update_keys I = with_state (\<lambda>s.
     with_result (handshaken_keys (known_values I s)) (\<lambda>ks.
       emit (Call_packet_handler (KeysUpdated ks))))"

definition update_subscribers :: "inputs \<Rightarrow> peer_manager operation" where
  "update_subscribers I = with_state (\<lambda>s.
     emit (Cast_packet_handler (SubscribersUpdated (id_order I (subscribers s)))))"

definition send_peerlist :: "inputs \<Rightarrow> uuid \<Rightarrow> peer_manager operation" where
  "send_peerlist I target = with_state (\<lambda>s.
     emit (Cast_packet_handler
       (SendMessage target (peer_message (new_v4 I 0) (Peers (known_values I s))))))"

subsection \<open>Known peers\<close>

fun try_insert_peers :: "peer list \<Rightarrow> (uuid \<rightharpoonup> peer) \<Rightarrow> (uuid \<rightharpoonup> peer) \<times> nat" where
  "try_insert_peers [] m = (m, 0)"
| "try_insert_peers (p # ps) m =
     (let (m', ok) = try_insert (peer_id p) p m; (m'', n) = try_insert_peers ps m'
      in (m'', of_bool ok + n))"

definition update_peers :: "nodeinfo \<Rightarrow> inputs \<Rightarrow> peer list \<Rightarrow> peer_manager operation" where
  "update_peers N I ps = with_state (\<lambda>s.
     let (m, added) = try_insert_peers ps (known s)
     in do_all [
       modify (\<lambda>s. s\<lparr>known := m\<rparr>),
       if 0 < added then start_reassign_timer N I else skip])"

definition insert_known :: "peer \<Rightarrow> peer_manager operation" where
  "insert_known p = modify (\<lambda>s. s\<lparr>known := (known s)(peer_id p \<mapsto> p)\<rparr>)"

definition store_peer :: "peer \<Rightarrow> peer_manager operation" where
  "store_peer p = with_state (\<lambda>s.
     case known s (peer_id p) of
       Some existing \<Rightarrow>
         (case (handshake_timestamp existing, handshake_timestamp p) of
            (Some existing_ts, Some new_ts) \<Rightarrow>
              if new_ts > existing_ts then insert_known p else skip
          | _ \<Rightarrow> if is_handshaken p then insert_known p else skip)
     | None \<Rightarrow> insert_known p)"

definition add_peer :: "nodeinfo \<Rightarrow> inputs \<Rightarrow> peer \<Rightarrow> peer_manager operation" where
  "add_peer N I p = do_all [
     store_peer p,
     update_keys I,
     start_reassign_timer N I]"

definition remove_peer :: "nodeinfo \<Rightarrow> inputs \<Rightarrow> peer \<Rightarrow> peer_manager operation" where
  "remove_peer N I p = do_all [
     update_subscribers I,
     stop_heartbeat_watchdog (peer_id p),
     modify (\<lambda>s. s\<lparr>subscribed_to := subscribed_to s - {peer_id p}\<rparr>),
     modify (\<lambda>s. s\<lparr>subscribers := subscribers s - {peer_id p}\<rparr>),
     modify (\<lambda>s. s\<lparr>known := (known s)(peer_id p := None)\<rparr>),
     update_keys I,
     start_reassign_timer N I]"

subsection \<open>Choosing peers\<close>

text \<open>
  One peer from each run of remote peers that share a zone, as \<open>chunk_by\<close> delivers them, drawing from the
  same generator.
\<close>

fun choose_from_zones :: "'r chooser \<Rightarrow> 'r \<Rightarrow> peer list list \<Rightarrow> uuid list \<times> 'r" where
  "choose_from_zones C r [] = ([], r)"
| "choose_from_zones C r (zone # zones) =
     (let (ids, r') = choose_multiple C r (map peer_id zone) 1;
          (rest, r'') = choose_from_zones C r' zones
      in (ids @ rest, r''))"

definition choose_peers :: "'r chooser \<Rightarrow> nodeinfo \<Rightarrow> inputs \<Rightarrow> peer_manager \<Rightarrow> uuid set result" where
  "choose_peers C N I s =
     (let rng = seed_from_u64 C (snd (as_u64_pair C (node_id N)));
          peers = filter (\<lambda>p. peer_id p \<noteq> node_id N) (known_values I s)
      in case strategy N of
           Uniform \<Rightarrow>
             Inr (set (fst (choose_multiple C rng (map peer_id peers) (peer_subscriptions N))))
         | HubAndSpoke \<Rightarrow>
             (let (local_peers, remote_peers) = partition (\<lambda>p. peer_zone p = node_zone N) peers;
                  (remote_ids, rng') =
                    choose_from_zones C rng (chunk_by (\<lambda>a b. peer_zone a = peer_zone b) remote_peers);
                  remaining = peer_subscriptions N - length remote_ids;
                  local_ids = fst (choose_multiple C rng' (map peer_id local_peers) remaining)
              in Inr (set (local_ids @ remote_ids)))
         | PreferLocal \<Rightarrow>
             bind_result (expect (choose_multiple_weighted C rng peers (peer_subscriptions N)
                 (\<lambda>p. if peer_zone p = node_zone N then 2 else 1)))
               (\<lambda>ps. Inr (set (map peer_id ps)))
         | PreferRemote \<Rightarrow>
             bind_result (expect (choose_multiple_weighted C rng peers (peer_subscriptions N)
                 (\<lambda>p. if peer_zone p = node_zone N then 1 else 2)))
               (\<lambda>ps. Inr (set (map peer_id ps))))"

subsection \<open>Reassignment\<close>

definition send_start_subscription :: "uuid \<Rightarrow> uuid \<Rightarrow> 's operation" where
  "send_start_subscription u i =
     emit (Cast_packet_handler (SendMessage i (peer_message u StartSubscription)))"

text \<open>The bodies of the two loops of \<open>trigger_reassignment\<close>.\<close>

definition subscribe_to :: "inputs \<Rightarrow> nat \<Rightarrow> uuid \<Rightarrow> peer_manager operation" where
  "subscribe_to I k i = with_state (\<lambda>s.
     case known s i of
       Some p \<Rightarrow>
         if is_handshaken p then send_start_subscription (new_v4 I k) i
         else emit (Cast_handshaker
                (SendHello (peer_sockaddr p) (Some (AndThen_start_subscription i))))
     | None \<Rightarrow> skip)"

definition unsubscribe_from :: "inputs \<Rightarrow> nat \<Rightarrow> uuid \<Rightarrow> peer_manager operation" where
  "unsubscribe_from I k i = do_all [
     emit (Cast_packet_handler (SendMessage i (peer_message (new_v4 I k) EndSubscription))),
     stop_heartbeat_watchdog i,
     modify (\<lambda>s. s\<lparr>subscribed_to := subscribed_to s - {i}\<rparr>)]"

definition trigger_reassignment :: "inputs \<Rightarrow> uuid set \<Rightarrow> uuid set \<Rightarrow> peer_manager operation" where
  "trigger_reassignment I added_peers removed_peers = do_all [
     foreach (enumerate 0 (id_order I added_peers)) (\<lambda>(k, i). subscribe_to I k i),
     foreach (enumerate (card added_peers) (id_order I removed_peers))
       (\<lambda>(k, i). unsubscribe_from I k i)]"

definition reassign :: "'r chooser \<Rightarrow> nodeinfo \<Rightarrow> inputs \<Rightarrow> peer_manager operation" where
  "reassign C N I = with_state (\<lambda>s.
     with_result (choose_peers C N I s) (\<lambda>new_assignments.
       trigger_reassignment I (new_assignments - subscribed_to s)
         (subscribed_to s - new_assignments)))"

subsection \<open>Subscriptions\<close>

definition start_subscription :: "inputs \<Rightarrow> uuid \<Rightarrow> peer_manager operation" where
  "start_subscription I i = do_all [
     with_state (\<lambda>s.
       if known s i \<noteq> None then modify (\<lambda>s. s\<lparr>subscribers := insert i (subscribers s)\<rparr>)
       else modify (\<lambda>s. s\<lparr>subscribers := subscribers s - {i}\<rparr>)),
     update_subscribers I,
     with_state (\<lambda>s. if heartbeat s = None then start_heartbeats else skip),
     emit (Cast_packet_handler
       (SendMessage i (peer_message (new_v4 I 0) SubscriptionStarted)))]"

definition end_subscription :: "inputs \<Rightarrow> uuid \<Rightarrow> peer_manager operation" where
  "end_subscription I i = do_all [
     modify (\<lambda>s. s\<lparr>subscribers := subscribers s - {i}\<rparr>),
     update_subscribers I]"

definition subscription_started :: "nodeinfo \<Rightarrow> inputs \<Rightarrow> uuid \<Rightarrow> peer_manager operation" where
  "subscription_started N I i = do_all [
     modify (\<lambda>s. s\<lparr>subscribed_to := insert i (subscribed_to s)\<rparr>),
     reset_heartbeat_watchdog N I i]"

definition shutdown :: "inputs \<Rightarrow> peer_manager operation" where
  "shutdown I = do_all [
     with_state (\<lambda>s.
       foreach (enumerate 0 (id_order I (subscribed_to s))) (\<lambda>(k, i).
         emit (Call_packet_handler
           (SendMessage i (peer_message (new_v4 I k) EndSubscription))))),
     modify (\<lambda>s. s\<lparr>subscribed_to := {}\<rparr>)]"

subsection \<open>The message handler\<close>

fun handle_request :: "nodeinfo \<Rightarrow> inputs \<Rightarrow> uuid \<Rightarrow> peer_request \<Rightarrow> peer_manager operation" where
  "handle_request N I from_id (PeerStatus st) = do_all [
     (case status_state st of
        Up \<Rightarrow> add_peer N I (status_peer st)
      | Down \<Rightarrow> remove_peer N I (status_peer st)),
     if from_id = node_id N then emit (Cast_packet_handler (BroadcastPeerStatus st)) else skip]"
| "handle_request N I from_id StartSubscription = start_subscription I from_id"
| "handle_request N I from_id SubscriptionStarted = do_all [
     subscription_started N I from_id,
     with_state (\<lambda>s.
       case notify_ready s of
         Some n \<Rightarrow> do_all [modify (\<lambda>s. s\<lparr>notify_ready := None\<rparr>), emit (Notify_one n)]
       | None \<Rightarrow> skip)]"
| "handle_request N I from_id EndSubscription = end_subscription I from_id"
| "handle_request N I from_id Heartbeat = reset_heartbeat_watchdog N I from_id"
| "handle_request N I from_id (Peers ps) = update_peers N I ps"
| "handle_request N I from_id PeerList = send_peerlist I from_id"

fun pm_handle_message ::
    "'r chooser \<Rightarrow> nodeinfo \<Rightarrow> inputs \<Rightarrow> peer_manager_request \<Rightarrow> peer_manager operation" where
  "pm_handle_message C N I GetSubscriberCount = skip"
| "pm_handle_message C N I Reassign = reassign C N I"
| "pm_handle_message C N I (SetNotify n) = modify (\<lambda>s. s\<lparr>notify_ready := Some n\<rparr>)"
| "pm_handle_message C N I (Request from_id request) = handle_request N I from_id request"
| "pm_handle_message C N I StartHeartbeats = start_heartbeats"
| "pm_handle_message C N I SendHeartbeat = send_heartbeat I"
| "pm_handle_message C N I Shutdown = shutdown I"

fun pm_response :: "peer_manager_request \<Rightarrow> peer_manager \<Rightarrow> peer_manager_response" where
  "pm_response GetSubscriberCount s = SubscriberCount (card (subscribers s))"
| "pm_response r s = Ok"


subsection \<open>Invariant\<close>

definition known_ok :: "(uuid \<rightharpoonup> peer) \<Rightarrow> bool" where
  "known_ok m \<longleftrightarrow> (\<forall>i p. m i = Some p \<longrightarrow> peer_id p = i)"

definition pm_inv :: "nodeinfo \<Rightarrow> peer_manager \<Rightarrow> bool" where
  "pm_inv N s \<longleftrightarrow>
     known_ok (known s) \<and>
     subscribers s \<subseteq> dom (known s) \<and>
     (\<forall>i d. heartbeat_watchdogs s i = Some d \<longrightarrow> (\<exists>t p. peer_id p = i \<and> d = watchdog_for N t p)) \<and>
     (\<forall>d. reassign_timer s = Some d \<longrightarrow>
        delayed_future d = Future_cast_peer_manager Reassign \<and>
        REASSIGN_DELAY_LOW_MILLIS \<le> delayed_millis d \<and>
        delayed_millis d < REASSIGN_DELAY_HIGH_MILLIS) \<and>
     (\<forall>h. heartbeat s = Some h \<longrightarrow>
        h = interval_new HEARTBEAT_INTERVAL_MILLIS (Future_cast_peer_manager SendHeartbeat))"

text \<open>The keys that the packet handler should have for a given set of known peers.\<close>

definition keys_of :: "(uuid \<rightharpoonup> peer) \<Rightarrow> keys" where
  "keys_of m i =
     (case m i of
        Some p \<Rightarrow>
          (case (our_keypair p, their_public_key p) of
             (Some kp, Some pk) \<Rightarrow> Some (peer_sockaddr p, kp, pk)
           | _ \<Rightarrow> None)
      | None \<Rightarrow> None)"

fun pm_allowed :: "effect \<Rightarrow> bool" where
  "pm_allowed (Cast_packet_handler (SendMessage i m)) = True"
| "pm_allowed (Cast_packet_handler (SubscribersUpdated ids)) = True"
| "pm_allowed (Cast_packet_handler (BroadcastPeerStatus st)) = True"
| "pm_allowed (Call_packet_handler (KeysUpdated ks)) = True"
| "pm_allowed (Call_packet_handler (SendMessage i m)) = True"
| "pm_allowed (Cast_handshaker Bootstrap) = True"
| "pm_allowed (Cast_handshaker (SendHello a t)) = True"
| "pm_allowed (Notify_one n) = True"
| "pm_allowed e = False"

definition pm_legal :: "'r chooser \<times> inputs \<Rightarrow> peer_manager_request \<Rightarrow> bool" where
  "pm_legal x m \<longleftrightarrow> chooser_law (fst x) \<and> order_law (snd x) \<and> draw_law (snd x)"

subsection \<open>Known peers and keys\<close>

lemma set_known_values:
  "order_law I \<Longrightarrow> set (known_values I s) = ran (known s)"
  by (force simp: known_values_def List.map_filter_def order_lawD ran_def)

lemma known_ok_upd [simp]: "known_ok m \<Longrightarrow> known_ok (m(peer_id p \<mapsto> p))"
  by (simp add: known_ok_def)

lemma known_ok_del [simp]: "known_ok m \<Longrightarrow> known_ok (m(i := None))"
  by (simp add: known_ok_def)

lemma known_ok_empty [simp]: "known_ok Map.empty"
  by (simp add: known_ok_def)

lemma map_peer_id_map_filter:
  "known_ok m \<Longrightarrow> map peer_id (List.map_filter m xs) = filter (\<lambda>i. m i \<noteq> None) xs"
  by (induction xs) (auto simp: List.map_filter_def known_ok_def)

lemma map_peer_id_known_values:
  assumes "order_law I" and "known_ok (known s)"
  shows "map peer_id (known_values I s) = id_order I (dom (known s))"
proof -
  have "filter (\<lambda>i. known s i \<noteq> None) (id_order I (dom (known s))) = id_order I (dom (known s))"
    by (rule filter_True) (simp add: order_lawD(1) [OF assms(1)] domIff)
  then show ?thesis
    by (simp add: known_values_def map_peer_id_map_filter [OF assms(2)])
qed

lemma distinct_known_values:
  assumes "order_law I" and "known_ok (known s)"
  shows "distinct (known_values I s)" "distinct (map peer_id (known_values I s))"
proof -
  show "distinct (map peer_id (known_values I s))"
    by (simp add: map_peer_id_known_values [OF assms] order_lawD(2) [OF assms(1)])
  then show "distinct (known_values I s)" by (simp add: distinct_map)
qed

definition key_entry :: "peer \<Rightarrow> uuid \<times> sockaddr \<times> keypair \<times> bytes" where
  "key_entry p = (peer_id p, peer_sockaddr p, the (our_keypair p), the (their_public_key p))"

lemma handshaken_keys_Inr:
  "handshaken_keys ps = Inr (from_iter (map key_entry (filter is_handshaken ps)))"
proof -
  have "map_result (\<lambda>p.
        bind_result (unwrap (our_keypair p)) (\<lambda>kp.
        bind_result (unwrap (their_public_key p)) (\<lambda>pk.
          Inr (peer_id p, (peer_sockaddr p, kp, pk))))) (filter is_handshaken ps)
      = Inr (map key_entry (filter is_handshaken ps))"
    by (rule map_result_Inr) (auto simp: is_handshaken_def key_entry_def)
  then show ?thesis by (simp add: handshaken_keys_def)
qed

lemma keys_of_Some:
  "keys_of m i = Some (a, kp, pk) \<longleftrightarrow>
     (\<exists>p. m i = Some p \<and> our_keypair p = Some kp \<and> their_public_key p = Some pk \<and> peer_sockaddr p = a)"
  by (auto simp: keys_of_def split: option.splits)

lemma from_iter_key_entries:
  assumes "order_law I" and ok: "known_ok (known s)"
  shows "from_iter (map key_entry (filter is_handshaken (known_values I s))) = keys_of (known s)"
proof (rule ext)
  fix i
  let ?ps = "filter is_handshaken (known_values I s)"
  have "distinct (map peer_id ?ps)"
    using distinct_known_values(2) [OF assms] by (rule distinct_map_filter)
  then have d: "distinct (map fst (map key_entry ?ps))" by (simp add: key_entry_def o_def)
  have "from_iter (map key_entry ?ps) i = Some v \<longleftrightarrow> keys_of (known s) i = Some v" for v
    unfolding from_iter_distinct [OF d]
    using ok set_known_values [OF assms(1), of s]
    by (cases v) (force simp: keys_of_Some key_entry_def is_handshaken_def known_ok_def ran_def)
  then show "from_iter (map key_entry ?ps) i = keys_of (known s) i"
    by (metis option.exhaust)
qed

lemma update_keys_eq:
  assumes "order_law I" and "known_ok (known s)"
  shows "update_keys I s = ([Call_packet_handler (KeysUpdated (keys_of (known s)))], Inr s)"
  by (simp add: update_keys_def act_simps handshaken_keys_Inr from_iter_key_entries [OF assms])

subsection \<open>Every operation keeps the invariant\<close>

lemma wp_update_keys [wp_simps]:
  assumes "order_law I" and "known_ok (known s)"
  shows "wp pan E (update_keys I) Q s \<longleftrightarrow>
    E (Call_packet_handler (KeysUpdated (keys_of (known s)))) \<and> Q s"
  by (simp add: wp_def update_keys_eq [OF assms])

lemma pm_inv_known_ok [simp]: "pm_inv N s \<Longrightarrow> known_ok (known s)"
  by (simp add: pm_inv_def)

lemma pm_inv_insert_known [simp]:
  "pm_inv N s \<Longrightarrow> pm_inv N (s\<lparr>known := (known s)(peer_id p \<mapsto> p)\<rparr>)"
  by (auto simp: pm_inv_def)

lemma pm_inv_subscribed_to [simp]: "pm_inv N (s\<lparr>subscribed_to := X\<rparr>) = pm_inv N s"
  by (simp add: pm_inv_def)

lemma pm_inv_notify_ready [simp]: "pm_inv N (s\<lparr>notify_ready := n\<rparr>) = pm_inv N s"
  by (simp add: pm_inv_def)

lemma pm_inv_stop_watchdog [simp]:
  "pm_inv N s \<Longrightarrow> pm_inv N (s\<lparr>heartbeat_watchdogs := (heartbeat_watchdogs s)(i := None)\<rparr>)"
  by (auto simp: pm_inv_def)

lemma pm_inv_set_watchdog [simp]:
  "pm_inv N s \<Longrightarrow> known s i = Some p \<Longrightarrow>
     pm_inv N (s\<lparr>heartbeat_watchdogs := (heartbeat_watchdogs s)(i \<mapsto> watchdog_for N t p)\<rparr>)"
  by (auto simp: pm_inv_def known_ok_def)

lemma pm_inv_remove_subscriber [simp]:
  "pm_inv N s \<Longrightarrow> pm_inv N (s\<lparr>subscribers := subscribers s - X\<rparr>)"
  by (auto simp: pm_inv_def)

lemma pm_inv_add_subscriber [simp]:
  "pm_inv N s \<Longrightarrow> known s i \<noteq> None \<Longrightarrow> pm_inv N (s\<lparr>subscribers := insert i (subscribers s)\<rparr>)"
  by (auto simp: pm_inv_def)

lemma pm_inv_forget [simp]:
  "pm_inv N s \<Longrightarrow> i \<notin> subscribers s \<Longrightarrow> pm_inv N (s\<lparr>known := (known s)(i := None)\<rparr>)"
  by (auto simp: pm_inv_def)

lemma pm_inv_start_timer:
  "pm_inv N s \<Longrightarrow> draw_law I \<Longrightarrow> wp pan E (start_reassign_timer N I) (pm_inv N) s"
  using draw_lawD(1,2) [of I REASSIGN_DELAY_LOW_MILLIS REASSIGN_DELAY_HIGH_MILLIS 0]
  by (auto simp: start_reassign_timer_def wp_simps pm_inv_def delayed_new_def
      REASSIGN_DELAY_LOW_MILLIS_def REASSIGN_DELAY_HIGH_MILLIS_def)

lemma pm_inv_start_heartbeats:
  "pm_inv N s \<Longrightarrow> wp pan E start_heartbeats (pm_inv N) s"
  by (simp add: start_heartbeats_def wp_simps pm_inv_def)

lemma pm_inv_reset_watchdog:
  "pm_inv N s \<Longrightarrow> wp pan E (reset_heartbeat_watchdog N I i) (pm_inv N) s"
  by (simp add: reset_heartbeat_watchdog_def stop_heartbeat_watchdog_def wp_simps split: option.splits)

lemma pm_inv_send_heartbeat:
  "pm_inv N s \<Longrightarrow> wp pan pm_allowed (send_heartbeat I) (pm_inv N) s"
  by (auto simp: send_heartbeat_def wp_simps intro!: wp_foreachI [where I = "pm_inv N"])

lemma pm_inv_add_peer:
  assumes "pm_inv N s" and "order_law I" and "draw_law I"
  shows "wp pan pm_allowed (add_peer N I p) (pm_inv N) s"
  using assms
  by (auto simp: add_peer_def store_peer_def insert_known_def wp_simps pm_inv_start_timer split: option.splits)

lemma pm_inv_remove:
  "pm_inv N s \<Longrightarrow>
     pm_inv N (s\<lparr>heartbeat_watchdogs := (heartbeat_watchdogs s)(i := None),
       subscribed_to := subscribed_to s - {i}, subscribers := subscribers s - {i},
       known := (known s)(i := None)\<rparr>)"
  by (auto simp: pm_inv_def)

lemma pm_inv_remove_peer:
  assumes "pm_inv N s" and "order_law I" and "draw_law I"
  shows "wp pan pm_allowed (remove_peer N I p) (pm_inv N) s"
  using assms
  by (simp add: remove_peer_def update_subscribers_def stop_heartbeat_watchdog_def wp_simps
      pm_inv_start_timer pm_inv_remove)

lemma try_insert_peers_known:
  "fst (try_insert_peers ps m) i =
     (case m i of Some p \<Rightarrow> Some p | None \<Rightarrow> find (\<lambda>p. peer_id p = i) ps)"
proof (induction ps arbitrary: m)
  case Nil
  then show ?case by (simp split: option.splits)
next
  case (Cons p ps)
  have "fst (try_insert_peers (p # ps) m) = fst (try_insert_peers ps (fst (try_insert (peer_id p) p m)))"
    by (simp split: prod.splits)
  then show ?case
    by (auto simp: Cons try_insert_def split: option.splits)
qed

lemma try_insert_peers_ok: "known_ok m \<Longrightarrow> known_ok (fst (try_insert_peers ps m))"
  by (auto simp: known_ok_def try_insert_peers_known find_Some_iff split: option.splits)

lemma try_insert_peers_dom: "dom m \<subseteq> dom (fst (try_insert_peers ps m))"
  by (auto simp: try_insert_peers_known)

lemma pm_inv_more_known:
  "pm_inv N s \<Longrightarrow> known_ok m \<Longrightarrow> dom (known s) \<subseteq> dom m \<Longrightarrow> pm_inv N (s\<lparr>known := m\<rparr>)"
  using subset_trans [of "subscribers s" "dom (known s)" "dom m"] by (simp add: pm_inv_def)

lemma pm_inv_update_peers:
  assumes "pm_inv N s" and "draw_law I"
  shows "wp pan pm_allowed (update_peers N I ps) (pm_inv N) s"
proof -
  have "pm_inv N (s\<lparr>known := fst (try_insert_peers ps (known s))\<rparr>)"
    using assms(1) try_insert_peers_dom
    by (intro pm_inv_more_known) (simp_all add: try_insert_peers_ok)
  then show ?thesis
    using assms(2)
    by (auto simp: update_peers_def wp_simps pm_inv_start_timer split: prod.splits)
qed

lemma choose_weighted:
  assumes "chooser_law C" and "0 < a" and "0 < b"
  shows "\<exists>ys. choose_multiple_weighted C r ps n (\<lambda>p. if c p then a else b) = Some ys \<and> sample_of ps n ys"
  using chooser_lawD(2) [OF assms(1), of ps "\<lambda>p. if c p then a else b" r n] assms(2,3) by simp

lemma choose_peers_no_panic:
  assumes "chooser_law C"
  shows "\<exists>X. choose_peers C N I s = Inr X"
proof -
  let ?rng = "seed_from_u64 C (snd (as_u64_pair C (node_id N)))"
  let ?ps = "filter (\<lambda>p. peer_id p \<noteq> node_id N) (known_values I s)"
  obtain l where l: "choose_multiple_weighted C ?rng ?ps (peer_subscriptions N)
      (\<lambda>p. if peer_zone p = node_zone N then 2 else 1) = Some l"
    using choose_weighted [OF assms, of 2 1] by fastforce
  obtain r where r: "choose_multiple_weighted C ?rng ?ps (peer_subscriptions N)
      (\<lambda>p. if peer_zone p = node_zone N then 1 else 2) = Some r"
    using choose_weighted [OF assms, of 1 2] by fastforce
  show ?thesis
    by (cases "strategy N") (simp_all add: choose_peers_def Let_def l r split: prod.splits)
qed

lemma pm_inv_reassign:
  assumes "pm_inv N s" and "chooser_law C"
  shows "wp pan pm_allowed (reassign C N I) (pm_inv N) s"
proof -
  obtain X where X: "choose_peers C N I s = Inr X"
    using choose_peers_no_panic [OF assms(2)] by blast
  have "wp pan pm_allowed (trigger_reassignment I A R) (pm_inv N) s" for A R
    unfolding trigger_reassignment_def wp_simps
    using assms(1)
    by (intro wp_foreachI [where I = "pm_inv N"])
      (auto simp: wp_simps subscribe_to_def unsubscribe_from_def send_start_subscription_def
        stop_heartbeat_watchdog_def split: option.splits intro!: wp_foreachI [where I = "pm_inv N"])
  then show ?thesis by (simp add: reassign_def wp_simps X)
qed

lemma pm_inv_start_subscription:
  "pm_inv N s \<Longrightarrow> wp pan pm_allowed (start_subscription I i) (pm_inv N) s"
  by (auto simp: start_subscription_def update_subscribers_def start_heartbeats_def wp_simps)
    (auto simp: pm_inv_def)

lemma pm_inv_shutdown:
  "pm_inv N s \<Longrightarrow> wp pan pm_allowed (shutdown I) (pm_inv N) s"
  by (auto simp: shutdown_def wp_simps intro!: wp_foreachI [where I = "pm_inv N"])

lemma pm_inv_handle_request:
  assumes "pm_inv N s" and "order_law I" and "draw_law I"
  shows "wp pan pm_allowed (handle_request N I i r) (pm_inv N) s"
proof (cases r)
  case (PeerStatus st)
  have "wp pan pm_allowed (add_peer N I p) Q s" "wp pan pm_allowed (remove_peer N I p) Q s"
    if "\<And>t. pm_inv N t \<Longrightarrow> Q t" for Q p
    by (rule wp_mono [OF pm_inv_add_peer [OF assms]], assumption, erule that,
        rule wp_mono [OF pm_inv_remove_peer [OF assms]], assumption, erule that)
  then show ?thesis
    by (auto simp: PeerStatus wp_simps split: peer_state.splits)
next
  case SubscriptionStarted
  have "wp pan pm_allowed (reset_heartbeat_watchdog N I i) Q (s\<lparr>subscribed_to := X\<rparr>)"
    if "\<And>t. pm_inv N t \<Longrightarrow> Q t" for Q X
    by (rule wp_mono [OF pm_inv_reset_watchdog]) (use assms that in auto)
  then show ?thesis
    by (auto simp: SubscriptionStarted subscription_started_def wp_simps split: option.splits)
next
  case EndSubscription
  with assms show ?thesis by (simp add: end_subscription_def update_subscribers_def wp_simps)
next
  case PeerList
  with assms show ?thesis by (simp add: send_peerlist_def wp_simps)
qed (simp_all add: assms pm_inv_update_peers pm_inv_start_subscription pm_inv_reset_watchdog)

lemma pm_inv_handle_message:
  assumes "chooser_law C" and "order_law I" and "draw_law I" and "pm_inv N s"
  shows "wp False pm_allowed (pm_handle_message C N I m) (pm_inv N) s"
  using assms
  by (cases m) (simp_all add: wp_simps pm_inv_handle_request pm_inv_reassign
      pm_inv_start_heartbeats pm_inv_send_heartbeat pm_inv_shutdown)

lemma pm_inv_init: "pm_inv N peer_manager_new"
  by (simp add: pm_inv_def peer_manager_new_def)

interpretation pm: total_server peer_manager_new "\<lambda>x. pm_handle_message (fst x) N (snd x)"
    pm_legal "pm_inv N" pm_allowed
  for N
  by unfold_locales (simp_all add: pm_inv_init pm_legal_def pm_inv_handle_message)

subsection \<open>What the operations compute\<close>

definition arm_reassign :: "nodeinfo \<Rightarrow> inputs \<Rightarrow> peer_manager \<Rightarrow> peer_manager" where
  "arm_reassign N I s =
     (if card (subscribed_to s) < peer_subscriptions N
      then s\<lparr>reassign_timer := Some (delayed_new (instant_now I)
             (gen_range I 0 REASSIGN_DELAY_LOW_MILLIS REASSIGN_DELAY_HIGH_MILLIS)
             (Future_cast_peer_manager Reassign))\<rparr>
      else s)"

lemma arm_reassign_frame [simp]:
  "known (arm_reassign N I s) = known s"
  "subscribers (arm_reassign N I s) = subscribers s"
  "subscribed_to (arm_reassign N I s) = subscribed_to s"
  "notify_ready (arm_reassign N I s) = notify_ready s"
  "heartbeat (arm_reassign N I s) = heartbeat s"
  "heartbeat_watchdogs (arm_reassign N I s) = heartbeat_watchdogs s"
  by (simp_all add: arm_reassign_def)

lemma start_reassign_timer_eq: "start_reassign_timer N I s = ([], Inr (arm_reassign N I s))"
  by (simp add: start_reassign_timer_def arm_reassign_def act_simps)

text \<open>The entry that \<open>add_peer\<close> leaves for a peer: the later of two handshakes wins.\<close>

definition last_write :: "peer option \<Rightarrow> peer \<Rightarrow> peer" where
  "last_write old p =
     (case old of
        None \<Rightarrow> p
      | Some q \<Rightarrow>
          (case (handshake_timestamp q, handshake_timestamp p) of
             (Some t, Some t') \<Rightarrow> if t' > t then p else q
           | _ \<Rightarrow> if is_handshaken p then p else q))"

lemma last_write_id: "(\<And>q. old = Some q \<Longrightarrow> peer_id q = peer_id p) \<Longrightarrow> peer_id (last_write old p) = peer_id p"
  by (auto simp: last_write_def split: option.splits)

lemma store_peer_eq:
  "store_peer p s = ([], Inr (s\<lparr>known := (known s)(peer_id p \<mapsto> last_write (known s (peer_id p)) p)\<rparr>))"
proof -
  have "s\<lparr>known := (known s)(peer_id p \<mapsto> q)\<rparr> = s" if "known s (peer_id p) = Some q" for q
    using that by (simp add: fun_upd_idem)
  then show ?thesis
    by (simp add: store_peer_def insert_known_def last_write_def act_simps split: option.splits)
qed

lemma known_ok_last_write:
  assumes "known_ok m"
  shows "known_ok (m(peer_id p \<mapsto> last_write (m (peer_id p)) p))"
proof -
  have "peer_id (last_write (m (peer_id p)) p) = peer_id p"
    by (rule last_write_id) (use assms in \<open>simp add: known_ok_def\<close>)
  with assms show ?thesis by (simp add: known_ok_def)
qed

lemma add_peer_eq:
  fixes p :: peer
  assumes "order_law I" and "known_ok (known s)"
  defines "m \<equiv> (known s)(peer_id p \<mapsto> last_write (known s (peer_id p)) p)"
  shows "add_peer N I p s =
    ([Call_packet_handler (KeysUpdated (keys_of m))], Inr (arm_reassign N I (s\<lparr>known := m\<rparr>)))"
  using known_ok_last_write [OF assms(2), of p]
  by (simp add: add_peer_def act_simps then_do_def store_peer_eq m_def update_keys_eq assms(1)
      start_reassign_timer_eq)

lemma remove_peer_eq:
  assumes "order_law I" and ok: "known_ok (known s)"
  shows "remove_peer N I p s =
    ([Cast_packet_handler (SubscribersUpdated (id_order I (subscribers s))),
      Call_packet_handler (KeysUpdated (keys_of ((known s)(peer_id p := None))))],
     Inr (arm_reassign N I (s\<lparr>heartbeat_watchdogs := (heartbeat_watchdogs s)(peer_id p := None),
       subscribed_to := subscribed_to s - {peer_id p}, subscribers := subscribers s - {peer_id p},
       known := (known s)(peer_id p := None)\<rparr>)))"
  by (simp add: remove_peer_def update_subscribers_def stop_heartbeat_watchdog_def act_simps then_do_def
      update_keys_eq assms start_reassign_timer_eq)

lemma update_peers_eq:
  "update_peers N I ps s =
     (let (m, added) = try_insert_peers ps (known s) in
      ([], Inr (if 0 < added then arm_reassign N I (s\<lparr>known := m\<rparr>) else s\<lparr>known := m\<rparr>)))"
  by (simp add: update_peers_def act_simps then_do_def start_reassign_timer_eq split: prod.splits)

lemma reset_heartbeat_watchdog_eq:
  "reset_heartbeat_watchdog N I i s =
     ([], Inr (s\<lparr>heartbeat_watchdogs := (heartbeat_watchdogs s)(i :=
        (if i \<in> subscribed_to s then map_option (watchdog_for N (instant_now I)) (known s i) else None))\<rparr>))"
  by (simp add: reset_heartbeat_watchdog_def stop_heartbeat_watchdog_def act_simps split: option.splits)

definition heartbeat_of :: "peer_manager \<Rightarrow> interval" where
  "heartbeat_of s = (case heartbeat s of Some h \<Rightarrow> h
     | None \<Rightarrow> interval_new HEARTBEAT_INTERVAL_MILLIS (Future_cast_peer_manager SendHeartbeat))"

lemma heartbeat_of_same: "heartbeat s = Some h \<Longrightarrow> s\<lparr>heartbeat := Some (heartbeat_of s)\<rparr> = s"
  by (rule peer_manager.equality) (simp_all add: heartbeat_of_def)

lemma start_heartbeats_eq:
  "start_heartbeats s = ([], Inr (s\<lparr>heartbeat := Some (heartbeat_of s)\<rparr>))"
  by (cases "heartbeat s")
    (simp_all add: start_heartbeats_def act_simps heartbeat_of_same, simp add: heartbeat_of_def)

lemma start_subscription_eq:
  "start_subscription I i s =
     (let S = (if known s i \<noteq> None then insert i (subscribers s) else subscribers s - {i}) in
      ([Cast_packet_handler (SubscribersUpdated (id_order I S)),
        Cast_packet_handler (SendMessage i (peer_message (new_v4 I 0) SubscriptionStarted))],
       Inr (s\<lparr>subscribers := S, heartbeat := Some (heartbeat_of s)\<rparr>)))"
proof -
  have "heartbeat_of (s\<lparr>subscribers := S\<rparr>) = heartbeat_of s" for S
    by (simp add: heartbeat_of_def)
  moreover have "s\<lparr>subscribers := S, heartbeat := Some (heartbeat_of s)\<rparr> = s\<lparr>subscribers := S\<rparr>"
    if "heartbeat s = Some h" for h S
    using that by (simp add: heartbeat_of_def)
  ultimately show ?thesis
    by (auto simp: start_subscription_def update_subscribers_def act_simps then_do_def Let_def
        start_heartbeats_eq)
qed

text \<open>The two loops of \<open>trigger_reassignment\<close>.\<close>

definition subscribe_effect :: "inputs \<Rightarrow> (uuid \<rightharpoonup> peer) \<Rightarrow> nat \<times> uuid \<Rightarrow> effect list" where
  "subscribe_effect I m ki =
     (case m (snd ki) of
        Some p \<Rightarrow>
          [if is_handshaken p
           then Cast_packet_handler
                  (SendMessage (snd ki) (peer_message (new_v4 I (fst ki)) StartSubscription))
           else Cast_handshaker
                  (SendHello (peer_sockaddr p) (Some (AndThen_start_subscription (snd ki))))]
      | None \<Rightarrow> [])"

definition unsubscribe_effect :: "inputs \<Rightarrow> nat \<times> uuid \<Rightarrow> effect" where
  "unsubscribe_effect I ki =
     Cast_packet_handler (SendMessage (snd ki) (peer_message (new_v4 I (fst ki)) EndSubscription))"

definition drop_subscriptions :: "uuid set \<Rightarrow> peer_manager \<Rightarrow> peer_manager" where
  "drop_subscriptions R s =
     s\<lparr>subscribed_to := subscribed_to s - R, heartbeat_watchdogs := heartbeat_watchdogs s |` (- R)\<rparr>"

lemma subscribe_loop:
  "foreach kis (\<lambda>(k, i). subscribe_to I k i) s
   = (concat (map (subscribe_effect I (known s)) kis), Inr s)"
  by (induction kis)
    (auto simp: act_simps then_do_def subscribe_to_def subscribe_effect_def send_start_subscription_def
      split: option.splits)

lemma drop_subscriptions_empty [simp]: "drop_subscriptions {} s = s"
  by (simp add: drop_subscriptions_def restrict_map_def)

lemma unsubscribe_from_eq:
  "unsubscribe_from I k i s = ([unsubscribe_effect I (k, i)], Inr (drop_subscriptions {i} s))"
proof -
  have "(heartbeat_watchdogs s)(i := None) = heartbeat_watchdogs s |` (- {i})"
    by (auto simp: restrict_map_def)
  then show ?thesis
    by (simp add: unsubscribe_from_def act_simps then_do_def stop_heartbeat_watchdog_def
        unsubscribe_effect_def drop_subscriptions_def)
qed

lemma drop_subscriptions_twice:
  "drop_subscriptions R (drop_subscriptions {i} s) = drop_subscriptions (insert i R) s"
proof -
  have "subscribed_to s - {i} - R = subscribed_to s - insert i R" by auto
  moreover have "- {i} \<inter> - R = - insert i R" by auto
  ultimately show ?thesis by (simp add: drop_subscriptions_def)
qed

lemma unsubscribe_loop:
  "foreach kis (\<lambda>(k, i). unsubscribe_from I k i) s
   = (map (unsubscribe_effect I) kis, Inr (drop_subscriptions (snd ` set kis) s))"
  by (induction kis arbitrary: s)
    (auto simp: act_simps then_do_def unsubscribe_from_eq drop_subscriptions_twice)

lemma trigger_reassignment_eq:
  assumes "order_law I"
  shows "trigger_reassignment I A R s =
    (concat (map (subscribe_effect I (known s)) (enumerate 0 (id_order I A))) @
     map (unsubscribe_effect I) (enumerate (card A) (id_order I R)),
     Inr (drop_subscriptions R s))"
  by (simp add: trigger_reassignment_def act_simps then_do_def subscribe_loop unsubscribe_loop
      snd_enumerate order_lawD [OF assms])

lemma send_heartbeat_eq:
  "send_heartbeat I s =
     ((if subscribed_to s = {} then [Cast_handshaker Bootstrap] else []) @
      map (\<lambda>(k, i). Cast_packet_handler (SendMessage i (peer_message (new_v4 I k) Heartbeat)))
        (enumerate 0 (id_order I (subscribers s))), Inr s)"
proof -
  have "foreach kis (\<lambda>(k, i).
       emit (Cast_packet_handler (SendMessage i (peer_message (new_v4 I k) Heartbeat)))) t
    = (map (\<lambda>(k, i). Cast_packet_handler (SendMessage i (peer_message (new_v4 I k) Heartbeat))) kis, Inr t)"
    for kis and t :: peer_manager
    by (induction kis) (auto simp: act_simps then_do_def)
  then show ?thesis by (simp add: send_heartbeat_def act_simps then_do_def)
qed

lemma shutdown_eq:
  "shutdown I s =
     (map (\<lambda>(k, i). Call_packet_handler (SendMessage i (peer_message (new_v4 I k) EndSubscription)))
        (enumerate 0 (id_order I (subscribed_to s))), Inr (s\<lparr>subscribed_to := {}\<rparr>))"
proof -
  have "foreach kis (\<lambda>(k, i).
       emit (Call_packet_handler (SendMessage i (peer_message (new_v4 I k) EndSubscription)))) t
    = (map (\<lambda>(k, i). Call_packet_handler (SendMessage i (peer_message (new_v4 I k) EndSubscription))) kis, Inr t)"
    for kis and t :: peer_manager
    by (induction kis) (auto simp: act_simps then_do_def)
  then show ?thesis by (simp add: shutdown_def act_simps then_do_def)
qed

end
