(* ===== verification/Handshake.thy ===== *)
theory Handshake
  imports Peer_Manager
begin

text \<open>
  \<^verbatim>\<open>handshake.rs\<close>: the actor that authenticates peers by a four-step handshake (\<open>Hello\<close>, \<open>Ohai\<close>, \<open>OkBoss\<close>, \<open>GoTeam\<close>).
  \<open>E\<close> is the library functions, \<open>N\<close> the node's configuration and \<open>I\<close> the inputs of the activation. Random draws are
  numbered: in one activation the challenge is byte draw 0, and the messages of the HMACs are the byte draws from 1 on.
\<close>

subsection \<open>Constants\<close>

definition HANDSHAKE_TIMEOUT_MILLIS :: nat where
  "HANDSHAKE_TIMEOUT_MILLIS = 60000"

definition HANDSHAKE_BOOTSTRAP_DELAY_MILLIS_MIN :: nat where
  "HANDSHAKE_BOOTSTRAP_DELAY_MILLIS_MIN = 10"

definition HANDSHAKE_BOOTSTRAP_DELAY_MILLIS_MAX :: nat where
  "HANDSHAKE_BOOTSTRAP_DELAY_MILLIS_MAX = 150"

text \<open>\<open>Uuid::nil\<close>.\<close>

abbreviation uuid_nil :: uuid where
  "uuid_nil \<equiv> 0"

subsection \<open>Time-locked HMACs\<close>

definition calculate_hmac :: "externals \<Rightarrow> bytes \<Rightarrow> bytes \<Rightarrow> timestamp \<Rightarrow> bytes result" where
  "calculate_hmac E hashed_key msg ts =
     bind_result (expect (timestamp_nanos_opt E ts)) (\<lambda>nanos.
       expect (generic_hash E (Some hashed_key) (msg @ i64_to_string nanos)))"

definition hmac_new ::
    "externals \<Rightarrow> inputs \<Rightarrow> nat \<Rightarrow> bytes \<Rightarrow> timestamp \<Rightarrow> nat \<Rightarrow> hmac result" where
  "hmac_new E I draw hashed_key ts len =
     (let msg = randombytes_buf I draw len in
      bind_result (calculate_hmac E hashed_key msg ts) (\<lambda>h.
        Inr \<lparr>hmac_hash = h, hmac_message = msg\<rparr>))"

definition is_valid_timestamp_for :: "externals \<Rightarrow> timestamp \<Rightarrow> timestamp \<Rightarrow> bool result" where
  "is_valid_timestamp_for E ts n =
     (case num_nanoseconds E n ts of
        Some nanos \<Rightarrow>
          bind_result (i64_abs (overflow_checks E) nanos) (\<lambda>a.
            Inr (a < 1000 * int HANDSHAKE_TIMEOUT_MILLIS))
      | None \<Rightarrow> Inr False)"

definition valid_for_key :: "externals \<Rightarrow> hmac \<Rightarrow> timestamp \<Rightarrow> bytes \<Rightarrow> bool result" where
  "valid_for_key E h ts hashed_key =
     bind_result (calculate_hmac E hashed_key (hmac_message h) ts) (\<lambda>c. Inr (c = hmac_hash h))"

definition compute_response ::
    "externals \<Rightarrow> uuid \<Rightarrow> bytes \<Rightarrow> bytes \<Rightarrow> string list \<Rightarrow> bytes list result" where
  "compute_response E i pk challenge ks =
     map_result (\<lambda>key. expect (generic_hash E None
       (as_bytes key @ challenge @ pk @ uuid_as_bytes E i))) ks"

subsection \<open>The state of one handshake\<close>

text \<open>\<open>HandshakeState<State>\<close>; the table an entry is in plays the part of the phantom type.\<close>

record handshake_state =
  hss_id :: uuid
  hss_peer :: peer
  hss_challenge :: "bytes option"
  hss_response :: "bytes list option"
  hss_timer :: "delayed option"
  hss_and_then :: "and_then option"
  hss_timestamp :: timestamp

definition start_timer :: "nat \<Rightarrow> uuid \<Rightarrow> sockaddr \<Rightarrow> delayed" where
  "start_timer t i addr = delayed_new t HANDSHAKE_TIMEOUT_MILLIS
     (Future_cast_handshaker (Packet addr \<lparr>hs_id = i, hs_step = Dead\<rparr> uuid_nil))"

definition hello_new :: "inputs \<Rightarrow> sockaddr \<Rightarrow> and_then option \<Rightarrow> handshake_state" where
  "hello_new I addr aft =
     \<lparr>hss_id = new_v4 I 0,
      hss_peer = peer_new (keypair_gen I) None addr uuid_nil (Some (now I)) None,
      hss_challenge = None, hss_response = None,
      hss_timer = Some (start_timer (instant_now I) (new_v4 I 0) addr),
      hss_and_then = aft, hss_timestamp = now I\<rparr>"

definition ohai_from ::
    "inputs \<Rightarrow> sockaddr \<Rightarrow> uuid \<Rightarrow> uuid \<Rightarrow> bytes \<Rightarrow> timestamp \<Rightarrow> string option \<Rightarrow> handshake_state" where
  "ohai_from I addr nid i pk ts zone =
     \<lparr>hss_id = i,
      hss_peer = peer_new (keypair_gen I) (Some pk) addr nid (Some ts) zone,
      hss_challenge = Some (randombytes_buf I 0 69), hss_response = None,
      hss_timer = Some (start_timer (instant_now I) i addr),
      hss_and_then = None, hss_timestamp = ts\<rparr>"

definition got_ohai ::
    "externals \<Rightarrow> handshake_state \<Rightarrow> uuid \<Rightarrow> bytes \<Rightarrow> bytes \<Rightarrow> string list \<Rightarrow> string option
     \<Rightarrow> handshake_state result" where
  "got_ohai E h nid pk challenge ks zone =
     (let p = set_zone zone (set_id nid (set_their_public_key pk (hss_peer h))) in
      bind_result (compute_response E (hss_id h) pk challenge ks) (\<lambda>r.
        Inr \<lparr>hss_id = hss_id h, hss_peer = p, hss_challenge = hss_challenge h,
             hss_response = Some r, hss_timer = None, hss_and_then = hss_and_then h,
             hss_timestamp = hss_timestamp h\<rparr>))"

text \<open>Whether the received response has an element in common with the expected one.\<close>

definition got_okboss :: "externals \<Rightarrow> handshake_state \<Rightarrow> bytes list \<Rightarrow> string list \<Rightarrow> bool result" where
  "got_okboss E h response ks =
     bind_result (unwrap (our_keypair (hss_peer h))) (\<lambda>kp.
     bind_result (unwrap (hss_challenge h)) (\<lambda>challenge.
     bind_result (compute_response E (hss_id h) (public_key kp) challenge ks) (\<lambda>expected.
       Inr (set expected \<inter> set response \<noteq> {}))))"

subsection \<open>The actor\<close>

record handshaker =
  hellos :: "uuid \<times> sockaddr \<rightharpoonup> handshake_state"
  ohais :: "uuid \<times> sockaddr \<rightharpoonup> handshake_state"
  okboss :: "uuid \<times> sockaddr \<rightharpoonup> handshake_state"
  inflight :: "sockaddr set"
  hashed_keys :: "bytes list option"
  bootstrap_timer :: "delayed option"

definition handshaker_new :: handshaker where
  "handshaker_new =
     \<lparr>hellos = Map.empty, ohais = Map.empty, okboss = Map.empty, inflight = {},
      hashed_keys = None, bootstrap_timer = None\<rparr>"

definition has_valid_hmac ::
    "externals \<Rightarrow> inputs \<Rightarrow> bytes list option \<Rightarrow> timestamp \<Rightarrow> hmac list \<Rightarrow> bool result" where
  "has_valid_hmac E I keys ts hmacs =
     (case keys of
        Some hks \<Rightarrow>
          bind_result (is_valid_timestamp_for E ts (now I)) (\<lambda>v.
            if v then any_result (\<lambda>h. any_result (valid_for_key E h ts) hks) hmacs else Inr False)
      | None \<Rightarrow> Inr False)"

definition compute_hmacs ::
    "externals \<Rightarrow> inputs \<Rightarrow> bytes list option \<Rightarrow> timestamp \<Rightarrow> hmac list result" where
  "compute_hmacs E I keys ts =
     (case keys of
        Some hks \<Rightarrow>
          map_result (\<lambda>(k, hk). hmac_new E I (Suc k) hk ts (gen_range I k 69 420)) (enumerate 0 hks)
      | None \<Rightarrow> Inr [])"

definition send_hello ::
    "externals \<Rightarrow> nodeinfo \<Rightarrow> inputs \<Rightarrow> sockaddr \<Rightarrow> and_then option \<Rightarrow> handshaker operation" where
  "send_hello E N I addr aft =
     (let h = hello_new I addr aft in
      with_result (unwrap (our_keypair (hss_peer h))) (\<lambda>kp. with_state (\<lambda>s.
      with_result (compute_hmacs E I (hashed_keys s) (hss_timestamp h)) (\<lambda>hmacs. do_all [
        modify (\<lambda>s. s\<lparr>inflight := insert addr (inflight s)\<rparr>),
        modify (\<lambda>s. s\<lparr>hellos := (hellos s)((hss_id h, addr) \<mapsto> h)\<rparr>),
        emit (Cast_packet_handler (Send addr (H \<lparr>hs_id = hss_id h,
          hs_step = Hello (public_key kp) (node_zone N) hmacs (hss_timestamp h)\<rparr>)))]))))"

definition send_ohai ::
    "externals \<Rightarrow> nodeinfo \<Rightarrow> inputs \<Rightarrow> uuid \<Rightarrow> sockaddr \<Rightarrow> bytes \<Rightarrow> bytes \<Rightarrow> timestamp \<Rightarrow> bool
     \<Rightarrow> handshaker operation" where
  "send_ohai E N I i addr pk challenge ts is_inflight = with_state (\<lambda>s.
     with_result (compute_hmacs E I (hashed_keys s) ts) (\<lambda>hmacs.
       emit (Spawn_call_packet_handler
         (if is_inflight
          then gen_range I (length hmacs) HANDSHAKE_BOOTSTRAP_DELAY_MILLIS_MIN
                 HANDSHAKE_BOOTSTRAP_DELAY_MILLIS_MAX
          else 0)
         (Send addr (H \<lparr>hs_id = i, hs_step = Ohai pk (node_zone N) hmacs challenge\<rparr>)))))"

definition send_okboss :: "uuid \<Rightarrow> sockaddr \<Rightarrow> bytes list \<Rightarrow> handshaker operation" where
  "send_okboss i addr response =
     emit (Call_packet_handler (Send addr (H \<lparr>hs_id = i, hs_step = OkBoss response\<rparr>)))"

definition send_goteam :: "uuid \<Rightarrow> sockaddr \<Rightarrow> handshaker operation" where
  "send_goteam i addr =
     emit (Call_packet_handler (Send addr (H \<lparr>hs_id = i, hs_step = GoTeam\<rparr>)))"

definition request_peerlist :: "inputs \<Rightarrow> uuid \<Rightarrow> handshaker operation" where
  "request_peerlist I i =
     emit (Call_packet_handler (SendMessage i (peer_message (new_v4 I 0) PeerList)))"

definition peer_up :: "nodeinfo \<Rightarrow> peer \<Rightarrow> effect" where
  "peer_up N p = Call_peer_manager
     (Request (node_id N) (PeerStatus \<lparr>status_peer = p, status_state = Up\<rparr>))"

definition send_peer_up :: "nodeinfo \<Rightarrow> peer \<Rightarrow> handshaker operation" where
  "send_peer_up N p = emit (peer_up N p)"

fun and_then_call :: "inputs \<Rightarrow> and_then option \<Rightarrow> handshaker operation" where
  "and_then_call I (Some (AndThen_start_subscription i)) = send_start_subscription (new_v4 I 0) i"
| "and_then_call I None = skip"

subsection \<open>The four steps\<close>

definition handle_hello ::
    "externals \<Rightarrow> nodeinfo \<Rightarrow> inputs \<Rightarrow> sockaddr \<Rightarrow> uuid \<Rightarrow> uuid \<Rightarrow> bytes \<Rightarrow> string option \<Rightarrow> hmac list
     \<Rightarrow> timestamp \<Rightarrow> handshaker operation" where
  "handle_hello E N I addr nid i pk zone hmacs ts = with_state (\<lambda>s.
     if nid \<noteq> node_id N then
       with_result (has_valid_hmac E I (hashed_keys s) ts hmacs) (\<lambda>ok.
         if ok then
           (let h = ohai_from I addr nid i pk ts zone in
            with_result (unwrap (our_keypair (hss_peer h))) (\<lambda>kp.
            with_result (unwrap (hss_challenge h)) (\<lambda>challenge. do_all [
              send_ohai E N I (hss_id h) addr (public_key kp) challenge (hss_timestamp h)
                (addr \<in> inflight s),
              modify (\<lambda>s. s\<lparr>inflight := insert addr (inflight s)\<rparr>),
              modify (\<lambda>s. s\<lparr>ohais := (ohais s)((hss_id h, addr) \<mapsto> h)\<rparr>)])))
         else skip)
     else skip)"

definition handle_ohai ::
    "externals \<Rightarrow> nodeinfo \<Rightarrow> inputs \<Rightarrow> sockaddr \<Rightarrow> uuid \<Rightarrow> uuid \<Rightarrow> bytes \<Rightarrow> string option \<Rightarrow> hmac list
     \<Rightarrow> bytes \<Rightarrow> handshaker operation" where
  "handle_ohai E N I addr nid i pk zone hmacs challenge = with_state (\<lambda>s.
     case hellos s (i, addr) of
       Some h \<Rightarrow> do_all [
         modify (\<lambda>s. s\<lparr>hellos := (hellos s)((i, addr) := None)\<rparr>),
         with_result (has_valid_hmac E I (hashed_keys s) (hss_timestamp h) hmacs) (\<lambda>ok.
           if ok then
             with_result (got_ohai E h nid pk challenge (node_keys N) zone) (\<lambda>h'.
             with_result (unwrap (hss_response h')) (\<lambda>response. do_all [
               send_okboss (hss_id h') addr response,
               if is_handshaken (hss_peer h') then skip else abort Assert_failed,
               modify (\<lambda>s. s\<lparr>okboss := (okboss s)((hss_id h', addr) \<mapsto> h')\<rparr>)]))
           else skip)]
     | None \<Rightarrow> skip)"

definition handle_okboss ::
    "externals \<Rightarrow> nodeinfo \<Rightarrow> inputs \<Rightarrow> sockaddr \<Rightarrow> uuid \<Rightarrow> bytes list \<Rightarrow> handshaker operation" where
  "handle_okboss E N I addr i response = with_state (\<lambda>s.
     case ohais s (i, addr) of
       Some h \<Rightarrow> do_all [
         modify (\<lambda>s. s\<lparr>ohais := (ohais s)((i, addr) := None)\<rparr>),
         with_result (got_okboss E h response (node_keys N)) (\<lambda>ok.
           if ok then do_all [
             send_peer_up N (hss_peer h),
             send_goteam (hss_id h) addr,
             and_then_call I (hss_and_then h)]
           else skip)]
     | None \<Rightarrow> skip)"

definition handle_goteam :: "nodeinfo \<Rightarrow> inputs \<Rightarrow> sockaddr \<Rightarrow> uuid \<Rightarrow> handshaker operation" where
  "handle_goteam N I addr i = with_state (\<lambda>s.
     case okboss s (i, addr) of
       Some h \<Rightarrow> do_all [
         modify (\<lambda>s. s\<lparr>okboss := (okboss s)((i, addr) := None)\<rparr>),
         send_peer_up N (hss_peer h),
         and_then_call I (hss_and_then h)]
     | None \<Rightarrow> skip)"

definition handle_dead :: "sockaddr \<Rightarrow> uuid \<Rightarrow> handshaker operation" where
  "handle_dead addr i = do_all [
     modify (\<lambda>s. s\<lparr>hellos := (hellos s)((i, addr) := None)\<rparr>),
     modify (\<lambda>s. s\<lparr>ohais := (ohais s)((i, addr) := None)\<rparr>),
     modify (\<lambda>s. s\<lparr>okboss := (okboss s)((i, addr) := None)\<rparr>),
     modify (\<lambda>s. s\<lparr>inflight := inflight s - {addr}\<rparr>)]"

fun handle_handshake ::
    "externals \<Rightarrow> nodeinfo \<Rightarrow> inputs \<Rightarrow> sockaddr \<Rightarrow> uuid \<Rightarrow> handshake_step \<Rightarrow> uuid \<Rightarrow> handshaker operation" where
  "handle_handshake E N I addr i (Hello pk zone hmacs ts) nid =
     handle_hello E N I addr nid i pk zone hmacs ts"
| "handle_handshake E N I addr i (Ohai pk zone hmacs challenge) nid =
     handle_ohai E N I addr nid i pk zone hmacs challenge"
| "handle_handshake E N I addr i (OkBoss response) nid = handle_okboss E N I addr i response"
| "handle_handshake E N I addr i GoTeam nid = handle_goteam N I addr i"
| "handle_handshake E N I addr i Dead nid = handle_dead addr i"

subsection \<open>Bootstrap and the message handler\<close>

definition bootstrap :: "externals \<Rightarrow> nodeinfo \<Rightarrow> inputs \<Rightarrow> handshaker operation" where
  "bootstrap E N I = do_all [
     with_state (\<lambda>s.
       if hashed_keys s = None
       then modify (\<lambda>s. s\<lparr>hashed_keys :=
              Some (List.map_filter (\<lambda>key. generic_hash E None (as_bytes key)) (node_keys N))\<rparr>)
       else skip),
     modify (\<lambda>s. s\<lparr>bootstrap_timer := Some (delayed_new (instant_now I)
       (gen_range I 0 HANDSHAKE_BOOTSTRAP_DELAY_MILLIS_MIN HANDSHAKE_BOOTSTRAP_DELAY_MILLIS_MAX)
       (Future_bootstrap (node_peers N)))\<rparr>)]"

text \<open>What the future of a timer does when it runs; the bootstrap resolves the configured peers.\<close>

fun future_effects :: "externals \<Rightarrow> future \<Rightarrow> effect list" where
  "future_effects E (Future_cast_peer_manager r) = [Cast_peer_manager r]"
| "future_effects E (Future_cast_handshaker m) = [Cast_handshaker m]"
| "future_effects E (Future_cast_packet_handler m) = [Cast_packet_handler m]"
| "future_effects E (Future_bootstrap ps) =
     concat (map (\<lambda>p. case to_socket_addrs E p of
         Some (addr # _) \<Rightarrow> [Call_handshaker (SendHello addr None)]
       | _ \<Rightarrow> []) ps)"

fun hs_handle_message ::
    "externals \<Rightarrow> nodeinfo \<Rightarrow> inputs \<Rightarrow> handshaker_message \<Rightarrow> handshaker operation" where
  "hs_handle_message E N I Bootstrap = bootstrap E N I"
| "hs_handle_message E N I (Packet addr h nid) = handle_handshake E N I addr (hs_id h) (hs_step h) nid"
| "hs_handle_message E N I (SendHello addr aft) = send_hello E N I addr aft"

subsection \<open>HMACs under the laws of the libraries\<close>

text \<open>The hashes of the configured keys, as \<open>bootstrap\<close> computes them.\<close>

definition key_hashes :: "externals \<Rightarrow> nodeinfo \<Rightarrow> bytes list" where
  "key_hashes E N = List.map_filter (\<lambda>key. generic_hash E None (as_bytes key)) (node_keys N)"

definition in_window :: "timestamp \<Rightarrow> timestamp \<Rightarrow> bool" where
  "in_window t ts \<longleftrightarrow> \<bar>t - ts\<bar> < 60000000"

definition hmac_for :: "externals \<Rightarrow> timestamp \<Rightarrow> bytes \<Rightarrow> hmac \<Rightarrow> bool" where
  "hmac_for E ts hk h \<longleftrightarrow>
     generic_hash E (Some hk) (hmac_message h @ i64_to_string ts) = Some (hmac_hash h)"

text \<open>What \<open>has_valid_hmac\<close> is meant to decide.\<close>

definition authentic :: "externals \<Rightarrow> nodeinfo \<Rightarrow> timestamp \<Rightarrow> timestamp \<Rightarrow> hmac list \<Rightarrow> bool" where
  "authentic E N t ts hmacs \<longleftrightarrow>
     in_window t ts \<and> (\<exists>h \<in> set hmacs. \<exists>hk \<in> set (key_hashes E N). hmac_for E ts hk h)"

text \<open>A clock that has not run past the year 2262, and a timestamp whose distance from it fits an \<open>i64\<close> when negated.\<close>

definition clock_ok :: "timestamp \<Rightarrow> bool" where
  "clock_ok t \<longleftrightarrow> 0 \<le> t \<and> t < 2 ^ 63 - 60000000"

definition own_hmac :: "externals \<Rightarrow> inputs \<Rightarrow> timestamp \<Rightarrow> nat \<times> bytes \<Rightarrow> hmac" where
  "own_hmac E I ts khk =
     (let msg = randombytes_buf I (Suc (fst khk)) (gen_range I (fst khk) 69 420) in
      \<lparr>hmac_hash = the (generic_hash E (Some (snd khk)) (msg @ i64_to_string ts)), hmac_message = msg\<rparr>)"

definition own_hmacs :: "externals \<Rightarrow> nodeinfo \<Rightarrow> inputs \<Rightarrow> timestamp \<Rightarrow> hmac list" where
  "own_hmacs E N I ts = map (own_hmac E I ts) (enumerate 0 (key_hashes E N))"

lemma hash_lawD:
  assumes "hash_law E"
  shows "\<exists>h. generic_hash E None d = Some h \<and> length h = 64"
    and "length k = 64 \<Longrightarrow> \<exists>h. generic_hash E (Some k) d = Some h \<and> length h = 64"
  using assms unfolding hash_law_def by blast+

lemma set_key_hashes:
  "hk \<in> set (key_hashes E N) \<longleftrightarrow> (\<exists>key \<in> set (node_keys N). generic_hash E None (as_bytes key) = Some hk)"
  by (force simp: key_hashes_def List.map_filter_def)

lemma length_key_hash: "hash_law E \<Longrightarrow> hk \<in> set (key_hashes E N) \<Longrightarrow> length hk = 64"
  unfolding set_key_hashes by (metis hash_lawD(1) option.inject)

lemma is_valid_timestamp_for_eq:
  assumes "chrono_law E" and "t - ts \<noteq> - (2 ^ 63)"
  shows "is_valid_timestamp_for E ts t = Inr (in_window t ts)"
  using assms
  by (auto simp: is_valid_timestamp_for_def chrono_law_def in_window_def HANDSHAKE_TIMEOUT_MILLIS_def i64_range_def)

lemma calculate_hmac_eq:
  assumes "chrono_law E" and "hash_law E" and "i64_range ts" and "length hk = 64"
  shows "calculate_hmac E hk msg ts = Inr (the (generic_hash E (Some hk) (msg @ i64_to_string ts)))"
  using assms(1,3) hash_lawD(2) [OF assms(2,4), of "msg @ i64_to_string ts"]
  by (auto simp: calculate_hmac_def chrono_law_def)

lemma valid_for_key_eq:
  assumes "chrono_law E" and "hash_law E" and "i64_range ts" and "length hk = 64"
  shows "valid_for_key E h ts hk = Inr (hmac_for E ts hk h)"
  using hash_lawD(2) [OF assms(2,4), of "hmac_message h @ i64_to_string ts"]
  by (auto simp: valid_for_key_def calculate_hmac_eq [OF assms] hmac_for_def)

lemma in_window_range: "clock_ok t \<Longrightarrow> in_window t ts \<Longrightarrow> i64_range ts"
  by (auto simp: clock_ok_def in_window_def i64_range_def)

lemma clock_ok_range: "clock_ok t \<Longrightarrow> i64_range t"
  by (auto simp: clock_ok_def i64_range_def)

lemma has_valid_hmac_eq:
  assumes "chrono_law E" and "hash_law E" and "clock_ok (now I)" and "now I - ts \<noteq> - (2 ^ 63)"
  shows "has_valid_hmac E I (Some (key_hashes E N)) ts hmacs = Inr (authentic E N (now I) ts hmacs)"
proof (cases "in_window (now I) ts")
  case True
  then have ts: "i64_range ts" by (rule in_window_range [OF assms(3)])
  have "any_result (valid_for_key E h ts) (key_hashes E N) =
      Inr (\<exists>hk \<in> set (key_hashes E N). hmac_for E ts hk h)" for h
    by (rule any_result_Inr, rule valid_for_key_eq [OF assms(1,2) ts]) (rule length_key_hash [OF assms(2)])
  then have "any_result (\<lambda>h. any_result (valid_for_key E h ts) (key_hashes E N)) hmacs =
      Inr (\<exists>h \<in> set hmacs. \<exists>hk \<in> set (key_hashes E N). hmac_for E ts hk h)"
    by (rule any_result_Inr)
  with True show ?thesis
    by (simp add: has_valid_hmac_def is_valid_timestamp_for_eq [OF assms(1,4)] authentic_def)
next
  case False
  then show ?thesis
    by (simp add: has_valid_hmac_def is_valid_timestamp_for_eq [OF assms(1,4)] authentic_def)
qed

lemma compute_hmacs_eq:
  assumes "chrono_law E" and "hash_law E" and "i64_range ts"
  shows "compute_hmacs E I (Some (key_hashes E N)) ts = Inr (own_hmacs E N I ts)"
proof -
  have "hmac_new E I (Suc k) hk ts (gen_range I k 69 420) = Inr (own_hmac E I ts (k, hk))"
    if "(k, hk) \<in> set (enumerate 0 (key_hashes E N))" for k hk
  proof -
    from that have "hk \<in> set (key_hashes E N)"
      by (metis enumerate_mem)
    then have "length hk = 64" by (rule length_key_hash [OF assms(2)])
    then show ?thesis
      by (simp add: hmac_new_def Let_def own_hmac_def calculate_hmac_eq [OF assms])
  qed
  then show ?thesis
    unfolding compute_hmacs_def own_hmacs_def by (auto intro!: map_result_Inr)
qed

text \<open>The HMACs a node computes are valid for every node it shares a key with.\<close>

lemma own_hmacs_authentic:
  assumes "hash_law E" and "set (node_keys N) \<inter> set (node_keys M) \<noteq> {}" and "in_window t ts"
  shows "authentic E M t ts (own_hmacs E N I ts)"
proof -
  from assms(2) obtain key where key: "key \<in> set (node_keys N)" "key \<in> set (node_keys M)" by blast
  obtain hk where hk: "generic_hash E None (as_bytes key) = Some hk" "length hk = 64"
    using hash_lawD(1) [OF assms(1)] by blast
  from hk key have "hk \<in> set (key_hashes E N)" and M: "hk \<in> set (key_hashes E M)"
    by (auto simp: set_key_hashes)
  then obtain k where k: "(k, hk) \<in> set (enumerate 0 (key_hashes E N))" by (metis enumerate_mem)
  obtain d where "generic_hash E (Some hk) (hmac_message (own_hmac E I ts (k, hk)) @ i64_to_string ts) = Some d"
    using hash_lawD(2) [OF assms(1) hk(2)] by blast
  then have "hmac_for E ts hk (own_hmac E I ts (k, hk))"
    by (simp add: hmac_for_def own_hmac_def Let_def)
  with k M assms(3) show ?thesis
    by (auto simp: authentic_def own_hmacs_def)
qed

subsection \<open>Challenges under the laws of the libraries\<close>

definition response_for :: "externals \<Rightarrow> uuid \<Rightarrow> bytes \<Rightarrow> bytes \<Rightarrow> string \<Rightarrow> bytes" where
  "response_for E i pk challenge key =
     the (generic_hash E None (as_bytes key @ challenge @ pk @ uuid_as_bytes E i))"

lemma compute_response_eq:
  assumes "hash_law E"
  shows "compute_response E i pk challenge ks = Inr (map (response_for E i pk challenge) ks)"
  unfolding compute_response_def
  by (rule map_result_Inr) (metis hash_lawD(1) [OF assms] expect_simps(2) option.sel response_for_def)

subsection \<open>What the operations compute\<close>

definition keys_ok :: "externals \<Rightarrow> nodeinfo \<Rightarrow> handshaker \<Rightarrow> bool" where
  "keys_ok E N s \<longleftrightarrow> hashed_keys s = None \<or> hashed_keys s = Some (key_hashes E N)"

definition accepts :: "externals \<Rightarrow> nodeinfo \<Rightarrow> inputs \<Rightarrow> handshaker \<Rightarrow> timestamp \<Rightarrow> hmac list \<Rightarrow> bool" where
  "accepts E N I s ts hmacs \<longleftrightarrow> hashed_keys s \<noteq> None \<and> authentic E N (now I) ts hmacs"

definition ohai_delay :: "nodeinfo \<Rightarrow> externals \<Rightarrow> inputs \<Rightarrow> bool \<Rightarrow> nat" where
  "ohai_delay N E I busy = (if busy then gen_range I (length (key_hashes E N)) 10 150 else 0)"

text \<open>The message that \<open>send_ohai\<close> sends and the entry that \<open>got_ohai\<close> makes of a \<open>Hello\<close> entry.\<close>

definition ohai_reply :: "externals \<Rightarrow> nodeinfo \<Rightarrow> inputs \<Rightarrow> uuid \<Rightarrow> timestamp \<Rightarrow> handshake" where
  "ohai_reply E N I i ts =
     \<lparr>hs_id = i, hs_step = Ohai (public_key (keypair_gen I)) (node_zone N) (own_hmacs E N I ts)
        (randombytes_buf I 0 69)\<rparr>"

definition okboss_reply :: "externals \<Rightarrow> nodeinfo \<Rightarrow> uuid \<Rightarrow> bytes \<Rightarrow> bytes \<Rightarrow> handshake" where
  "okboss_reply E N i pk challenge =
     \<lparr>hs_id = i, hs_step = OkBoss (map (response_for E i pk challenge) (node_keys N))\<rparr>"

definition okboss_entry ::
    "externals \<Rightarrow> nodeinfo \<Rightarrow> handshake_state \<Rightarrow> uuid \<Rightarrow> bytes \<Rightarrow> bytes \<Rightarrow> string option \<Rightarrow> handshake_state" where
  "okboss_entry E N h nid pk challenge zone =
     h\<lparr>hss_peer := (hss_peer h)\<lparr>their_public_key := Some pk, peer_id := nid, peer_zone := zone\<rparr>,
       hss_response := Some (map (response_for E (hss_id h) pk challenge) (node_keys N)),
       hss_timer := None\<rparr>"

definition answers :: "externals \<Rightarrow> nodeinfo \<Rightarrow> uuid \<Rightarrow> bytes \<Rightarrow> bytes \<Rightarrow> bytes list \<Rightarrow> bool" where
  "answers E N i pk challenge response \<longleftrightarrow>
     (\<exists>key \<in> set (node_keys N). response_for E i pk challenge key \<in> set response)"

lemma has_valid_hmac_accepts:
  assumes "chrono_law E" and "hash_law E" and "clock_ok (now I)" and "now I - ts \<noteq> - (2 ^ 63)"
    and "keys_ok E N s"
  shows "has_valid_hmac E I (hashed_keys s) ts hmacs = Inr (accepts E N I s ts hmacs)"
  using assms(5) has_valid_hmac_eq [OF assms(1-4)]
  by (auto simp: keys_ok_def accepts_def) (simp add: has_valid_hmac_def)

lemma compute_hmacs_accepts:
  assumes "chrono_law E" and "hash_law E" and "i64_range ts" and "keys_ok E N s"
  shows "compute_hmacs E I (hashed_keys s) ts =
    Inr (if hashed_keys s = None then [] else own_hmacs E N I ts)"
  using assms(4) compute_hmacs_eq [OF assms(1-3)]
  by (auto simp: keys_ok_def) (simp add: compute_hmacs_def)

lemma length_own_hmacs [simp]: "length (own_hmacs E N I ts) = length (key_hashes E N)"
  by (simp add: own_hmacs_def)

lemma send_hello_eq:
  assumes "chrono_law E" and "hash_law E" and "clock_ok (now I)" and "keys_ok E N s"
  shows "send_hello E N I addr aft s =
    ([Cast_packet_handler (Send addr (H \<lparr>hs_id = new_v4 I 0,
        hs_step = Hello (public_key (keypair_gen I)) (node_zone N)
          (if hashed_keys s = None then [] else own_hmacs E N I (now I)) (now I)\<rparr>))],
     Inr (s\<lparr>hellos := (hellos s)((new_v4 I 0, addr) \<mapsto> hello_new I addr aft),
            inflight := insert addr (inflight s)\<rparr>))"
  using compute_hmacs_accepts [OF assms(1,2) clock_ok_range [OF assms(3)] assms(4), of I]
  by (simp add: send_hello_def Let_def hello_new_def peer_new_def act_simps then_do_def)

lemma handle_hello_eq:
  assumes "chrono_law E" and "hash_law E" and "clock_ok (now I)" and "now I - ts \<noteq> - (2 ^ 63)"
    and "keys_ok E N s"
  shows "handle_hello E N I addr nid i pk zone hmacs ts s =
    (if nid \<noteq> node_id N \<and> accepts E N I s ts hmacs
     then ([Spawn_call_packet_handler (ohai_delay N E I (addr \<in> inflight s))
              (Send addr (H (ohai_reply E N I i ts)))],
           Inr (s\<lparr>ohais := (ohais s)((i, addr) \<mapsto> ohai_from I addr nid i pk ts zone),
                  inflight := insert addr (inflight s)\<rparr>))
     else ([], Inr s))"
proof (cases "nid \<noteq> node_id N \<and> accepts E N I s ts hmacs")
  case True
  then have "i64_range ts" and "hashed_keys s \<noteq> None"
    using in_window_range [OF assms(3)] by (auto simp: accepts_def authentic_def)
  then have "compute_hmacs E I (hashed_keys s) ts = Inr (own_hmacs E N I ts)"
    using compute_hmacs_accepts [OF assms(1,2) _ assms(5)] by auto
  with True show ?thesis
    by (simp add: handle_hello_def has_valid_hmac_accepts [OF assms] Let_def ohai_from_def peer_new_def
        send_ohai_def ohai_delay_def ohai_reply_def act_simps then_do_def
        HANDSHAKE_BOOTSTRAP_DELAY_MILLIS_MIN_def HANDSHAKE_BOOTSTRAP_DELAY_MILLIS_MAX_def)
next
  case False
  then show ?thesis
    by (auto simp: handle_hello_def has_valid_hmac_accepts [OF assms] act_simps)
qed

lemma got_ohai_eq:
  assumes "hash_law E"
  shows "got_ohai E h nid pk challenge (node_keys N) zone = Inr (okboss_entry E N h nid pk challenge zone)"
  by (cases h) (simp add: got_ohai_def Let_def compute_response_eq [OF assms] okboss_entry_def
      set_zone_def set_id_def set_their_public_key_def)

lemma okboss_entry_simps [simp]:
  "hss_id (okboss_entry E N h nid pk challenge zone) = hss_id h"
  "hss_response (okboss_entry E N h nid pk challenge zone) =
     Some (map (response_for E (hss_id h) pk challenge) (node_keys N))"
  "is_handshaken (hss_peer (okboss_entry E N h nid pk challenge zone)) \<longleftrightarrow> our_keypair (hss_peer h) \<noteq> None"
  by (simp_all add: okboss_entry_def is_handshaken_def)

lemma handle_ohai_eq:
  assumes "chrono_law E" and "hash_law E" and "clock_ok (now I)" and "keys_ok E N s"
    and "hellos s (i, addr) = Some h" and "now I - hss_timestamp h \<noteq> - (2 ^ 63)"
    and "our_keypair (hss_peer h) \<noteq> None"
  shows "handle_ohai E N I addr nid i pk zone hmacs challenge s =
    (if accepts E N I s (hss_timestamp h) hmacs
     then ([Call_packet_handler (Send addr (H (okboss_reply E N (hss_id h) pk challenge)))],
           Inr (s\<lparr>hellos := (hellos s)((i, addr) := None),
                  okboss := (okboss s)((hss_id h, addr) \<mapsto> okboss_entry E N h nid pk challenge zone)\<rparr>))
     else ([], Inr (s\<lparr>hellos := (hellos s)((i, addr) := None)\<rparr>)))"
  using assms(5,7)
  by (simp add: handle_ohai_def has_valid_hmac_accepts [OF assms(1-3,6,4)] got_ohai_eq [OF assms(2)]
      send_okboss_def okboss_reply_def act_simps then_do_def)

lemma handle_okboss_eq:
  assumes "hash_law E" and "ohais s (i, addr) = Some h"
    and "our_keypair (hss_peer h) = Some kp" and "hss_challenge h = Some challenge"
  shows "handle_okboss E N I addr i response s =
    (if answers E N (hss_id h) (public_key kp) challenge response
     then ([peer_up N (hss_peer h),
            Call_packet_handler (Send addr (H \<lparr>hs_id = hss_id h, hs_step = GoTeam\<rparr>))] @
            fst (and_then_call I (hss_and_then h) s),
           Inr (s\<lparr>ohais := (ohais s)((i, addr) := None)\<rparr>))
     else ([], Inr (s\<lparr>ohais := (ohais s)((i, addr) := None)\<rparr>)))"
proof -
  have "set (map (response_for E (hss_id h) (public_key kp) challenge) (node_keys N)) \<inter> set response \<noteq> {}
      \<longleftrightarrow> answers E N (hss_id h) (public_key kp) challenge response"
    by (auto simp: answers_def)
  then have *: "got_okboss E h response (node_keys N) =
      Inr (answers E N (hss_id h) (public_key kp) challenge response)"
    by (simp add: got_okboss_def assms(3,4) compute_response_eq [OF assms(1)])
  show ?thesis
    by (cases "(I, hss_and_then h)" rule: and_then_call.cases)
      (simp_all add: handle_okboss_def assms(2) * send_peer_up_def send_goteam_def act_simps then_do_def
        send_start_subscription_def)
qed

lemma handle_goteam_eq:
  assumes "okboss s (i, addr) = Some h"
  shows "handle_goteam N I addr i s =
    (peer_up N (hss_peer h) # fst (and_then_call I (hss_and_then h) s),
     Inr (s\<lparr>okboss := (okboss s)((i, addr) := None)\<rparr>))"
  by (cases "(I, hss_and_then h)" rule: and_then_call.cases)
    (simp_all add: handle_goteam_def assms send_peer_up_def act_simps then_do_def send_start_subscription_def)

lemma handle_dead_eq:
  "handle_dead addr i s = ([], Inr (s\<lparr>hellos := (hellos s)((i, addr) := None),
     ohais := (ohais s)((i, addr) := None), okboss := (okboss s)((i, addr) := None),
     inflight := inflight s - {addr}\<rparr>))"
  by (simp add: handle_dead_def act_simps then_do_def)

lemma bootstrap_eq:
  "keys_ok E N s \<Longrightarrow> bootstrap E N I s = ([], Inr (s\<lparr>hashed_keys := Some (key_hashes E N),
     bootstrap_timer := Some (delayed_new (instant_now I) (gen_range I 0 10 150) (Future_bootstrap (node_peers N)))\<rparr>))"
  by (auto simp: bootstrap_def act_simps then_do_def keys_ok_def key_hashes_def
      HANDSHAKE_BOOTSTRAP_DELAY_MILLIS_MIN_def HANDSHAKE_BOOTSTRAP_DELAY_MILLIS_MAX_def)

lemma unknown_handshake_ignored:
  "hellos s (i, addr) = None \<Longrightarrow> handle_ohai E N I addr nid i pk zone hmacs challenge s = ([], Inr s)"
  "ohais s (i, addr) = None \<Longrightarrow> handle_okboss E N I addr i response s = ([], Inr s)"
  "okboss s (i, addr) = None \<Longrightarrow> handle_goteam N I addr i s = ([], Inr s)"
  by (simp_all add: handle_ohai_def handle_okboss_def handle_goteam_def act_simps)

end
