(* ===== verification/Node.thy ===== *)
theory Node
  imports Packet_Handler Handshake
begin

text \<open>
  The public interface of a node and what starts and stops it: \<^verbatim>\<open>lib.rs\<close> (\<open>GwyhBuilder\<close>, \<open>Gwyh\<close>), \<^verbatim>\<open>server.rs\<close>,
  \<^verbatim>\<open>registry.rs\<close>, \<^verbatim>\<open>error.rs\<close> and \<open>NodeInfo::new\<close>. The registry that \<open>make_registry\<close> generates is its one written
  field; what comes back from a call through it, whether a cast is delivered and whether the socket can be bound are
  arguments. \<open>tokio\<close>'s \<open>Notify\<close> is the record \<open>notify_ops\<close> with the law its documentation states.
\<close>

subsection \<open>Building a node\<close>

record gwyh_builder =
  builder_bind_addr :: string
  builder_keys :: "string list"
  builder_peers :: "string list"
  builder_peer_subscriptions :: nat
  builder_handler :: "nat option"
  builder_zone :: "string option"
  builder_strategy :: distribution_strategy

definition builder_new :: gwyh_builder where
  "builder_new =
     \<lparr>builder_bind_addr = ''127.0.0.1:6969'', builder_keys = [''insecure''], builder_peers = [],
      builder_peer_subscriptions = 5, builder_handler = None, builder_zone = None,
      builder_strategy = Uniform\<rparr>"

text \<open>\<open>Gwyh::builder\<close> and \<open>Default\<close>.\<close>

definition gwyh_builder_start :: gwyh_builder where
  "gwyh_builder_start = builder_new"

definition builder_default :: gwyh_builder where
  "builder_default = builder_new"

definition with_bind_addr :: "string \<Rightarrow> gwyh_builder \<Rightarrow> gwyh_builder" where
  "with_bind_addr a b = b\<lparr>builder_bind_addr := a\<rparr>"

definition with_keys :: "string list \<Rightarrow> gwyh_builder \<Rightarrow> gwyh_builder" where
  "with_keys ks b = b\<lparr>builder_keys := ks\<rparr>"

definition with_peers :: "string list \<Rightarrow> gwyh_builder \<Rightarrow> gwyh_builder" where
  "with_peers ps b = b\<lparr>builder_peers := ps\<rparr>"

definition with_zone :: "string \<Rightarrow> gwyh_builder \<Rightarrow> gwyh_builder" where
  "with_zone z b = b\<lparr>builder_zone := Some z\<rparr>"

definition with_distribution_strategy :: "distribution_strategy \<Rightarrow> gwyh_builder \<Rightarrow> gwyh_builder" where
  "with_distribution_strategy d b = b\<lparr>builder_strategy := d\<rparr>"

definition with_handler :: "nat \<Rightarrow> gwyh_builder \<Rightarrow> gwyh_builder" where
  "with_handler h b = b\<lparr>builder_handler := Some h\<rparr>"

text \<open>The first argument is the id that \<open>Uuid::new_v4\<close> draws.\<close>

definition nodeinfo_new ::
    "uuid \<Rightarrow> string \<Rightarrow> string list \<Rightarrow> string list \<Rightarrow> nat \<Rightarrow> string option \<Rightarrow> distribution_strategy \<Rightarrow> nodeinfo" where
  "nodeinfo_new i a ks ps n z d =
     \<lparr>bind_addr = a, node_keys = ks, node_peers = ps, node_id = i, peer_subscriptions = n,
      node_zone = z, strategy = d\<rparr>"

record registry =
  registry_nodeinfo :: nodeinfo

record gwyh =
  gwyh_nodeinfo :: nodeinfo
  gwyh_handler :: "nat option"
  gwyh_registry :: "registry option"
  notify_shutdown :: nat

text \<open>\<open>build\<close> cannot fail; \<open>n\<close> names the new \<open>Notify\<close>.\<close>

definition build :: "uuid \<Rightarrow> nat \<Rightarrow> gwyh_builder \<Rightarrow> gwyh" where
  "build i n b =
     \<lparr>gwyh_nodeinfo = nodeinfo_new i (builder_bind_addr b) (builder_keys b) (builder_peers b)
        (builder_peer_subscriptions b) (builder_zone b) (builder_strategy b),
      gwyh_handler = builder_handler b, gwyh_registry = None, notify_shutdown = n\<rparr>"

subsection \<open>Errors\<close>

text \<open>The two kinds of \<open>genserver::Error\<close> that the sources tell apart: a message that could not be sent, which is given back, and the rest.\<close>

datatype 'm genserver_error = MpscSendError 'm | Genserver_other

datatype error =
    GenServerErr
  | NoRegistry bytes string
  | BroadcastFailed
  | BroadcastSend bytes
  | UnexpectedResponse
  | Timeout

definition error_from :: "'m genserver_error \<Rightarrow> error" where
  "error_from e = GenServerErr"

subsection \<open>The interface of a running node\<close>

fun broadcast_error :: "packet_handler_message genserver_error \<Rightarrow> error" where
  "broadcast_error (MpscSendError (SendBroadcast m)) = BroadcastSend m"
| "broadcast_error (MpscSendError m) = BroadcastFailed"
| "broadcast_error Genserver_other = BroadcastFailed"

text \<open>\<open>call\<close> is what the call of the packet handler comes back with.\<close>

definition broadcast ::
    "(packet_handler_message \<Rightarrow> packet_handler_message genserver_error + unit) \<Rightarrow> gwyh \<Rightarrow> bytes \<Rightarrow> error + unit" where
  "broadcast call g m =
     (case gwyh_registry g of
        Some reg \<Rightarrow> map_sum broadcast_error id (call (SendBroadcast m))
      | None \<Rightarrow> Inl (NoRegistry m ''there's no registry, this shouldn't happen''))"

definition get_subscriber_count ::
    "(peer_manager_request \<Rightarrow> peer_manager_request genserver_error + peer_manager_response) \<Rightarrow> gwyh
     \<Rightarrow> (error + nat) result" where
  "get_subscriber_count call g =
     bind_result (unwrap (gwyh_registry g)) (\<lambda>reg.
       Inr (case call GetSubscriberCount of
              Inl e \<Rightarrow> Inl (error_from e)
            | Inr r \<Rightarrow> (case r of SubscriberCount c \<Rightarrow> Inr c | _ \<Rightarrow> Inl UnexpectedResponse)))"

subsection \<open>Starting: \<^verbatim>\<open>server.rs\<close>\<close>

datatype node_effect =
    Registry_start nodeinfo
  | Registry_shutdown registry
  | Spawn_shutdown_task nat
  | Does effect

record server =
  server_socket :: nat
  server_registry :: registry
  server_notify_ready :: "nat option"
  server_handler :: "nat option"
  server_notify_shutdown :: nat

definition server_new ::
    "(string \<Rightarrow> 'e + nat) \<Rightarrow> nodeinfo \<Rightarrow> registry \<Rightarrow> nat \<Rightarrow> nat option \<Rightarrow> nat \<Rightarrow> 'e + server" where
  "server_new bind N reg ready handler shut =
     (case bind (bind_addr N) of
        Inl e \<Rightarrow> Inl e
      | Inr socket \<Rightarrow> Inr
          \<lparr>server_socket = socket, server_registry = reg, server_notify_ready = Some ready,
           server_handler = handler, server_notify_shutdown = shut\<rparr>)"

text \<open>A cast whose delivery is expected.\<close>

definition must_cast :: "(effect \<Rightarrow> bool) \<Rightarrow> effect \<Rightarrow> ('s, node_effect) act" where
  "must_cast delivers e = (if delivers e then emit (Does e) else abort Expect_failed)"

definition take_handler :: "(nat option \<Rightarrow> (server, node_effect) act) \<Rightarrow> (server, node_effect) act" where
  "take_handler f = with_state (\<lambda>s. then_do (modify (\<lambda>s. s\<lparr>server_handler := None\<rparr>)) (f (server_handler s)))"

definition server_run :: "(effect \<Rightarrow> bool) \<Rightarrow> (server, node_effect) act" where
  "server_run delivers = do_all [
     with_state (\<lambda>s. with_result (unwrap (server_notify_ready s)) (\<lambda>ready. do_all [
       modify (\<lambda>s. s\<lparr>server_notify_ready := None\<rparr>),
       must_cast delivers (Cast_peer_manager (SetNotify ready))])),
     take_handler (\<lambda>h1. take_handler (\<lambda>h2.
       must_cast delivers (Cast_packet_handler (SetBroadcastHandler h1 h2)))),
     with_state (\<lambda>s. must_cast delivers (Cast_packet_handler (Start (server_socket s)))),
     must_cast delivers (Cast_handshaker Bootstrap),
     must_cast delivers (Cast_peer_manager StartHeartbeats),
     with_state (\<lambda>s. emit (Spawn_shutdown_task (server_notify_shutdown s)))]"

text \<open>\<open>Gwyh::start\<close>: its effects, its result (a panic, an I/O error or the \<open>Notify\<close> for readiness) and the node after it.\<close>

definition start ::
    "(string \<Rightarrow> 'e + nat) \<Rightarrow> (effect \<Rightarrow> bool) \<Rightarrow> nat \<Rightarrow> gwyh \<Rightarrow> node_effect list \<times> ('e + nat) result \<times> gwyh" where
  "start bind delivers ready g =
     (let reg = \<lparr>registry_nodeinfo = gwyh_nodeinfo g\<rparr>;
          g1 = g\<lparr>gwyh_registry := Some reg\<rparr>;
          g2 = g1\<lparr>gwyh_handler := None\<rparr>
      in case server_new bind (gwyh_nodeinfo g2) reg ready (gwyh_handler g1) (notify_shutdown g2) of
           Inl e \<Rightarrow> ([Registry_start (gwyh_nodeinfo g)], Inr (Inl e), g2)
         | Inr srv \<Rightarrow>
             (case server_run delivers srv of
                (es, Inl p) \<Rightarrow> (Registry_start (gwyh_nodeinfo g) # es, Inl p, g2)
              | (es, Inr _) \<Rightarrow> (Registry_start (gwyh_nodeinfo g) # es, Inr (Inr ready), g2)))"

text \<open>The messages that effects put into the mailboxes of the three actors.\<close>

fun to_packet_handler :: "effect \<Rightarrow> packet_handler_message option" where
  "to_packet_handler (Cast_packet_handler m) = Some m"
| "to_packet_handler (Call_packet_handler m) = Some m"
| "to_packet_handler _ = None"

fun to_handshaker :: "effect \<Rightarrow> handshaker_message option" where
  "to_handshaker (Cast_handshaker m) = Some m"
| "to_handshaker (Call_handshaker m) = Some m"
| "to_handshaker _ = None"

fun to_peer_manager :: "effect \<Rightarrow> peer_manager_request option" where
  "to_peer_manager (Cast_peer_manager m) = Some m"
| "to_peer_manager (Call_peer_manager m) = Some m"
| "to_peer_manager _ = None"

text \<open>What the effects of starting a node do to the actors.\<close>

fun node_effect_of :: "node_effect \<Rightarrow> effect option" where
  "node_effect_of (Does e) = Some e"
| "node_effect_of _ = None"

definition mail :: "(effect \<Rightarrow> 'm option) \<Rightarrow> node_effect list \<Rightarrow> 'm list" where
  "mail to es = List.map_filter to (List.map_filter node_effect_of es)"

subsection \<open>Stopping\<close>

text \<open>\<open>Drop for Gwyh\<close>.\<close>

definition gwyh_drop :: "(gwyh, node_effect) act" where
  "gwyh_drop = with_state (\<lambda>g. do_all [
     emit (Does (Notify_one (notify_shutdown g))),
     with_result (unwrap (gwyh_registry g)) (\<lambda>reg. emit (Registry_shutdown reg))])"

text \<open>
  \<open>tokio\<close>'s \<open>Notify\<close>, with tasks that are named by numbers: \<open>notify_one\<close> also returns the task it wakes, and \<open>notified t\<close>
  is the first poll of \<open>notified().await\<close> by the task \<open>t\<close>, with whether it completes at once. The law is the
  documented one: a waiting task is woken, first come first served; if no task waits, a permit is stored, of which
  there is at most one, and the next \<open>notified\<close> takes it.
\<close>

record 'n notify_ops =
  notify_new :: 'n
  notify_one :: "'n \<Rightarrow> nat option \<times> 'n"
  notified :: "nat \<Rightarrow> 'n \<Rightarrow> bool \<times> 'n"
  has_permit :: "'n \<Rightarrow> bool"
  waiting_tasks :: "'n \<Rightarrow> nat list"

definition notify_law :: "'n notify_ops \<Rightarrow> bool" where
  "notify_law Y \<longleftrightarrow>
     \<not> has_permit Y (notify_new Y) \<and> waiting_tasks Y (notify_new Y) = [] \<and>
     (\<forall>n. case waiting_tasks Y n of
        [] \<Rightarrow> fst (notify_one Y n) = None \<and> has_permit Y (snd (notify_one Y n)) \<and>
              waiting_tasks Y (snd (notify_one Y n)) = []
      | t # ts \<Rightarrow> fst (notify_one Y n) = Some t \<and> waiting_tasks Y (snd (notify_one Y n)) = ts \<and>
              has_permit Y (snd (notify_one Y n)) = has_permit Y n) \<and>
     (\<forall>n t. fst (notified Y t n) = has_permit Y n \<and> \<not> has_permit Y (snd (notified Y t n)) \<and>
        waiting_tasks Y (snd (notified Y t n)) = waiting_tasks Y n @ (if has_permit Y n then [] else [t]))"

text \<open>The steps of \<open>Gwyh::shutdown\<close> and of the task that \<open>Server::run\<close> spawns.\<close>

datatype instr = Notify_op | Await_op | Call_shutdown_op | Registry_shutdown_op

definition shutdown_program :: "instr list" where
  "shutdown_program = [Notify_op, Await_op, Registry_shutdown_op]"

definition server_task :: "instr list" where
  "server_task = [Await_op, Call_shutdown_op, Notify_op]"

record 'n tasks =
  notifier :: 'n
  rest :: "nat \<Rightarrow> instr list"
  blocked :: "nat set"
  returned :: "instr list"

text \<open>One task runs until its next step is done; a task that waits is blocked until it is woken. \<open>returned\<close> are the calls that have returned.\<close>

inductive task_step :: "'n notify_ops \<Rightarrow> 'n tasks \<Rightarrow> 'n tasks \<Rightarrow> bool" for Y where
  notify: "t \<notin> blocked s \<Longrightarrow> rest s t = Notify_op # is \<Longrightarrow> notify_one Y (notifier s) = (w, n) \<Longrightarrow>
    task_step Y s (s\<lparr>notifier := n, rest := (rest s)(t := is), blocked := blocked s - set_option w\<rparr>)"
| await_ready: "t \<notin> blocked s \<Longrightarrow> rest s t = Await_op # is \<Longrightarrow> notified Y t (notifier s) = (True, n) \<Longrightarrow>
    task_step Y s (s\<lparr>notifier := n, rest := (rest s)(t := is)\<rparr>)"
| await_block: "t \<notin> blocked s \<Longrightarrow> rest s t = Await_op # is \<Longrightarrow> notified Y t (notifier s) = (False, n) \<Longrightarrow>
    task_step Y s (s\<lparr>notifier := n, rest := (rest s)(t := is), blocked := insert t (blocked s)\<rparr>)"
| call: "t \<notin> blocked s \<Longrightarrow> rest s t = i # is \<Longrightarrow> i = Call_shutdown_op \<or> i = Registry_shutdown_op \<Longrightarrow>
    task_step Y s (s\<lparr>rest := (rest s)(t := is), returned := returned s @ [i]\<rparr>)"

text \<open>Task 0 calls \<open>shutdown\<close>, task 1 is the server's. Just after \<open>start\<close> the latter may not have run yet.\<close>

abbreviation (input) caller :: nat where "caller \<equiv> 0"
abbreviation (input) server_tid :: nat where "server_tid \<equiv> 1"

definition shutdown_begin :: "'n notify_ops \<Rightarrow> 'n tasks" where
  "shutdown_begin Y =
     \<lparr>notifier = notify_new Y, rest = (\<lambda>_. [])(caller := shutdown_program, server_tid := server_task),
      blocked = {}, returned = []\<rparr>"

text \<open>The usual state when \<open>shutdown\<close> is called: the server's task waits.\<close>

definition shutdown_settled :: "'n notify_ops \<Rightarrow> 'n tasks" where
  "shutdown_settled Y = (shutdown_begin Y)
     \<lparr>notifier := snd (notified Y server_tid (notify_new Y)),
      rest := (\<lambda>_. [])(caller := shutdown_program, server_tid := tl server_task), blocked := {server_tid}\<rparr>"

end
