(* ===== verification/Peer_Manager_Props.thy ===== *)
theory Peer_Manager_Props
  imports Peer_Manager
begin

text \<open>
  The properties of the peer manager: it never panics and keeps its invariant; the packet handler, which only sees
  its effects, always has exactly the keys of the handshaken known peers and never misses a subscriber; what each
  request does to the tables; and which peers are chosen.
\<close>

subsection \<open>What the packet handler sees\<close>

definition see_keys :: "effect \<Rightarrow> keys \<Rightarrow> keys" where
  "see_keys e ks =
     (case e of
        Call_packet_handler m \<Rightarrow> (case m of KeysUpdated ks' \<Rightarrow> ks' | _ \<Rightarrow> ks)
      | Cast_packet_handler m \<Rightarrow> (case m of KeysUpdated ks' \<Rightarrow> ks' | _ \<Rightarrow> ks)
      | _ \<Rightarrow> ks)"

definition see_subscribers :: "effect \<Rightarrow> uuid list \<Rightarrow> uuid list" where
  "see_subscribers e ids =
     (case e of
        Call_packet_handler m \<Rightarrow> (case m of SubscribersUpdated ids' \<Rightarrow> ids' | _ \<Rightarrow> ids)
      | Cast_packet_handler m \<Rightarrow> (case m of SubscribersUpdated ids' \<Rightarrow> ids' | _ \<Rightarrow> ids)
      | _ \<Rightarrow> ids)"

text \<open>Peers from the wire have no key material.\<close>

definition pm_wire_legal :: "'r chooser \<times> inputs \<Rightarrow> peer_manager_request \<Rightarrow> bool" where
  "pm_wire_legal x m \<longleftrightarrow> pm_legal x m \<and>
     (case m of Request i r \<Rightarrow> (case r of Peers ps \<Rightarrow> \<forall>p \<in> set ps. \<not> is_handshaken p | _ \<Rightarrow> True)
      | _ \<Rightarrow> True)"

lemma see_keys_simps [simp]:
  "see_keys (Call_packet_handler (KeysUpdated k)) ks = k"
  "see_keys (Call_packet_handler (SendMessage i m)) ks = ks"
  "see_keys (Cast_packet_handler (SendMessage i m)) ks = ks"
  "see_keys (Cast_packet_handler (SubscribersUpdated ids)) ks = ks"
  "see_keys (Cast_packet_handler (BroadcastPeerStatus st)) ks = ks"
  "see_keys (Cast_handshaker hm) ks = ks"
  "see_keys (Notify_one n) ks = ks"
  by (simp_all add: see_keys_def)

lemma see_subscribers_simps [simp]:
  "see_subscribers (Call_packet_handler (KeysUpdated k)) ids = ids"
  "see_subscribers (Call_packet_handler (SendMessage i m)) ids = ids"
  "see_subscribers (Cast_packet_handler (SendMessage i m)) ids = ids"
  "see_subscribers (Cast_packet_handler (SubscribersUpdated ids')) ids = ids'"
  "see_subscribers (Cast_packet_handler (BroadcastPeerStatus st)) ids = ids"
  "see_subscribers (Cast_handshaker hm) ids = ids"
  "see_subscribers (Notify_one n) ids = ids"
  by (simp_all add: see_subscribers_def)

lemma fold_ignore: "(\<And>e. e \<in> set es \<Longrightarrow> \<forall>v. f e v = v) \<Longrightarrow> fold f es v = v"
  by (induction es) simp_all

lemma fold_see_subscribe [simp]:
  "fold see_keys (concat (map (subscribe_effect I m) kis)) ks = ks"
  "fold see_keys (map (unsubscribe_effect I) kis) ks = ks"
  "fold see_subscribers (concat (map (subscribe_effect I m) kis)) ids = ids"
  "fold see_subscribers (map (unsubscribe_effect I) kis) ids = ids"
  by (rule fold_ignore; auto simp: subscribe_effect_def unsubscribe_effect_def split: option.splits)+

lemma fold_see_sends [simp]:
  "fold see_keys (map (\<lambda>(k, i). Cast_packet_handler (SendMessage i (f k))) kis) ks = ks"
  "fold see_keys (map (\<lambda>(k, i). Call_packet_handler (SendMessage i (f k))) kis) ks = ks"
  "fold see_subscribers (map (\<lambda>(k, i). Cast_packet_handler (SendMessage i (f k))) kis) ids = ids"
  "fold see_subscribers (map (\<lambda>(k, i). Call_packet_handler (SendMessage i (f k))) kis) ids = ids"
  by (rule fold_ignore; auto)+

lemma keys_of_try_insert:
  assumes "\<forall>p \<in> set ps. \<not> is_handshaken p"
  shows "keys_of (fst (try_insert_peers ps m)) = keys_of m"
proof (rule ext)
  fix i
  show "keys_of (fst (try_insert_peers ps m)) i = keys_of m i"
    using assms
    by (auto simp: keys_of_def try_insert_peers_known is_handshaken_def
        split: option.splits dest!: find_SomeD)
qed

lemmas pm_request_eqs =
  add_peer_eq remove_peer_eq update_peers_eq start_subscription_eq reset_heartbeat_watchdog_eq

lemma handle_request_keys:
  assumes "pm_inv N s" and "order_law I"
    and "\<And>ps. r = Peers ps \<Longrightarrow> \<forall>p \<in> set ps. \<not> is_handshaken p"
    and "handle_request N I i r s = (es, Inr s')"
  shows "fold see_keys es (keys_of (known s)) = keys_of (known s')"
proof (cases r)
  case (PeerStatus st)
  with assms show ?thesis
    by (auto simp: act_simps then_do_def pm_request_eqs split: peer_state.splits if_splits)
next
  case (Peers ps)
  with assms(3) have "keys_of (fst (try_insert_peers ps (known s))) = keys_of (known s)"
    by (intro keys_of_try_insert) simp
  with assms(4) Peers show ?thesis
    by (auto simp: pm_request_eqs split: prod.splits if_splits)
next
  case SubscriptionStarted
  with assms(4) show ?thesis
    by (auto simp: act_simps then_do_def subscription_started_def pm_request_eqs split: option.splits)
qed (use assms(4) in \<open>auto simp: act_simps then_do_def pm_request_eqs Let_def end_subscription_def
      update_subscribers_def send_peerlist_def\<close>)

lemma handle_message_keys:
  assumes "pm_inv N s" and "pm_wire_legal x m"
    and "pm_handle_message (fst x) N (snd x) m s = (es, Inr s')"
  shows "fold see_keys es (keys_of (known s)) = keys_of (known s')"
proof (cases m)
  case (Request i r)
  with assms show ?thesis
    by (intro handle_request_keys [of N s "snd x" r i])
      (auto simp: pm_wire_legal_def pm_legal_def split: peer_request.splits)
next
  case Reassign
  with assms show ?thesis
    by (auto simp: reassign_def act_simps trigger_reassignment_eq pm_wire_legal_def pm_legal_def
        drop_subscriptions_def with_result_def split: sum.splits)
qed (use assms in \<open>auto simp: act_simps start_heartbeats_eq send_heartbeat_eq shutdown_eq\<close>)

lemma handle_request_subscribers:
  assumes "pm_inv N s" and "order_law I" and "subscribers s \<subseteq> set ids"
    and "handle_request N I i r s = (es, Inr s')"
  shows "subscribers s' \<subseteq> set (fold see_subscribers es ids)"
proof (cases r)
  case (PeerStatus st)
  with assms show ?thesis
    by (auto simp: act_simps then_do_def pm_request_eqs order_lawD split: peer_state.splits if_splits)
next
  case SubscriptionStarted
  with assms show ?thesis
    by (auto simp: act_simps then_do_def subscription_started_def pm_request_eqs split: option.splits)
next
  case (Peers ps)
  with assms show ?thesis by (auto simp: pm_request_eqs split: prod.splits if_splits)
qed (use assms in \<open>auto simp: act_simps then_do_def pm_request_eqs Let_def end_subscription_def
      update_subscribers_def send_peerlist_def order_lawD split: if_splits\<close>)

lemma handle_message_subscribers:
  assumes "pm_inv N s" and "pm_legal x m" and "subscribers s \<subseteq> set ids"
    and "pm_handle_message (fst x) N (snd x) m s = (es, Inr s')"
  shows "subscribers s' \<subseteq> set (fold see_subscribers es ids)"
proof (cases m)
  case (Request i r)
  with assms show ?thesis
    by (intro handle_request_subscribers [of N s "snd x" ids i r]) (auto simp: pm_legal_def)
next
  case Reassign
  with assms show ?thesis
    by (auto simp: reassign_def act_simps trigger_reassignment_eq pm_legal_def
        drop_subscriptions_def with_result_def split: sum.splits)
qed (use assms in \<open>auto simp: act_simps start_heartbeats_eq send_heartbeat_eq shutdown_eq\<close>)

interpretation pm_keys: mirrored_server peer_manager_new "\<lambda>x. pm_handle_message (fst x) N (snd x)"
    pm_wire_legal "pm_inv N" pm_allowed False see_keys Map.empty "\<lambda>ks s. ks = keys_of (known s)"
  for N
proof unfold_locales
  show "pm_inv N peer_manager_new" by (rule pm_inv_init)
  show "Map.empty = keys_of (known peer_manager_new)"
    by (simp add: keys_of_def peer_manager_new_def fun_eq_iff)
next
  fix x :: "'a chooser \<times> inputs" and m s
  assume legal: "pm_wire_legal x m" and inv: "pm_inv N s"
  then show "wp False pm_allowed (pm_handle_message (fst x) N (snd x) m) (pm_inv N) s"
    by (intro pm.handle_wp) (simp_all add: pm_wire_legal_def)
  show "fold see_keys es ks = keys_of (known s')"
    if "ks = keys_of (known s)" "pm_handle_message (fst x) N (snd x) m s = (es, Inr s')" for ks es s'
    using handle_message_keys [OF inv legal that(2)] that(1) by simp
qed

interpretation pm_subs: mirrored_server peer_manager_new "\<lambda>x. pm_handle_message (fst x) N (snd x)"
    pm_legal "pm_inv N" pm_allowed False see_subscribers "[]" "\<lambda>ids s. subscribers s \<subseteq> set ids"
  for N
proof unfold_locales
  show "subscribers peer_manager_new \<subseteq> set []" by (simp add: peer_manager_new_def)
qed (rule handle_message_subscribers)

subsection \<open>Runs of the peer manager\<close>


lemma sample_legal [simp]: "pm_legal (sample_chooser, sample_inputs) m"
  by (simp add: pm_legal_def)


text \<open>
  C20. The packet handler's keys are those of the handshaken known peers: starting from no keys and taking the
  \<open>KeysUpdated\<close> calls that the peer manager makes in any run in which peer lists come from the wire, the packet
  handler ends with exactly one entry per known peer that has completed a handshake, with that peer's address, our
  key pair and its public key.
\<close>

theorem packet_handler_keys_refine_known:
  assumes "\<forall>(x, m) \<in> set ms. pm_wire_legal x m"
    and "run (\<lambda>x. pm_handle_message (fst x) N (snd x)) ms peer_manager_new = (es, Inr s)"
  shows "fold see_keys es Map.empty = keys_of (known s)"
  by (rule pm_keys.run_rel [OF assms])

lemma keys_of_singleton:
  "is_handshaken p \<Longrightarrow> keys_of [i \<mapsto> p] =
     [i \<mapsto> (peer_sockaddr p, the (our_keypair p), the (their_public_key p))]"
  by (auto simp: keys_of_def is_handshaken_def fun_eq_iff)

lemma sample_run_up:
  "run (\<lambda>x. pm_handle_message (fst x) (sample_node st) (snd x))
     [((C, sample_inputs), Request 1 (PeerStatus \<lparr>status_peer = sample_peer 2, status_state = Up\<rparr>))]
     peer_manager_new =
   ([Call_packet_handler (KeysUpdated (keys_of [2 \<mapsto> sample_peer 2])),
     Cast_packet_handler (BroadcastPeerStatus \<lparr>status_peer = sample_peer 2, status_state = Up\<rparr>)],
    Inr (arm_reassign (sample_node st) sample_inputs (peer_manager_new\<lparr>known := [2 \<mapsto> sample_peer 2]\<rparr>)))"
  by (simp add: act_simps then_do_def add_peer_eq peer_manager_new_def last_write_def sample_node_def)

theorem packet_handler_keys_refine_known_witness:
  "fold see_keys
     [Call_packet_handler (KeysUpdated (keys_of [2 \<mapsto> sample_peer 2])),
      Cast_packet_handler (BroadcastPeerStatus \<lparr>status_peer = sample_peer 2, status_state = Up\<rparr>)] Map.empty
   = [2 \<mapsto> (sample_addr, sample_keypair, replicate 32 9)]"
  using packet_handler_keys_refine_known [OF _ sample_run_up [of Uniform sample_chooser]]
  by (simp add: pm_wire_legal_def keys_of_singleton) (simp add: sample_peer_def peer_new_def)

text \<open>
  C21. The packet handler never misses a subscriber: in every run, the subscriber list it was last sent contains every
  current subscriber of the peer manager.
\<close>

theorem packet_handler_sees_every_subscriber:
  assumes "\<forall>(x, m) \<in> set ms. pm_legal x m"
    and "run (\<lambda>x. pm_handle_message (fst x) N (snd x)) ms peer_manager_new = (es, Inr s)"
  shows "subscribers s \<subseteq> set (fold see_subscribers es [])"
  by (rule pm_subs.run_rel [OF assms])

lemma sample_run_subscribe:
  "run (\<lambda>x. pm_handle_message (fst x) (sample_node st) (snd x))
     [((C, sample_inputs), Request 7 (PeerStatus \<lparr>status_peer = sample_peer 2, status_state = Up\<rparr>)),
      ((C, sample_inputs), Request 2 StartSubscription)] peer_manager_new =
   ([Call_packet_handler (KeysUpdated (keys_of [2 \<mapsto> sample_peer 2])),
     Cast_packet_handler (SubscribersUpdated [2]),
     Cast_packet_handler (SendMessage 2 (peer_message 1000 SubscriptionStarted))],
    Inr ((arm_reassign (sample_node st) sample_inputs (peer_manager_new\<lparr>known := [2 \<mapsto> sample_peer 2]\<rparr>))
      \<lparr>subscribers := {2}, heartbeat := Some (interval_new 5000 (Future_cast_peer_manager SendHeartbeat))\<rparr>))"
  by (simp add: act_simps then_do_def add_peer_eq start_subscription_eq heartbeat_of_def
      peer_manager_new_def last_write_def sample_node_def HEARTBEAT_INTERVAL_MILLIS_def)
    (simp add: sample_inputs_def)

theorem packet_handler_sees_every_subscriber_witness:
  "{2} \<subseteq> set (fold see_subscribers
     [Call_packet_handler (KeysUpdated (keys_of [2 \<mapsto> sample_peer 2])),
      Cast_packet_handler (SubscribersUpdated [2]),
      Cast_packet_handler (SendMessage 2 (peer_message 1000 SubscriptionStarted))] [])"
  using packet_handler_sees_every_subscriber [OF _ sample_run_subscribe [of Uniform sample_chooser]] by simp

lemma try_insert_peers_none:
  "snd (try_insert_peers ps m) = 0 \<longleftrightarrow> fst (try_insert_peers ps m) = m"
proof (induction ps arbitrary: m)
  case (Cons p ps)
  show ?case
  proof (cases "m (peer_id p)")
    case None
    then have "fst (try_insert_peers (p # ps) m) (peer_id p) = Some p"
      by (simp only: try_insert_peers_known) simp
    then have "fst (try_insert_peers (p # ps) m) \<noteq> m" using None by auto
    with None show ?thesis by (simp add: try_insert_def split: prod.splits)
  next
    case (Some q)
    with Cons.IH [of m] show ?thesis by (simp add: try_insert_def split: prod.splits)
  qed
qed simp

subsection \<open>Peer status updates\<close>

text \<open>A peer as the program builds them: its handshake time is set exactly if it has keys.\<close>

definition peer_wf :: "peer \<Rightarrow> bool" where
  "peer_wf p \<longleftrightarrow> (is_handshaken p \<longleftrightarrow> handshake_timestamp p \<noteq> None)"

text \<open>
  C22. Last write wins for peer keys. An \<open>Up\<close> status for any peer never loses or rolls back the keys of a known,
  handshaken peer \<open>q\<close>: \<open>q\<close> stays unless the new entry is a handshake of the same peer with a strictly later time, and
  in particular an \<open>Up\<close> status that came over the wire (without keys) never replaces it.
\<close>

theorem add_peer_last_write_wins:
  assumes "order_law I" and "known_ok (known s)"
    and "known s i = Some q" and "is_handshaken q" and "peer_wf q" and "peer_wf p"
    and "handle_request N I from (PeerStatus \<lparr>status_peer = p, status_state = Up\<rparr>) s = (es, Inr s')"
  shows "known s' i = Some q \<or>
    (known s' i = Some p \<and> peer_id p = i \<and> is_handshaken p \<and>
     the (handshake_timestamp q) < the (handshake_timestamp p))"
  using assms
  by (auto simp: act_simps then_do_def add_peer_eq last_write_def peer_wf_def split: option.splits if_splits)

theorem add_peer_last_write_wins_witness:
  "known (arm_reassign (sample_node Uniform) sample_inputs
      (peer_manager_new\<lparr>known := [2 \<mapsto> sample_peer 2]\<rparr>)) 2 = Some (sample_peer 2)"
proof -
  let ?s = "peer_manager_new\<lparr>known := [2 \<mapsto> sample_peer 2]\<rparr>"
  have wf: "peer_wf (sample_peer 2)" "peer_wf (wire_peer (sample_peer 2))"
    by (simp_all add: peer_wf_def) (simp add: wire_peer_def)
  have ok: "known_ok (known ?s)" by (simp add: known_ok_def)
  have "handle_request (sample_node Uniform) sample_inputs 3
      (PeerStatus \<lparr>status_peer = wire_peer (sample_peer 2), status_state = Up\<rparr>) ?s
    = ([Call_packet_handler (KeysUpdated (keys_of [2 \<mapsto> sample_peer 2]))],
       Inr (arm_reassign (sample_node Uniform) sample_inputs ?s))"
    using ok by (simp add: act_simps then_do_def add_peer_eq last_write_def sample_node_def wire_peer_def
        is_handshaken_def)
  from add_peer_last_write_wins [OF _ ok _ _ wf(1) wf(2) this, of 2] show ?thesis by simp
qed

text \<open>
  C23. A \<open>Down\<close> status removes the peer everywhere: it is no longer known, subscribed to, a subscriber or watched, the
  keys then sent to the packet handler do not contain it, and every other peer is left as it was.
\<close>

theorem remove_peer_removes:
  assumes "order_law I" and "known_ok (known s)"
    and "handle_request N I from (PeerStatus \<lparr>status_peer = p, status_state = Down\<rparr>) s = (es, Inr s')"
  shows "known s' = (known s)(peer_id p := None) \<and>
    subscribed_to s' = subscribed_to s - {peer_id p} \<and>
    subscribers s' = subscribers s - {peer_id p} \<and>
    heartbeat_watchdogs s' = (heartbeat_watchdogs s)(peer_id p := None) \<and>
    fold see_keys es ks = (keys_of (known s))(peer_id p := None)"
proof -
  have "keys_of ((known s)(peer_id p := None)) = (keys_of (known s))(peer_id p := None)"
    by (rule ext) (simp add: keys_of_def)
  with assms show ?thesis
    by (auto simp: act_simps then_do_def remove_peer_eq split: if_splits)
qed

definition sample_pm :: peer_manager where
  "sample_pm = peer_manager_new
     \<lparr>known := [2 \<mapsto> sample_peer 2, 3 \<mapsto> sample_peer 3], subscribers := {2}, subscribed_to := {2}\<rparr>"

lemma sample_pm_ok [simp]: "known_ok (known sample_pm)" "pm_inv N sample_pm"
  by (auto simp: sample_pm_def known_ok_def pm_inv_def peer_manager_new_def)

lemma sample_down:
  "handle_request (sample_node Uniform) sample_inputs 1
     (PeerStatus \<lparr>status_peer = sample_peer 2, status_state = Down\<rparr>) sample_pm =
   ([Cast_packet_handler (SubscribersUpdated [2]),
     Call_packet_handler (KeysUpdated (keys_of [3 \<mapsto> sample_peer 3])),
     Cast_packet_handler (BroadcastPeerStatus \<lparr>status_peer = sample_peer 2, status_state = Down\<rparr>)],
    Inr (arm_reassign (sample_node Uniform) sample_inputs
      (peer_manager_new\<lparr>known := [3 \<mapsto> sample_peer 3]\<rparr>)))"
proof -
  have "[2 :: uuid \<mapsto> sample_peer 2, 3 \<mapsto> sample_peer 3](2 := None) = [3 \<mapsto> sample_peer 3]"
    by (auto simp: fun_eq_iff)
  then show ?thesis
    by (simp add: act_simps then_do_def remove_peer_eq)
      (simp add: sample_pm_def sample_node_def peer_manager_new_def)
qed

theorem remove_peer_removes_witness:
  "fold see_keys
     [Cast_packet_handler (SubscribersUpdated [2]),
      Call_packet_handler (KeysUpdated (keys_of [3 \<mapsto> sample_peer 3])),
      Cast_packet_handler (BroadcastPeerStatus \<lparr>status_peer = sample_peer 2, status_state = Down\<rparr>)]
     Map.empty = (keys_of (known sample_pm))(2 := None)"
  using remove_peer_removes [OF sample_order_law sample_pm_ok(1) sample_down, of Map.empty]
  unfolding sample_peer_simps by blast

text \<open>
  \<open>remove_peer\<close> tells the packet handler its subscribers before it removes the peer from them: when a current
  subscriber goes down, the list the packet handler is left with still contains it, although the peer manager no
  longer counts it as a subscriber.
\<close>

theorem remove_peer_leaves_stale_subscriber:
  assumes "order_law I" and "known_ok (known s)" and "peer_id p \<in> subscribers s"
    and "handle_request N I from (PeerStatus \<lparr>status_peer = p, status_state = Down\<rparr>) s = (es, Inr s')"
  shows "peer_id p \<in> set (fold see_subscribers es ids) \<and> peer_id p \<notin> subscribers s'"
  using assms by (auto simp: act_simps then_do_def remove_peer_eq order_lawD split: if_splits)

text \<open>
  Receiving a peer list only adds: no known peer is changed, each unknown id is added as the first peer of
  the list with that id, and the reassignment timer is (re)started exactly if something was added and there are
  fewer subscriptions than configured. Nothing else changes.
\<close>

theorem update_peers_only_adds:
  "\<exists>s'. handle_request N I from (Peers ps) s = ([], Inr s') \<and>
     (\<forall>i. known s' i = (case known s i of Some p \<Rightarrow> Some p | None \<Rightarrow> find (\<lambda>p. peer_id p = i) ps)) \<and>
     s' = (if known s' = known s then s else arm_reassign N I (s\<lparr>known := known s'\<rparr>))"
proof -
  obtain m n where mn: "try_insert_peers ps (known s) = (m, n)" by force
  with try_insert_peers_none [of ps "known s"] have n: "0 < n \<longleftrightarrow> m \<noteq> known s" by auto
  have "m i = (case known s i of Some p \<Rightarrow> Some p | None \<Rightarrow> find (\<lambda>p. peer_id p = i) ps)" for i
    using try_insert_peers_known [of ps "known s" i] mn by simp
  with mn n show ?thesis by (simp add: update_peers_eq) metis
qed

subsection \<open>Reassignment\<close>

text \<open>
  C24. Reassignment moves the subscriptions towards the chosen set \<open>X\<close>. For every newly chosen peer, in the
  iteration order, it either sends \<open>StartSubscription\<close> (if the peer is handshaken) or asks the handshaker to
  say hello and subscribe afterwards; then it sends \<open>EndSubscription\<close> to every peer that is no longer chosen. Only the
  latter change the state: the dropped peers leave \<open>subscribed_to\<close> and lose their watchdogs.
\<close>

theorem reassign_moves_to_choice:
  assumes "order_law I" and "choose_peers C N I s = Inr X"
  shows "pm_handle_message C N I Reassign s =
    (concat (map (subscribe_effect I (known s)) (enumerate 0 (id_order I (X - subscribed_to s)))) @
     map (unsubscribe_effect I)
       (enumerate (card (X - subscribed_to s)) (id_order I (subscribed_to s - X))),
     Inr (s\<lparr>subscribed_to := subscribed_to s \<inter> X,
       heartbeat_watchdogs := heartbeat_watchdogs s |` (- (subscribed_to s - X))\<rparr>))"
proof -
  have "subscribed_to s - (subscribed_to s - X) = subscribed_to s \<inter> X" by auto
  with assms show ?thesis
    by (simp add: reassign_def act_simps trigger_reassignment_eq drop_subscriptions_def)
qed

text \<open>The peers that may be chosen: all known ones but this node.\<close>

definition candidates :: "nodeinfo \<Rightarrow> peer_manager \<Rightarrow> uuid set" where
  "candidates N s = dom (known s) - {node_id N}"

lemma candidate_list:
  fixes N :: nodeinfo
  assumes "order_law I" and "known_ok (known s)"
  defines "ps \<equiv> filter (\<lambda>p. peer_id p \<noteq> node_id N) (known_values I s)"
  shows "set (map peer_id ps) = candidates N s" "distinct (map peer_id ps)" "length ps = card (candidates N s)"
    "set ps = {p \<in> ran (known s). peer_id p \<noteq> node_id N}"
proof -
  have "set (map peer_id (known_values I s)) = dom (known s)"
    by (simp only: map_peer_id_known_values [OF assms(1,2)] order_lawD(1) [OF assms(1)])
  then show S: "set (map peer_id ps) = candidates N s"
    unfolding ps_def candidates_def by auto
  show D: "distinct (map peer_id ps)"
    unfolding ps_def by (rule distinct_map_filter [OF distinct_known_values(2) [OF assms(1,2)]])
  show "length ps = card (candidates N s)"
    using distinct_card [OF D] S by simp
  show "set ps = {p \<in> ran (known s). peer_id p \<noteq> node_id N}"
    by (simp add: ps_def set_known_values [OF assms(1)])
qed

lemma sample_ids:
  assumes "sample_of ps n qs" and "distinct (map peer_id ps)"
  shows "peer_id ` set qs \<subseteq> peer_id ` set ps" "card (peer_id ` set qs) = min n (length ps)"
proof -
  show "peer_id ` set qs \<subseteq> peer_id ` set ps" using sample_ofD(1) [OF assms(1)] by blast
  have inj: "inj_on peer_id (set ps)" and d: "distinct ps" using assms(2) by (simp_all add: distinct_map)
  have "distinct qs" by (rule sample_ofD(3) [OF assms(1) d])
  moreover have "inj_on peer_id (set qs)" using inj sample_ofD(1) [OF assms(1)] by (rule inj_on_subset)
  ultimately show "card (peer_id ` set qs) = min n (length ps)"
    using sample_ofD(2) [OF assms(1)] by (simp add: card_image distinct_card)
qed

lemma choose_weighted_ids:
  assumes "chooser_law C" and "0 < a" and "0 < b" and "distinct (map peer_id ps)"
  shows "\<exists>ys. choose_multiple_weighted C r ps n (\<lambda>p. if c p then a else b) = Some ys \<and>
    peer_id ` set ys \<subseteq> peer_id ` set ps \<and> card (peer_id ` set ys) = min n (length ps)"
  using choose_weighted [OF assms(1-3), of r ps n c] sample_ids [OF _ assms(4)] by metis

text \<open>
  C25. With every strategy but \<open>HubAndSpoke\<close>, \<open>choose_peers\<close> returns known peers only, never this node, and exactly as
  many as configured, or all of them if fewer are known.
\<close>

theorem choose_peers_exact_count:
  assumes "chooser_law C" and "order_law I" and "known_ok (known s)" and "strategy N \<noteq> HubAndSpoke"
  shows "\<exists>X. choose_peers C N I s = Inr X \<and> X \<subseteq> candidates N s \<and>
    card X = min (peer_subscriptions N) (card (candidates N s))"
proof -
  let ?rng = "seed_from_u64 C (snd (as_u64_pair C (node_id N)))"
  let ?n = "peer_subscriptions N"
  let ?ps = "filter (\<lambda>p. peer_id p \<noteq> node_id N) (known_values I s)"
  note ps = candidate_list [OF assms(2,3), where N = N]
  note weighted = choose_weighted_ids [OF assms(1) _ _ ps(2), where n = ?n and r = ?rng]
  show ?thesis
  proof (cases "strategy N")
    case Uniform
    let ?ids = "fst (choose_multiple C ?rng (map peer_id ?ps) ?n)"
    have smp: "sample_of (map peer_id ?ps) ?n ?ids" by (rule chooser_lawD(1) [OF assms(1)])
    from sample_ofD(1) [OF smp] ps(1) have "set ?ids \<subseteq> candidates N s" by simp
    moreover have "card (set ?ids) = min ?n (card (candidates N s))"
      using sample_ofD(2,3) [OF smp] ps(2,3) by (simp add: distinct_card)
    ultimately show ?thesis by (simp add: choose_peers_def Uniform Let_def)
  next
    case PreferLocal
    then show ?thesis
      using weighted [of 2 1 "\<lambda>p. peer_zone p = node_zone N"] ps(1,3)
      by (auto simp: choose_peers_def Let_def)
  next
    case PreferRemote
    then show ?thesis
      using weighted [of 1 2 "\<lambda>p. peer_zone p = node_zone N"] ps(1,3)
      by (auto simp: choose_peers_def Let_def)
  qed (use assms(4) in simp)
qed

theorem choose_peers_exact_count_witness:
  "\<exists>X. choose_peers sample_chooser (sample_node PreferLocal) sample_inputs sample_pm = Inr X \<and>
     X \<subseteq> candidates (sample_node PreferLocal) sample_pm \<and>
     card X = min 2 (card (candidates (sample_node PreferLocal) sample_pm))"
  using choose_peers_exact_count [OF sample_chooser_law sample_order_law sample_pm_ok(1),
      of "sample_node PreferLocal"]
  by (simp add: sample_node_def)

theorem reassign_moves_to_choice_witness:
  "pm_handle_message sample_chooser (sample_node Uniform) sample_inputs Reassign sample_pm =
     ([Cast_packet_handler (SendMessage 3 (peer_message 1000 StartSubscription))], Inr sample_pm)"
proof -
  have X: "choose_peers sample_chooser (sample_node Uniform) sample_inputs sample_pm = Inr {2, 3}"
    by (simp add: choose_peers_def sample_node_def sample_chooser_def known_values_def sample_pm_def
        List.map_filter_def)
  show ?thesis
    using reassign_moves_to_choice [OF sample_order_law X]
    by (simp add: sample_pm_def peer_manager_new_def subscribe_effect_def)
      (simp add: sample_inputs_def insert_commute)
qed

subsection \<open>The hub-and-spoke strategy\<close>

definition zone_runs :: "nodeinfo \<Rightarrow> inputs \<Rightarrow> peer_manager \<Rightarrow> peer list list" where
  "zone_runs N I s = chunk_by (\<lambda>a b. peer_zone a = peer_zone b)
     (filter (\<lambda>p. peer_zone p \<noteq> node_zone N)
       (filter (\<lambda>p. peer_id p \<noteq> node_id N) (known_values I s)))"

definition in_zone :: "peer_manager \<Rightarrow> string option \<Rightarrow> uuid \<Rightarrow> bool" where
  "in_zone s z i \<longleftrightarrow> (\<exists>p. known s i = Some p \<and> peer_zone p = z)"

lemma choose_from_zones_one_each:
  assumes "chooser_law C" and "\<And>c. c \<in> set zones \<Longrightarrow> c \<noteq> []"
  shows "list_all2 (\<lambda>i c. i \<in> peer_id ` set c) (fst (choose_from_zones C r zones)) zones"
  using assms(2)
proof (induction zones arbitrary: r)
  case (Cons c zones)
  let ?ids = "fst (choose_multiple C r (map peer_id c) 1)"
  have smp: "sample_of (map peer_id c) 1 ?ids" by (rule chooser_lawD(1) [OF assms(1)])
  from Cons.prems have "c \<noteq> []" by simp
  then have "length ?ids = 1"
    using sample_ofD(2) [OF smp] by (cases c) simp_all
  then obtain i where i: "?ids = [i]" by (auto simp: length_Suc_conv)
  with sample_ofD(1) [OF smp] have "i \<in> peer_id ` set c" by simp
  moreover obtain r' where "choose_multiple C r (map peer_id c) 1 = ([i], r')"
    using i by (metis prod.collapse)
  moreover have "list_all2 (\<lambda>i c. i \<in> peer_id ` set c) (fst (choose_from_zones C r' zones)) zones"
    using Cons by simp
  ultimately show ?case by (simp split: prod.splits) auto
qed simp

lemma choose_peers_hub:
  assumes "strategy N = HubAndSpoke" and "chooser_law C"
  obtains remote_ids local_ids r where
    "choose_peers C N I s = Inr (set (local_ids @ remote_ids))"
    "list_all2 (\<lambda>i c. i \<in> peer_id ` set c) remote_ids (zone_runs N I s)"
    "sample_of (map peer_id (filter (\<lambda>p. peer_zone p = node_zone N)
       (filter (\<lambda>p. peer_id p \<noteq> node_id N) (known_values I s))))
       (peer_subscriptions N - length remote_ids) local_ids"
proof -
  let ?rng = "seed_from_u64 C (snd (as_u64_pair C (node_id N)))"
  let ?ps = "filter (\<lambda>p. peer_id p \<noteq> node_id N) (known_values I s)"
  obtain ids r where z: "choose_from_zones C ?rng (zone_runs N I s) = (ids, r)" by force
  have one: "list_all2 (\<lambda>i c. i \<in> peer_id ` set c) ids (zone_runs N I s)"
    using choose_from_zones_one_each [OF assms(2), of "zone_runs N I s" ?rng] z chunk_by_nonempty
    by (fastforce simp: zone_runs_def)
  let ?local = "filter (\<lambda>p. peer_zone p = node_zone N) ?ps"
  let ?lids = "fst (choose_multiple C r (map peer_id ?local) (peer_subscriptions N - length ids))"
  have "choose_peers C N I s = Inr (set (?lids @ ids))"
    using z by (simp add: choose_peers_def assms(1) Let_def zone_runs_def o_def)
  moreover have "sample_of (map peer_id ?local) (peer_subscriptions N - length ids) ?lids"
    by (rule chooser_lawD(1) [OF assms(2)])
  ultimately show ?thesis using one that by blast
qed

lemma zone_run_member:
  assumes "order_law I" and "known_ok (known s)" and "c \<in> set (zone_runs N I s)" and "q \<in> set c"
  shows "known s (peer_id q) = Some q" "peer_id q \<in> candidates N s" "peer_zone q = peer_zone (hd c)"
proof -
  from assms(3,4) have "q \<in> set (concat (zone_runs N I s))" by auto
  then have "q \<in> ran (known s)" "peer_id q \<noteq> node_id N"
    by (simp_all add: zone_runs_def set_known_values [OF assms(1)])
  with assms(2) show "known s (peer_id q) = Some q" "peer_id q \<in> candidates N s"
    by (auto simp: ran_def known_ok_def candidates_def)
  show "peer_zone q = peer_zone (hd c)"
    using assms(3,4) unfolding zone_runs_def by (rule chunk_by_key)
qed

lemma zone_run_exists:
  assumes "order_law I" and "known_ok (known s)"
    and "i \<in> candidates N s" and "known s i = Some p" and "peer_zone p \<noteq> node_zone N"
  shows "\<exists>c \<in> set (zone_runs N I s). p \<in> set c"
proof -
  from assms have "p \<in> set (concat (zone_runs N I s))"
    by (auto simp: zone_runs_def set_known_values candidates_def ran_def known_ok_def)
  then show ?thesis by simp
qed

text \<open>
  C32. With \<open>HubAndSpoke\<close>, \<open>choose_peers\<close> returns known peers only, never this node, and at least one peer of every
  remote zone that has a known peer, so that no zone is cut off.
\<close>

theorem hub_and_spoke_covers_zones:
  assumes "strategy N = HubAndSpoke" and "chooser_law C" and "order_law I" and "known_ok (known s)"
  shows "\<exists>X. choose_peers C N I s = Inr X \<and> X \<subseteq> candidates N s \<and>
    (\<forall>i z. i \<in> candidates N s \<and> in_zone s z i \<and> z \<noteq> node_zone N \<longrightarrow> (\<exists>j \<in> X. in_zone s z j))"
proof -
  obtain rids lids where X: "choose_peers C N I s = Inr (set (lids @ rids))"
    and one: "list_all2 (\<lambda>i c. i \<in> peer_id ` set c) rids (zone_runs N I s)"
    and smp: "sample_of (map peer_id (filter (\<lambda>p. peer_zone p = node_zone N)
       (filter (\<lambda>p. peer_id p \<noteq> node_id N) (known_values I s))))
       (peer_subscriptions N - length rids) lids"
    by (rule choose_peers_hub [OF assms(1,2), of I s])
  note member = zone_run_member [OF assms(3,4), where N = N]
  have "set lids \<subseteq> candidates N s"
    using sample_ofD(1) [OF smp] candidate_list(1) [OF assms(3,4), where N = N] by fastforce
  moreover have "set rids \<subseteq> candidates N s"
    using list_all2_leftD [OF one] member(2) by fastforce
  moreover have "\<exists>j \<in> set rids. in_zone s z j"
    if "i \<in> candidates N s" "in_zone s z i" "z \<noteq> node_zone N" for i z
  proof -
    from that obtain p c where p: "known s i = Some p" "peer_zone p = z"
      and c: "c \<in> set (zone_runs N I s)" "p \<in> set c"
      using zone_run_exists [OF assms(3,4)] unfolding in_zone_def by metis
    obtain q where q: "q \<in> set c" "peer_id q \<in> set rids"
      using list_all2_rightD [OF one c(1)] by auto
    have "in_zone s z (peer_id q)"
      using member(1,3) [OF c(1) q(1)] member(3) [OF c] p(2) by (simp add: in_zone_def)
    with q(2) show ?thesis by blast
  qed
  ultimately show ?thesis
    using X by (intro exI [of _ "set (lids @ rids)"]) (simp, blast)
qed

definition zoned_peer :: "uuid \<Rightarrow> string \<Rightarrow> peer" where
  "zoned_peer i z = (sample_peer i)\<lparr>peer_zone := Some z\<rparr>"

definition zoned_pm :: peer_manager where
  "zoned_pm = peer_manager_new
     \<lparr>known := [2 \<mapsto> zoned_peer 2 ''east'', 3 \<mapsto> zoned_peer 3 ''west'', 4 \<mapsto> zoned_peer 4 ''east'']\<rparr>"

lemma zoned_pm_choice:
  "choose_peers sample_chooser (sample_node HubAndSpoke) sample_inputs zoned_pm = Inr {2, 3, 4}"
  by (simp add: choose_peers_def sample_node_def sample_chooser_def known_values_def zoned_pm_def
      zoned_peer_def List.map_filter_def insert_commute)

theorem hub_and_spoke_covers_zones_witness:
  "\<exists>j \<in> {2, 3, 4}. in_zone zoned_pm (Some ''west'') j"
proof -
  have ok: "known_ok (known zoned_pm)"
    by (auto simp: known_ok_def zoned_pm_def zoned_peer_def)
  have "3 \<in> candidates (sample_node HubAndSpoke) zoned_pm \<and> in_zone zoned_pm (Some ''west'') 3 \<and>
      Some ''west'' \<noteq> node_zone (sample_node HubAndSpoke)"
    by (simp add: candidates_def zoned_pm_def zoned_peer_def in_zone_def sample_node_def)
  then show ?thesis
    using hub_and_spoke_covers_zones [OF _ sample_chooser_law sample_order_law ok,
        of "sample_node HubAndSpoke"]
    by (force simp: zoned_pm_choice sample_node_def)
qed

text \<open>
  \<open>HubAndSpoke\<close> chooses one peer per run of equal zones in the iteration order of the known peers, not one
  per zone: with three known peers whose zones come in the order east, west, east, it chooses both peers of the zone
  east, and three peers in all where two are configured.
\<close>

theorem hub_and_spoke_two_peers_of_one_zone:
  "\<exists>X. choose_peers sample_chooser (sample_node HubAndSpoke) sample_inputs zoned_pm = Inr X \<and>
     2 \<in> X \<and> 4 \<in> X \<and> in_zone zoned_pm (Some ''east'') 2 \<and> in_zone zoned_pm (Some ''east'') 4 \<and>
     peer_subscriptions (sample_node HubAndSpoke) < card X"
proof -
  have "in_zone zoned_pm (Some ''east'') 2" "in_zone zoned_pm (Some ''east'') 4"
    by (simp_all add: in_zone_def zoned_pm_def zoned_peer_def)
  moreover have "peer_subscriptions (sample_node HubAndSpoke) < card {2, 3, 4 :: uuid}"
    by (simp add: sample_node_def)
  ultimately show ?thesis by (simp add: zoned_pm_choice)
qed

subsection \<open>Subscriptions, heartbeats and watchdogs\<close>

text \<open>
  A \<open>StartSubscription\<close> from \<open>i\<close> makes \<open>i\<close> a subscriber exactly if it is a known peer, tells the packet handler the new
  subscribers, makes sure heartbeats are running, and is acknowledged in either case.
\<close>

theorem start_subscription_effect:
  "\<exists>s'. handle_request N I i StartSubscription s =
     ([Cast_packet_handler (SubscribersUpdated (id_order I (subscribers s'))),
       Cast_packet_handler (SendMessage i (peer_message (new_v4 I 0) SubscriptionStarted))], Inr s') \<and>
     (i \<in> subscribers s' \<longleftrightarrow> known s i \<noteq> None) \<and>
     subscribers s' - {i} = subscribers s - {i} \<and> heartbeat s' \<noteq> None \<and>
     known s' = known s \<and> subscribed_to s' = subscribed_to s"
  by (auto simp: start_subscription_eq Let_def)

definition watchdogs_subscribed :: "peer_manager \<Rightarrow> bool" where
  "watchdogs_subscribed s \<longleftrightarrow> (\<forall>i d. heartbeat_watchdogs s i = Some d \<longrightarrow> i \<in> subscribed_to s)"

definition pm_live_legal :: "'r chooser \<times> inputs \<Rightarrow> peer_manager_request \<Rightarrow> bool" where
  "pm_live_legal x m \<longleftrightarrow> pm_legal x m \<and> m \<noteq> Shutdown"

lemma handle_request_watchdogs:
  assumes "pm_inv N s" and "order_law I" and "watchdogs_subscribed s"
    and "handle_request N I i r s = (es, Inr s')"
  shows "watchdogs_subscribed s'"
proof (cases r)
  case (PeerStatus st)
  with assms show ?thesis
    by (auto simp: act_simps then_do_def pm_request_eqs watchdogs_subscribed_def
        split: peer_state.splits if_splits)
next
  case SubscriptionStarted
  with assms show ?thesis
    by (auto simp: act_simps then_do_def subscription_started_def pm_request_eqs watchdogs_subscribed_def
        split: option.splits if_splits)
next
  case (Peers ps)
  with assms show ?thesis
    by (auto simp: pm_request_eqs watchdogs_subscribed_def split: prod.splits if_splits)
qed (use assms in \<open>auto simp: act_simps then_do_def pm_request_eqs Let_def end_subscription_def
      update_subscribers_def send_peerlist_def watchdogs_subscribed_def split: if_splits\<close>)

lemma watchdogs_drop [simp]: "watchdogs_subscribed s \<Longrightarrow> watchdogs_subscribed (drop_subscriptions R s)"
  by (auto simp: watchdogs_subscribed_def drop_subscriptions_def restrict_map_def split: if_splits)

lemma handle_message_watchdogs:
  assumes "pm_inv N s" and "pm_live_legal x m" and "watchdogs_subscribed s"
    and "pm_handle_message (fst x) N (snd x) m s = (es, Inr s')"
  shows "watchdogs_subscribed s'"
proof (cases m)
  case (Request i r)
  show ?thesis
    by (rule handle_request_watchdogs [of N s "snd x" i r es])
      (use assms Request in \<open>auto simp: pm_live_legal_def pm_legal_def\<close>)
next
  case Reassign
  with assms show ?thesis
    by (auto simp: reassign_def act_simps trigger_reassignment_eq pm_live_legal_def pm_legal_def
        with_result_def split: sum.splits)
next
  case Shutdown
  with assms show ?thesis by (simp add: pm_live_legal_def)
qed (use assms in \<open>auto simp: act_simps start_heartbeats_eq send_heartbeat_eq watchdogs_subscribed_def\<close>)

interpretation pm_live: gen_server peer_manager_new "\<lambda>x. pm_handle_message (fst x) N (snd x)"
    pm_live_legal "\<lambda>s. pm_inv N s \<and> watchdogs_subscribed s" pm_allowed False
  for N
proof unfold_locales
  show "pm_inv N peer_manager_new \<and> watchdogs_subscribed peer_manager_new"
    by (simp add: pm_inv_init watchdogs_subscribed_def) (simp add: peer_manager_new_def)
next
  fix x :: "'a chooser \<times> inputs" and m s
  assume legal: "pm_live_legal x m" and s: "pm_inv N s \<and> watchdogs_subscribed s"
  then have "wp False pm_allowed (pm_handle_message (fst x) N (snd x) m) (pm_inv N) s"
    by (intro pm.handle_wp) (simp_all add: pm_live_legal_def)
  then show "wp False pm_allowed (pm_handle_message (fst x) N (snd x) m)
      (\<lambda>s. pm_inv N s \<and> watchdogs_subscribed s) s"
    using handle_message_watchdogs [OF _ legal] s
    by (cases "pm_handle_message (fst x) N (snd x) m s") (auto simp: wp_def split: sum.splits)
qed

text \<open>
  Subscriptions and watchdogs agree. As long as the peer manager is not shut down, a heartbeat watchdog runs only for
  a peer this node is subscribed to, and when it fires, 15 seconds after it was last reset, it reports that very peer
  as down.
\<close>

theorem watchdogs_follow_subscriptions:
  assumes "\<forall>(x, m) \<in> set ms. pm_live_legal x m"
    and "run (\<lambda>x. pm_handle_message (fst x) N (snd x)) ms peer_manager_new = (es, Inr s)"
    and "heartbeat_watchdogs s i = Some d"
  shows "i \<in> subscribed_to s \<and> delayed_millis d = 15000 \<and>
    (\<exists>p. peer_id p = i \<and> delayed_future d = Future_cast_peer_manager
       (Request (node_id N) (PeerStatus \<lparr>status_peer = p, status_state = Down\<rparr>)))"
proof -
  have inv: "pm_inv N s \<and> watchdogs_subscribed s" by (rule pm_live.run_inv [OF assms(1,2)])
  with assms(3) obtain t p where "peer_id p = i" "d = watchdog_for N t p"
    unfolding pm_inv_def by blast
  with inv assms(3) show ?thesis
    by (auto simp: watchdogs_subscribed_def watchdog_for_def delayed_new_def
        HEARTBEAT_MISSED_INTERVAL_MILLIS_def HEARTBEAT_INTERVAL_MILLIS_def)
qed

text \<open>
  \<open>shutdown\<close> sends \<open>EndSubscription\<close> to every peer this node is subscribed to and forgets the subscriptions, but leaves
  the heartbeat watchdogs running: the peers left behind will be reported down.
\<close>

theorem shutdown_keeps_watchdogs:
  "\<exists>s'. pm_handle_message C N I Shutdown s =
     (map (\<lambda>(k, i). Call_packet_handler (SendMessage i (peer_message (new_v4 I k) EndSubscription)))
        (enumerate 0 (id_order I (subscribed_to s))), Inr s') \<and>
     subscribed_to s' = {} \<and> heartbeat_watchdogs s' = heartbeat_watchdogs s \<and>
     known s' = known s \<and> subscribers s' = subscribers s"
  by (simp add: shutdown_eq)

text \<open>
  A heartbeat tick sends one \<open>Heartbeat\<close> to each subscriber and to nobody else, and starts a bootstrap exactly if this
  node has no subscription; the state does not change.
\<close>

theorem send_heartbeat_reaches_subscribers:
  assumes "order_law I"
  shows "\<exists>es. pm_handle_message C N I SendHeartbeat s = (es, Inr s) \<and>
    (Cast_handshaker Bootstrap \<in> set es \<longleftrightarrow> subscribed_to s = {}) \<and>
    (\<forall>i. (\<exists>u. Cast_packet_handler (SendMessage i (peer_message u Heartbeat)) \<in> set es) \<longleftrightarrow> i \<in> subscribers s) \<and>
    length es = card (subscribers s) + of_bool (subscribed_to s = {})"
proof -
  let ?f = "\<lambda>(k, i). Cast_packet_handler (SendMessage i (peer_message (new_v4 I k) Heartbeat))"
  let ?ids = "id_order I (subscribers s)"
  let ?es = "(if subscribed_to s = {} then [Cast_handshaker Bootstrap] else []) @ map ?f (enumerate 0 ?ids)"
  have "Cast_handshaker Bootstrap \<in> set ?es \<longleftrightarrow> subscribed_to s = {}" by auto
  moreover have "(\<exists>u. Cast_packet_handler (SendMessage i (peer_message u Heartbeat)) \<in> set ?es) \<longleftrightarrow>
      i \<in> subscribers s" for i
    using enumerate_mem [of i 0 ?ids] order_lawD(1) [OF assms, of "subscribers s"]
    by (force simp: image_iff simp del: in_set_enumerate_eq)
  moreover have "length ?es = card (subscribers s) + of_bool (subscribed_to s = {})"
    by (simp add: order_lawD(3) [OF assms])
  ultimately show ?thesis
    by (intro exI [of _ ?es]) (simp add: send_heartbeat_eq del: in_set_enumerate_eq)
qed

end
