(* ===== verification/Sample_Externals.thy ===== *)
theory Sample_Externals
  imports Samples "HOL-Library.Countable"
begin

text \<open>
  Concrete library functions that satisfy the laws, for the witnesses. The wire types are countable, so a value can be
  encoded as a run of zero bytes whose length is its number (closed by a one for packets); the hash pads and truncates, the box puts both keys in front
  of the message.
\<close>

subsection \<open>The wire types are countable\<close>

instance sockaddr :: countable
  by countable_datatype

instance keypair_ext :: (countable) countable
  by (rule countable_classI [of "\<lambda>k. to_nat (public_key k, secret_key k, keypair.more k)"]) simp

instance peer_ext :: (countable) countable
  by (rule countable_classI [of "\<lambda>p. to_nat (our_keypair p, their_public_key p, handshake_timestamp p,
      peer_sockaddr p, peer_id p, peer_zone p, peer.more p)"]) simp

instance peer_state :: countable
  by countable_datatype

instance peer_status_ext :: (countable) countable
  by (rule countable_classI [of "\<lambda>x. to_nat (status_peer x, status_state x, peer_status.more x)"]) simp

instance peer_request :: countable
  by countable_datatype

instance frame_ext :: (countable) countable
  by (rule countable_classI [of "\<lambda>f. to_nat (frame_len f, frame_idx f, frame_data f, frame.more f)"]) simp

instance body :: countable
  by countable_datatype

instance message_ext :: (countable) countable
  by (rule countable_classI [of "\<lambda>m. to_nat (msg_id m, msg_body m, message.more m)"]) simp

instance hmac_ext :: (countable) countable
  by (rule countable_classI [of "\<lambda>h. to_nat (hmac_hash h, hmac_message h, hmac.more h)"]) simp

instance handshake_step :: countable
  by countable_datatype

instance handshake_ext :: (countable) countable
  by (rule countable_classI [of "\<lambda>h. to_nat (hs_id h, hs_step h, handshake.more h)"]) simp

instance payload :: countable
  by countable_datatype

instance seq32 :: countable
  by countable_datatype

instance packet_ext :: (countable) countable
  by (rule countable_classI [of "\<lambda>p. to_nat (pkt_s p, pkt_id p, pkt_p p, packet.more p)"]) simp

subsection \<open>The functions\<close>

definition sample_pad :: "bytes \<Rightarrow> bytes" where
  "sample_pad d = take 64 (d @ replicate 64 0)"

definition sample_valid :: "keypair \<Rightarrow> bool" where
  "sample_valid kp \<longleftrightarrow> length (public_key kp) = 32 \<and> secret_key kp = public_key kp"

definition sample_externals :: "bool \<Rightarrow> externals" where
  "sample_externals chk =
     \<lparr>overflow_checks = chk,
      generic_hash = (\<lambda>key d. Some (sample_pad (case key of Some k \<Rightarrow> k | None \<Rightarrow> d))),
      box_encrypt = (\<lambda>m n pk sk. Some (pk @ sk @ m)),
      box_decrypt = (\<lambda>c n pk sk. if take 64 c = sk @ pk then Some (drop 64 c) else None),
      message_to_vec = (\<lambda>m. Some (replicate (to_nat (wire_message m)) 0)),
      message_from_slice = (\<lambda>v. Some (wire_message (from_nat (length v)))),
      packet_to_vec = (\<lambda>p. Some (replicate (to_nat p) 0 @ [1])),
      packet_from_slice = (\<lambda>v. if 1 \<in> set v then Some (from_nat (length (takeWhile ((=) 0) v))) else None),
      uuid_as_bytes = (\<lambda>i. map (\<lambda>k. ucast (drop_bit (8 * k) i)) (rev [0..<16])),
      num_nanoseconds = (\<lambda>a b. if i64_range (a - b) then Some (a - b) else None),
      timestamp_nanos_opt = (\<lambda>t. if i64_range t then Some t else None),
      to_socket_addrs = (\<lambda>_. Some [sample_addr])\<rparr>"

lemma length_sample_pad [simp]: "length (sample_pad d) = 64"
  by (simp add: sample_pad_def)

lemma sample_overflow_checks [simp]: "overflow_checks (sample_externals chk) = chk"
  by (simp add: sample_externals_def)

lemma sample_hash_law [simp]: "hash_law (sample_externals chk)"
  by (simp add: hash_law_def sample_externals_def)

lemma sample_chrono_law [simp]: "chrono_law (sample_externals chk)"
  by (simp add: chrono_law_def sample_externals_def)

lemma takeWhile_zeros: "takeWhile ((=) 0) (replicate n (0 :: 8 word) @ 1 # rest) = replicate n 0"
  by (induction n) simp_all

lemma sample_codec_law [simp]: "codec_law (sample_externals chk)"
  by (simp add: codec_law_def sample_externals_def takeWhile_zeros)

lemma sample_decode_law [simp]: "decode_law (sample_externals chk)"
  by (simp add: decode_law_def sample_externals_def)

lemma sample_prefix_law [simp]: "prefix_law (sample_externals chk)"
  by (simp add: prefix_law_def sample_externals_def takeWhile_zeros)

lemma sample_box_law [simp]: "box_law (sample_externals chk) sample_valid"
  by (auto simp: box_law_def sample_externals_def sample_valid_def)

lemma sample_keypair_valid [simp]: "sample_valid sample_keypair"
  by (simp add: sample_valid_def sample_keypair_def)

subsection \<open>A cache\<close>

text \<open>The capacity and the keys, the most recent first.\<close>

definition sample_lru :: "(nat \<times> uuid list) lru" where
  "sample_lru =
     \<lparr>lru_new = (\<lambda>n. (n, [])), lru_contains = (\<lambda>(n, ks) k. k \<in> set ks),
      lru_put = (\<lambda>k (n, ks). (n, take n (k # removeAll k ks)))\<rparr>"

lemma sample_lru_capacity: "fst (fold (lru_put sample_lru) ks c) = fst c"
  by (induction ks arbitrary: c) (auto simp: sample_lru_def split: prod.splits)

lemma sample_lru_distinct: "distinct (snd c) \<Longrightarrow> distinct (snd (fold (lru_put sample_lru) ks c))"
  by (induction ks arbitrary: c) (auto simp: sample_lru_def distinct_removeAll split: prod.splits)

lemma front_of_head: "\<exists>ys zs. k # xs = ys @ k # zs \<and> set ys \<subseteq> S"
  by (rule exI [of _ "[]"]) simp

text \<open>Only keys that were put after it are in front of a key.\<close>

lemma sample_lru_front:
  assumes "distinct xs" and "xs = ys @ k # zs" and "set ys \<subseteq> S" and "card S < n" and "finite S" and "j \<in> S"
  shows "\<exists>ys' zs'. take n (j # removeAll j xs) = ys' @ k # zs' \<and> set ys' \<subseteq> S"
proof (cases "j = k")
  case True
  with assms(4) have "take n (j # removeAll j xs) = [] @ k # take (n - 1) (removeAll k xs)" by (cases n) simp_all
  then show ?thesis by (metis empty_subsetI list.set(1))
next
  case False
  let ?ys = "j # removeAll j ys"
  have "distinct ?ys" "set ?ys \<subseteq> S" using assms(1-3,6) by (auto simp: distinct_removeAll)
  then have "length ?ys \<le> card S" by (metis assms(5) card_mono distinct_card)
  moreover have "j # removeAll j xs = ?ys @ k # removeAll j zs" using assms(2) False by simp
  ultimately have "take n (j # removeAll j xs) = ?ys @ k # take (n - Suc (length ?ys)) (removeAll j zs)"
    using assms(4) by (simp add: take_Cons' Suc_diff_Suc)
  with \<open>set ?ys \<subseteq> S\<close> show ?thesis by blast
qed

lemma sample_lru_keeps:
  assumes "set ks \<subseteq> S" and "finite S" and "card S < n" and "distinct (snd c)" and "fst c = n"
    and "\<exists>ys zs. snd c = ys @ k # zs \<and> set ys \<subseteq> S"
  shows "\<exists>ys zs. snd (fold (lru_put sample_lru) ks c) = ys @ k # zs \<and> set ys \<subseteq> S"
  using assms
proof (induction ks arbitrary: c)
  case Nil
  then show ?case by simp
next
  case (Cons j ks)
  obtain xs where c: "c = (n, xs)" using Cons.prems(5) by (cases c) simp
  obtain ys zs where "xs = ys @ k # zs" "set ys \<subseteq> S" using Cons.prems(6) by (auto simp: c)
  then have "\<exists>ys zs. take n (j # removeAll j xs) = ys @ k # zs \<and> set ys \<subseteq> S"
    using Cons.prems(1-4) by (intro sample_lru_front) (auto simp: c)
  moreover have "distinct (take n (j # removeAll j xs))"
    using Cons.prems(4) by (simp add: c distinct_removeAll del: take_Cons')
  ultimately show ?case
    using Cons.prems Cons.IH [of "(n, take n (j # removeAll j xs))"]
    by (simp add: c) (simp add: sample_lru_def)
qed

lemma sample_lru_law [simp]: "lru_law sample_lru"
proof -
  have "lru_contains sample_lru (fold (lru_put sample_lru) ks
      (lru_put sample_lru k (fold (lru_put sample_lru) js (lru_new sample_lru n)))) k"
    if n: "card (set ks) < n" for n js k ks
  proof -
    let ?c = "fold (lru_put sample_lru) js (lru_new sample_lru n)"
    obtain xs where c: "?c = (n, xs)"
      using sample_lru_capacity [of js "lru_new sample_lru n"] by (cases ?c) (simp add: sample_lru_def)
    have "distinct (snd (fold (lru_put sample_lru) (js @ [k]) (lru_new sample_lru n)))"
      by (rule sample_lru_distinct) (simp add: sample_lru_def)
    moreover have "lru_put sample_lru k ?c = (n, k # take (n - 1) (removeAll k xs))"
      unfolding c using n by (cases n) (simp_all add: sample_lru_def)
    ultimately have "\<exists>ys zs. snd (fold (lru_put sample_lru) ks (lru_put sample_lru k ?c)) = ys @ k # zs \<and> set ys \<subseteq> set ks"
      using n front_of_head by (intro sample_lru_keeps) auto
    then show ?thesis by (auto simp: sample_lru_def split: prod.splits)
  qed
  then show ?thesis
    unfolding lru_law_def by (auto simp: sample_lru_def split: prod.splits dest: in_set_takeD)
qed

end
