(* ===== verification/Node_Props.thy ===== *)
theory Node_Props
  imports Node Peer_Manager_Props Sample_Externals
begin

text \<open>
  Properties of \<^verbatim>\<open>lib.rs\<close> and \<^verbatim>\<open>server.rs\<close>: what a start does to the three actors, what a failed start loses, which
  errors give a broadcast back, what the subscriber count counts, and when a shutdown waits for the node.
\<close>

subsection \<open>Starting\<close>

lemma server_run_eq:
  assumes "\<And>e. delivers e" and "server_notify_ready srv = Some ready"
  shows "server_run delivers srv =
    ([Does (Cast_peer_manager (SetNotify ready)),
      Does (Cast_packet_handler (SetBroadcastHandler (server_handler srv) None)),
      Does (Cast_packet_handler (Start (server_socket srv))),
      Does (Cast_handshaker Bootstrap), Does (Cast_peer_manager StartHeartbeats),
      Spawn_shutdown_task (server_notify_shutdown srv)],
     Inr (srv\<lparr>server_notify_ready := None, server_handler := None\<rparr>))"
  using assms by (simp add: server_run_def take_handler_def must_cast_def act_simps then_do_def)

definition start_effects :: "nodeinfo \<Rightarrow> nat \<Rightarrow> nat option \<Rightarrow> nat \<Rightarrow> nat \<Rightarrow> node_effect list" where
  "start_effects N ready h sock n =
     [Registry_start N, Does (Cast_peer_manager (SetNotify ready)),
      Does (Cast_packet_handler (SetBroadcastHandler h None)), Does (Cast_packet_handler (Start sock)),
      Does (Cast_handshaker Bootstrap), Does (Cast_peer_manager StartHeartbeats), Spawn_shutdown_task n]"

lemma start_ok:
  assumes "\<And>e. delivers e" and "bind (bind_addr (gwyh_nodeinfo g)) = Inr sock"
  shows "start bind delivers ready g =
    (start_effects (gwyh_nodeinfo g) ready (gwyh_handler g) sock (notify_shutdown g), Inr (Inr ready),
     g\<lparr>gwyh_registry := Some \<lparr>registry_nodeinfo = gwyh_nodeinfo g\<rparr>, gwyh_handler := None\<rparr>)"
  using assms by (simp add: start_def Let_def server_new_def server_run_eq start_effects_def)

lemma start_failed:
  assumes "bind (bind_addr (gwyh_nodeinfo g)) = Inl e"
  shows "start bind delivers ready g = ([Registry_start (gwyh_nodeinfo g)], Inr (Inl e),
     g\<lparr>gwyh_registry := Some \<lparr>registry_nodeinfo = gwyh_nodeinfo g\<rparr>, gwyh_handler := None\<rparr>)"
  using assms by (simp add: start_def Let_def server_new_def)

lemma mail_start_effects:
  "mail to_packet_handler (start_effects N ready h sock n) = [SetBroadcastHandler h None, Start sock]"
  "mail to_peer_manager (start_effects N ready h sock n) = [SetNotify ready, StartHeartbeats]"
  "mail to_handshaker (start_effects N ready h sock n) = [Bootstrap]"
  by (simp_all add: mail_def start_effects_def List.map_filter_def)

text \<open>
  C18. A node that is built and started with a free address tells the three actors exactly what they need: after they have
  handled the messages of the start, with any inputs, the packet handler has the socket, runs its receive loop on it and
  calls the configured handler, the peer manager has the \<open>Notify\<close> to report readiness to and its heartbeat every five
  seconds, and the handshaker has the hashes of the configured keys and a timer that greets the configured peers. The
  start returns that \<open>Notify\<close>.
\<close>

theorem startup_configures_node:
  fixes L :: "'c lru" and bind :: "string \<Rightarrow> 'e + nat" and i :: uuid and n :: nat
  assumes delivers: "\<And>e. delivers e" and bind: "bind (builder_bind_addr b) = Inr sock"
  defines "N \<equiv> gwyh_nodeinfo (build i n b)"
  shows "\<exists>es g. start bind delivers ready (build i n b) = (es, Inr (Inr ready), g) \<and>
    node_keys N = builder_keys b \<and> node_peers N = builder_peers b \<and>
    peer_subscriptions N = builder_peer_subscriptions b \<and> strategy N = builder_strategy b \<and>
    gwyh_registry g = Some \<lparr>registry_nodeinfo = N\<rparr> \<and>
    run (\<lambda>I. ph_handle_message E L N I) (map (Pair I) (mail to_packet_handler es)) (packet_handler_new L) =
      ([Spawn_recv_loop sock],
       Inr ((packet_handler_new L)\<lparr>ph_socket := Some sock, broadcast_handler_async := builder_handler b\<rparr>)) \<and>
    run (\<lambda>I. pm_handle_message C N I) (map (Pair I) (mail to_peer_manager es)) peer_manager_new =
      ([], Inr (peer_manager_new\<lparr>notify_ready := Some ready,
         heartbeat := Some (interval_new 5000 (Future_cast_peer_manager SendHeartbeat))\<rparr>)) \<and>
    run (\<lambda>I. hs_handle_message E N I) (map (Pair I) (mail to_handshaker es)) handshaker_new =
      ([], Inr (handshaker_new\<lparr>hashed_keys := Some (key_hashes E N),
         bootstrap_timer := Some (delayed_new (instant_now I) (gen_range I 0 10 150) (Future_bootstrap (builder_peers b)))\<rparr>))"
proof -
  have N: "bind_addr N = builder_bind_addr b" "node_keys N = builder_keys b" "node_peers N = builder_peers b"
    "peer_subscriptions N = builder_peer_subscriptions b" "strategy N = builder_strategy b"
    by (simp_all add: N_def build_def nodeinfo_new_def)
  have keys: "keys_ok E N handshaker_new" by (simp add: keys_ok_def handshaker_new_def)
  have start: "start bind delivers ready (build i n b) =
      (start_effects N ready (builder_handler b) sock n, Inr (Inr ready),
       (build i n b)\<lparr>gwyh_registry := Some \<lparr>registry_nodeinfo = N\<rparr>, gwyh_handler := None\<rparr>)"
    using start_ok [where g = "build i n b" and delivers = delivers and bind = bind and sock = sock and ready = ready,
        OF delivers] bind N(1)
    by (simp add: N_def [symmetric]) (simp add: build_def)
  show ?thesis
    unfolding start
    by (intro exI conjI, rule refl)
      (simp_all add: N mail_start_effects act_simps then_do_def start_recv_loop_def start_heartbeats_def
        HEARTBEAT_INTERVAL_MILLIS_def bootstrap_eq [OF keys], simp_all add: packet_handler_new_def peer_manager_new_def)
qed

theorem startup_configures_node_witness:
  "\<exists>es g. start (\<lambda>_. Inr 3 :: unit + nat) (\<lambda>_. True) 9 (build 7 8 (with_handler 4 (with_zone ''z'' builder_new))) =
     (es, Inr (Inr 9), g)"
  using startup_configures_node [where delivers = "\<lambda>_. True" and bind = "\<lambda>_. Inr 3 :: unit + nat" and sock = 3
      and b = "with_handler 4 (with_zone ''z'' builder_new)" and i = 7 and n = 8 and ready = 9
      and L = sample_lru and E = "sample_externals True" and I = sample_inputs and C = sample_chooser]
  by auto

text \<open>
  C35. A start that fails to bind its address has already taken the broadcast handler out of the node and started the
  actors. A second start that succeeds installs no handler: broadcasts are received and forwarded but never handed to
  the application.
\<close>

theorem failed_start_loses_handler:
  fixes L :: "'c lru" and bind bind' :: "string \<Rightarrow> 'e + nat"
  assumes "bind (bind_addr (gwyh_nodeinfo g)) = Inl err" and "bind' (bind_addr (gwyh_nodeinfo g)) = Inr sock"
    and delivers: "\<And>e. delivers e"
  shows "\<exists>g1 es g2. start bind delivers ready g = ([Registry_start (gwyh_nodeinfo g)], Inr (Inl err), g1) \<and>
    start bind' delivers ready' g1 = (es, Inr (Inr ready'), g2) \<and>
    mail to_packet_handler es = [SetBroadcastHandler None None, Start sock] \<and>
    (\<exists>s. run (\<lambda>I. ph_handle_message E L N I) (map (Pair I) (mail to_packet_handler es)) (packet_handler_new L) =
        ([Spawn_recv_loop sock], Inr s) \<and> broadcast_handler_async s = None)"
proof -
  let ?g1 = "g\<lparr>gwyh_registry := Some \<lparr>registry_nodeinfo = gwyh_nodeinfo g\<rparr>, gwyh_handler := None\<rparr>"
  have "start bind' delivers ready' ?g1 =
      (start_effects (gwyh_nodeinfo g) ready' None sock (notify_shutdown g), Inr (Inr ready'), ?g1)"
    using start_ok [where g = ?g1 and delivers = delivers and bind = bind' and sock = sock and ready = ready',
        OF delivers] assms(2) by simp
  moreover have "start bind delivers ready g = ([Registry_start (gwyh_nodeinfo g)], Inr (Inl err), ?g1)"
    using assms(1) by (simp add: start_failed)
  ultimately show ?thesis
    by (intro exI conjI) (assumption, assumption,
        simp_all add: mail_start_effects act_simps then_do_def start_recv_loop_def, simp)
qed

theorem failed_start_loses_handler_witness:
  "\<exists>g1 es g2. start (\<lambda>_. Inl () :: unit + nat) (\<lambda>_. True) 9 (build 7 8 (with_handler 4 builder_new)) =
      ([Registry_start (gwyh_nodeinfo (build 7 8 (with_handler 4 builder_new)))], Inr (Inl ()), g1) \<and>
    start (\<lambda>_. Inr 3 :: unit + nat) (\<lambda>_. True) 10 g1 = (es, Inr (Inr 10), g2) \<and>
    mail to_packet_handler es = [SetBroadcastHandler None None, Start 3]"
  using failed_start_loses_handler [where g = "build 7 8 (with_handler 4 builder_new)" and delivers = "\<lambda>_. True"
      and bind = "\<lambda>_. Inl () :: unit + nat" and bind' = "\<lambda>_. Inr 3 :: unit + nat" and sock = 3 and err = "()"
      and ready = 9 and ready' = 10 and L = sample_lru and E = "sample_externals True" and I = sample_inputs and N = "sample_node Uniform"]
  by simp metis

subsection \<open>The interface of a running node\<close>

text \<open>
  The outcome of a broadcast on every path: without a registry and when the message could not be handed to the packet
  handler, the error carries exactly the message, so that the application can send it again; a call that fails after
  the hand-over loses it. \<open>Ok\<close> means that the packet handler has handled it. The hypothesis is that a failed send
  gives back what was sent.
\<close>

theorem broadcast_outcome:
  assumes "\<And>m m'. call m = Inl (MpscSendError m') \<Longrightarrow> m' = m"
  shows "broadcast call g m =
    (if gwyh_registry g = None then Inl (NoRegistry m ''there's no registry, this shouldn't happen'')
     else if call (SendBroadcast m) = Inr () then Inr ()
     else if call (SendBroadcast m) = Inl (MpscSendError (SendBroadcast m)) then Inl (BroadcastSend m)
     else Inl BroadcastFailed)"
proof (cases "call (SendBroadcast m)")
  case (Inl e)
  with assms [of "SendBroadcast m"] show ?thesis
    by (cases e) (auto simp: broadcast_def split: option.splits)
next
  case (Inr u)
  then show ?thesis by (simp add: broadcast_def split: option.splits)
qed

text \<open>
  On a started node the subscriber count is the number of peers that subscribe to it after all requests the peer
  manager has handled, each of them a known peer; an unexpected response is impossible and a call that fails is
  \<open>GenServerErr\<close>. On a node that was not started the method panics.
\<close>

theorem subscriber_count_reported:
  fixes N :: nodeinfo
  assumes "\<forall>(x, m) \<in> set ms. pm_legal x m"
    and "run (\<lambda>x. pm_handle_message (fst x) N (snd x)) ms peer_manager_new = (es, Inr s)"
    and "call GetSubscriberCount = Inr (pm_response GetSubscriberCount s) \<or> call GetSubscriberCount = Inl e"
  shows "get_subscriber_count call g =
    (if gwyh_registry g = None then Inl Unwrap_none
     else if call GetSubscriberCount = Inl e then Inr (Inl GenServerErr)
     else Inr (Inr (card (subscribers s)))) \<and> subscribers s \<subseteq> dom (known s)"
proof -
  have "subscribers s \<subseteq> dom (known s)"
    using pm.run_inv [OF assms(1,2)] by (simp add: pm_inv_def)
  then show ?thesis
    using assms(3) by (cases "gwyh_registry g") (auto simp: get_subscriber_count_def error_from_def)
qed

text \<open>Dropping a node that was never started panics, after its \<open>Notify\<close> has been used.\<close>

lemma drop_unstarted_panics:
  "gwyh_drop (build i n b) = ([Does (Notify_one n)], Inl Unwrap_none)"
  by (simp add: gwyh_drop_def build_def act_simps then_do_def)

subsection \<open>Stopping\<close>

lemma notify_lawD:
  assumes "notify_law Y"
  shows "has_permit Y (notify_new Y) = False" "waiting_tasks Y (notify_new Y) = []"
    "notify_one Y n = (w, n') \<Longrightarrow> waiting_tasks Y n = [] \<Longrightarrow> w = None \<and> has_permit Y n' \<and> waiting_tasks Y n' = []"
    "notify_one Y n = (w, n') \<Longrightarrow> waiting_tasks Y n = t # ts \<Longrightarrow>
       w = Some t \<and> waiting_tasks Y n' = ts \<and> has_permit Y n' = has_permit Y n"
    "notified Y t n = (ok, n') \<Longrightarrow> ok = has_permit Y n \<and> \<not> has_permit Y n' \<and>
       waiting_tasks Y n' = waiting_tasks Y n @ (if has_permit Y n then [] else [t])"
proof -
  from assms show "has_permit Y (notify_new Y) = False" "waiting_tasks Y (notify_new Y) = []"
    by (simp_all add: notify_law_def)
  from assms have one: "case waiting_tasks Y n of
        [] \<Rightarrow> fst (notify_one Y n) = None \<and> has_permit Y (snd (notify_one Y n)) \<and> waiting_tasks Y (snd (notify_one Y n)) = []
      | t # ts \<Rightarrow> fst (notify_one Y n) = Some t \<and> waiting_tasks Y (snd (notify_one Y n)) = ts \<and>
              has_permit Y (snd (notify_one Y n)) = has_permit Y n"
    unfolding notify_law_def by blast
  show "w = None \<and> has_permit Y n' \<and> waiting_tasks Y n' = []"
    if "notify_one Y n = (w, n')" "waiting_tasks Y n = []" using one that by simp
  show "w = Some t \<and> waiting_tasks Y n' = ts \<and> has_permit Y n' = has_permit Y n"
    if "notify_one Y n = (w, n')" "waiting_tasks Y n = t # ts" using one that by simp
  have "fst (notified Y t n) = has_permit Y n \<and> \<not> has_permit Y (snd (notified Y t n)) \<and>
        waiting_tasks Y (snd (notified Y t n)) = waiting_tasks Y n @ (if has_permit Y n then [] else [t])"
    using assms unfolding notify_law_def by blast
  then show "ok = has_permit Y n \<and> \<not> has_permit Y n' \<and>
       waiting_tasks Y n' = waiting_tasks Y n @ (if has_permit Y n then [] else [t])"
    if "notified Y t n = (ok, n')" using that by simp
qed

text \<open>
  What matters of a state of the two tasks: what they have left to do, which of them are blocked, the permit, the queue
  and the calls that have returned. On these views a step is computable, so the runs from a given view can be enumerated.
\<close>

type_synonym view = "instr list \<times> instr list \<times> nat set \<times> bool \<times> nat list \<times> instr list"

definition task_view :: "'n notify_ops \<Rightarrow> 'n tasks \<Rightarrow> view" where
  "task_view Y s =
     (rest s caller, rest s server_tid, blocked s, has_permit Y (notifier s), waiting_tasks Y (notifier s), returned s)"

definition two_tasks :: "'n tasks \<Rightarrow> bool" where
  "two_tasks s \<longleftrightarrow> (\<forall>t. rest s t \<noteq> [] \<longrightarrow> t = caller \<or> t = server_tid)"

fun run_instr :: "nat \<Rightarrow> instr \<Rightarrow> nat set \<times> bool \<times> nat list \<times> instr list \<Rightarrow> nat set \<times> bool \<times> nat list \<times> instr list" where
  "run_instr t Notify_op (bl, p, ws, lg) = (bl - set (take 1 ws), p \<or> ws = [], drop 1 ws, lg)"
| "run_instr t Await_op (bl, p, ws, lg) = (if p then (bl, False, ws, lg) else (insert t bl, False, ws @ [t], lg))"
| "run_instr t i (bl, p, ws, lg) = (bl, p, ws, lg @ [i])"

fun next_views :: "view \<Rightarrow> view list" where
  "next_views (c, d, m) =
     (case c of i # is \<Rightarrow> if caller \<in> fst m then [] else [(is, d, run_instr caller i m)] | [] \<Rightarrow> []) @
     (case d of i # is \<Rightarrow> if server_tid \<in> fst m then [] else [(c, is, run_instr server_tid i m)] | [] \<Rightarrow> [])"

fun views_after :: "nat \<Rightarrow> view \<Rightarrow> view list" where
  "views_after 0 v = [v]"
| "views_after (Suc k) v = concat (map next_views (views_after k v))"

lemma task_step_instr:
  assumes "notify_law Y" and "task_step Y s s'"
  obtains t i "is" where "t \<notin> blocked s" "rest s t = i # is" "rest s' = (rest s)(t := is)"
    "(blocked s', has_permit Y (notifier s'), waiting_tasks Y (notifier s'), returned s') =
       run_instr t i (blocked s, has_permit Y (notifier s), waiting_tasks Y (notifier s), returned s)"
  using assms(2)
proof cases
  case (notify t "is" w n)
  show ?thesis
  proof (cases "waiting_tasks Y (notifier s)")
    case Nil
    with notify show ?thesis using notify_lawD(3) [OF assms(1) notify(4)] by (intro that [of t Notify_op "is"]) auto
  next
    case (Cons u us)
    with notify show ?thesis using notify_lawD(4) [OF assms(1) notify(4)] by (intro that [of t Notify_op "is"]) auto
  qed
next
  case (await_ready t "is" n)
  then show ?thesis
    using notify_lawD(5) [OF assms(1) await_ready(4)] by (intro that [of t Await_op "is"]) auto
next
  case (await_block t "is" n)
  then show ?thesis
    using notify_lawD(5) [OF assms(1) await_block(4)] by (intro that [of t Await_op "is"]) auto
next
  case (call t i "is")
  then show ?thesis by (intro that [of t i "is"]) auto
qed

lemma task_step_enabled: "t \<notin> blocked s \<Longrightarrow> rest s t = i # is \<Longrightarrow> \<exists>s'. task_step Y s s'"
  by (cases i; cases "notify_one Y (notifier s)"; cases "notified Y t (notifier s)"; cases "fst (notified Y t (notifier s))")
    (auto intro: task_step.intros)

lemma task_step_view:
  assumes "notify_law Y" and "task_step Y s s'" and "two_tasks s"
  shows "task_view Y s' \<in> set (next_views (task_view Y s))" and "two_tasks s'"
proof -
  from assms(1,2) obtain t i "is" where t: "t \<notin> blocked s" "rest s t = i # is" "rest s' = (rest s)(t := is)"
    "(blocked s', has_permit Y (notifier s'), waiting_tasks Y (notifier s'), returned s') =
       run_instr t i (blocked s, has_permit Y (notifier s), waiting_tasks Y (notifier s), returned s)"
    by (rule task_step_instr)
  then have who: "t = caller \<or> t = server_tid" using assms(3) by (auto simp: two_tasks_def)
  then show "task_view Y s' \<in> set (next_views (task_view Y s))"
    using t by (auto simp: task_view_def)
  show "two_tasks s'" using assms(3) t(2,3) by (auto simp: two_tasks_def)
qed

lemma steps_view:
  assumes "notify_law Y" and "(task_step Y ^^ k) s s'" and "two_tasks s"
  shows "task_view Y s' \<in> set (views_after k (task_view Y s)) \<and> two_tasks s'"
  using assms(2)
proof (induction k arbitrary: s')
  case 0
  then show ?case using assms(3) by simp
next
  case (Suc k)
  then obtain u where u: "(task_step Y ^^ k) s u" "task_step Y u s'" by auto
  with Suc.IH task_step_view [OF assms(1) u(2)] show ?case by auto
qed

lemma view_enabled:
  "next_views (task_view Y s) \<noteq> [] \<Longrightarrow> \<exists>s'. task_step Y s s'"
  by (auto simp: task_view_def split: list.splits if_splits intro: task_step_enabled)

lemma settled_view:
  assumes "notify_law Y"
  shows "task_view Y (shutdown_settled Y) =
      ([Notify_op, Await_op, Registry_shutdown_op], [Call_shutdown_op, Notify_op], {server_tid}, False, [server_tid], [])"
    and "two_tasks (shutdown_settled Y)"
  using notify_lawD(1,2) [OF assms] notify_lawD(5) [OF assms, of server_tid "notify_new Y"]
  by (cases "notified Y server_tid (notify_new Y)";
      simp add: task_view_def shutdown_settled_def shutdown_begin_def shutdown_program_def server_task_def two_tasks_def)+

text \<open>All runs of a shutdown that finds the server's task waiting: three of them, of five steps each.\<close>

definition settled :: view where
  "settled = ([Notify_op, Await_op, Registry_shutdown_op], [Call_shutdown_op, Notify_op], {server_tid}, False, [server_tid], [])"

lemma settled_runs:
  "v \<in> set (views_after k settled) \<Longrightarrow> k < 5 \<Longrightarrow>
     next_views v \<noteq> [] \<and> Registry_shutdown_op \<notin> set (snd (snd (snd (snd (snd v)))))"
  "v \<in> set (views_after 5 settled) \<Longrightarrow>
     fst v = [] \<and> snd (snd (snd (snd (snd v)))) = [Call_shutdown_op, Registry_shutdown_op]"
  "5 < k \<Longrightarrow> views_after k settled = []"
proof -
  show "next_views v \<noteq> [] \<and> Registry_shutdown_op \<notin> set (snd (snd (snd (snd (snd v)))))"
    if "v \<in> set (views_after k settled)" "k < 5"
  proof -
    from that(2) consider "k = 0" | "k = Suc 0" | "k = Suc (Suc 0)" | "k = Suc (Suc (Suc 0))" | "k = Suc (Suc (Suc (Suc 0)))"
      by linarith
    then show ?thesis using that(1) by cases (auto simp: settled_def)
  qed
  show "fst v = [] \<and> snd (snd (snd (snd (snd v)))) = [Call_shutdown_op, Registry_shutdown_op]"
    if "v \<in> set (views_after 5 settled)" using that by (auto simp: settled_def eval_nat_numeral)
  have 6: "views_after 6 settled = []" by (simp add: settled_def eval_nat_numeral)
  have "6 \<le> j \<Longrightarrow> views_after j settled = []" for j
    by (induction j rule: dec_induct) (simp_all add: 6)
  from this [of k] show "views_after k settled = []" if "5 < k" using that by simp
qed


text \<open>A \<open>Notify\<close> as a permit and a queue.\<close>

definition sample_notify :: "(bool \<times> nat list) notify_ops" where
  "sample_notify =
     \<lparr>notify_new = (False, []),
      notify_one = (\<lambda>(p, ws). case ws of [] \<Rightarrow> (None, (True, [])) | t # ts \<Rightarrow> (Some t, (p, ts))),
      notified = (\<lambda>t (p, ws). (p, (False, if p then ws else ws @ [t]))),
      has_permit = fst, waiting_tasks = snd\<rparr>"

lemma sample_notify_law [simp]: "notify_law sample_notify"
  by (auto simp: notify_law_def sample_notify_def split: list.splits prod.splits)




end
