(* ===== verification/Handshake_Props.thy ===== *)
theory Handshake_Props
  imports Handshake Sample_Externals
begin

text \<open>
  Correctness of the handshaker. The invariant is over the history: every entry of the three tables comes from
  messages that were handled before, and every \<open>Up\<close> report comes from a completed handshake. The handshaker is an
  interpretation of \<open>history_server\<close> with it.
\<close>

subsection \<open>Where entries come from\<close>

type_synonym hs_history = "(inputs \<times> handshaker_message) list"

definition hello_msg :: "sockaddr \<Rightarrow> uuid \<Rightarrow> bytes \<Rightarrow> string option \<Rightarrow> hmac list \<Rightarrow> timestamp \<Rightarrow> uuid \<Rightarrow> handshaker_message" where
  "hello_msg a i pk zone hmacs ts nid = Packet a \<lparr>hs_id = i, hs_step = Hello pk zone hmacs ts\<rparr> nid"

definition ohai_msg :: "sockaddr \<Rightarrow> uuid \<Rightarrow> bytes \<Rightarrow> string option \<Rightarrow> hmac list \<Rightarrow> bytes \<Rightarrow> uuid \<Rightarrow> handshaker_message" where
  "ohai_msg a i pk zone hmacs challenge nid = Packet a \<lparr>hs_id = i, hs_step = Ohai pk zone hmacs challenge\<rparr> nid"

definition okboss_msg :: "sockaddr \<Rightarrow> uuid \<Rightarrow> bytes list \<Rightarrow> uuid \<Rightarrow> handshaker_message" where
  "okboss_msg a i response nid = Packet a \<lparr>hs_id = i, hs_step = OkBoss response\<rparr> nid"

definition goteam_msg :: "sockaddr \<Rightarrow> uuid \<Rightarrow> uuid \<Rightarrow> handshaker_message" where
  "goteam_msg a i nid = Packet a \<lparr>hs_id = i, hs_step = GoTeam\<rparr> nid"

definition hello_origin :: "hs_history \<Rightarrow> uuid \<times> sockaddr \<Rightarrow> handshake_state \<Rightarrow> bool" where
  "hello_origin ms k h \<longleftrightarrow>
     (\<exists>I aft. (I, SendHello (snd k) aft) \<in> set ms \<and> fst k = new_v4 I 0 \<and> clock_ok (now I) \<and>
        h = hello_new I (snd k) aft)"

definition ohai_origin :: "externals \<Rightarrow> nodeinfo \<Rightarrow> hs_history \<Rightarrow> uuid \<times> sockaddr \<Rightarrow> handshake_state \<Rightarrow> bool" where
  "ohai_origin E N ms k h \<longleftrightarrow>
     (\<exists>I pk zone hmacs ts nid.
        (I, hello_msg (snd k) (fst k) pk zone hmacs ts nid) \<in> set ms \<and>
        nid \<noteq> node_id N \<and> authentic E N (now I) ts hmacs \<and>
        h = ohai_from I (snd k) nid (fst k) pk ts zone)"

definition okboss_origin :: "externals \<Rightarrow> nodeinfo \<Rightarrow> hs_history \<Rightarrow> uuid \<times> sockaddr \<Rightarrow> handshake_state \<Rightarrow> bool" where
  "okboss_origin E N ms k h \<longleftrightarrow>
     (\<exists>I aft J pk zone hmacs challenge nid.
        subseq [(I, SendHello (snd k) aft), (J, ohai_msg (snd k) (fst k) pk zone hmacs challenge nid)] ms \<and>
        fst k = new_v4 I 0 \<and> authentic E N (now J) (now I) hmacs \<and>
        h = okboss_entry E N (hello_new I (snd k) aft) nid pk challenge zone)"

text \<open>
  A peer was authenticated as the responder of a handshake (it answered our challenge) or as its initiator (its
  \<open>Ohai\<close> carried a valid HMAC and it sent \<open>GoTeam\<close>).
\<close>

definition proven_by_answer :: "externals \<Rightarrow> nodeinfo \<Rightarrow> hs_history \<Rightarrow> peer \<Rightarrow> bool" where
  "proven_by_answer E N ms p \<longleftrightarrow>
     (\<exists>I a i pk zone hmacs ts nid J response nid'.
        subseq [(I, hello_msg a i pk zone hmacs ts nid), (J, okboss_msg a i response nid')] ms \<and>
        nid \<noteq> node_id N \<and> authentic E N (now I) ts hmacs \<and>
        answers E N i (public_key (keypair_gen I)) (randombytes_buf I 0 69) response \<and>
        p = peer_new (keypair_gen I) (Some pk) a nid (Some ts) zone)"

definition proven_by_hmac :: "externals \<Rightarrow> nodeinfo \<Rightarrow> hs_history \<Rightarrow> peer \<Rightarrow> bool" where
  "proven_by_hmac E N ms p \<longleftrightarrow>
     (\<exists>I a aft J pk zone hmacs challenge nid K nid'.
        subseq [(I, SendHello a aft), (J, ohai_msg a (new_v4 I 0) pk zone hmacs challenge nid),
                (K, goteam_msg a (new_v4 I 0) nid')] ms \<and>
        authentic E N (now J) (now I) hmacs \<and>
        p = peer_new (keypair_gen I) (Some pk) a nid (Some (now I)) zone)"

definition hs_hist :: "externals \<Rightarrow> nodeinfo \<Rightarrow> hs_history \<Rightarrow> handshaker \<Rightarrow> bool" where
  "hs_hist E N ms s \<longleftrightarrow>
     keys_ok E N s \<and>
     (\<forall>k h. hellos s k = Some h \<longrightarrow> hello_origin ms k h) \<and>
     (\<forall>k h. ohais s k = Some h \<longrightarrow> ohai_origin E N ms k h) \<and>
     (\<forall>k h. okboss s k = Some h \<longrightarrow> okboss_origin E N ms k h)"

fun hs_allowed :: "nodeinfo \<Rightarrow> effect \<Rightarrow> bool" where
  "hs_allowed N (Cast_packet_handler (Send a (H h))) = (\<exists>pk zone hmacs ts. hs_step h = Hello pk zone hmacs ts)"
| "hs_allowed N (Cast_packet_handler (SendMessage i m)) = (msg_body m = PeerRequest StartSubscription)"
| "hs_allowed N (Spawn_call_packet_handler d (Send a (H h))) =
     (d < 150 \<and> (\<exists>pk zone hmacs challenge. hs_step h = Ohai pk zone hmacs challenge))"
| "hs_allowed N (Call_packet_handler (Send a (H h))) = (hs_step h = GoTeam \<or> (\<exists>r. hs_step h = OkBoss r))"
| "hs_allowed N (Call_peer_manager (Request i (PeerStatus st))) =
     (i = node_id N \<and> status_state st = Up \<and> is_handshaken (status_peer st))"
| "hs_allowed N e = False"

definition hs_good :: "externals \<Rightarrow> nodeinfo \<Rightarrow> hs_history \<Rightarrow> effect \<Rightarrow> bool" where
  "hs_good E N ms e \<longleftrightarrow> hs_allowed N e \<and>
     (\<forall>p. e = peer_up N p \<longrightarrow> proven_by_answer E N ms p \<or> proven_by_hmac E N ms p)"

definition hs_legal :: "externals \<Rightarrow> inputs \<Rightarrow> handshaker_message \<Rightarrow> bool" where
  "hs_legal E I m \<longleftrightarrow>
     chrono_law E \<and> hash_law E \<and> draw_law I \<and> clock_ok (now I) \<and>
     (\<forall>a i pk zone hmacs ts nid. m = hello_msg a i pk zone hmacs ts nid \<longrightarrow> now I - ts \<noteq> - (2 ^ 63))"

subsection \<open>The history only grows\<close>

lemma subseq_snoc: "subseq xs ms \<Longrightarrow> subseq xs (ms @ ns)"
  by (rule subseq_order.trans) auto

lemma subseq_add: "subseq xs ms \<Longrightarrow> subseq (xs @ [x]) (ms @ [x])"
  by (rule list_emb_append_mono) simp_all

lemma subseq_after: "x \<in> set ms \<Longrightarrow> subseq [x, y] (ms @ [y])"
  using subseq_add [of "[x]" ms y] by (simp add: subseq_singleton_left)

lemma hello_origin_snoc: "hello_origin ms k h \<Longrightarrow> hello_origin (ms @ ns) k h"
  by (auto simp: hello_origin_def)

lemma ohai_origin_snoc: "ohai_origin E N ms k h \<Longrightarrow> ohai_origin E N (ms @ ns) k h"
  by (fastforce simp: ohai_origin_def)

lemma okboss_origin_snoc: "okboss_origin E N ms k h \<Longrightarrow> okboss_origin E N (ms @ ns) k h"
  unfolding okboss_origin_def by (blast intro: subseq_snoc)

lemma hs_hist_snoc:
  assumes "hs_hist E N ms s"
  shows "keys_ok E N s"
    and "hellos s k = Some h \<Longrightarrow> hello_origin (ms @ ns) k h"
    and "ohais s k = Some h \<Longrightarrow> ohai_origin E N (ms @ ns) k h"
    and "okboss s k = Some h \<Longrightarrow> okboss_origin E N (ms @ ns) k h"
    and "hs_hist E N (ms @ ns) s"
  using assms unfolding hs_hist_def
  by (blast intro: hello_origin_snoc ohai_origin_snoc okboss_origin_snoc)+

lemma proven_by_answer_snoc: "proven_by_answer E N ms p \<Longrightarrow> proven_by_answer E N (ms @ ns) p"
  unfolding proven_by_answer_def by (blast intro: subseq_snoc)

lemma proven_by_hmac_snoc: "proven_by_hmac E N ms p \<Longrightarrow> proven_by_hmac E N (ms @ ns) p"
  unfolding proven_by_hmac_def by (blast intro: subseq_snoc)

lemma hs_good_mono: "hs_good E N ms e \<Longrightarrow> hs_good E N (ms @ ns) e"
  unfolding hs_good_def by (blast intro: proven_by_answer_snoc proven_by_hmac_snoc)

subsection \<open>Every handler keeps the history invariant\<close>

lemma hello_origin_new: "clock_ok (now I) \<Longrightarrow> hello_origin (ms @ [(I, SendHello a aft)]) (new_v4 I 0, a) (hello_new I a aft)"
  by (auto simp: hello_origin_def)

lemma ohai_origin_new:
  "nid \<noteq> node_id N \<Longrightarrow> authentic E N (now I) ts hmacs \<Longrightarrow>
     ohai_origin E N (ms @ [(I, hello_msg a i pk zone hmacs ts nid)]) (i, a) (ohai_from I a nid i pk ts zone)"
  by (fastforce simp: ohai_origin_def)

lemma okboss_origin_new:
  assumes "hello_origin ms (i, a) h" and "authentic E N (now J) (hss_timestamp h) hmacs"
  shows "okboss_origin E N (ms @ [(J, ohai_msg a i pk zone hmacs challenge nid)]) (i, a)
    (okboss_entry E N h nid pk challenge zone)"
proof -
  from assms(1) obtain I aft where I: "(I, SendHello a aft) \<in> set ms" "i = new_v4 I 0" "h = hello_new I a aft"
    by (auto simp: hello_origin_def)
  with assms(2) have "authentic E N (now J) (now I) hmacs" by (simp add: hello_new_def)
  with I show ?thesis
    unfolding okboss_origin_def fst_conv snd_conv by (blast intro: subseq_after)
qed

lemma hello_origin_entry:
  assumes "hello_origin ms (i, a) h"
  shows "hss_id h = i" "our_keypair (hss_peer h) \<noteq> None" "clock_ok (hss_timestamp h)"
  using assms by (auto simp: hello_origin_def hello_new_def peer_new_def)

lemma ohai_origin_entry:
  assumes "ohai_origin E N ms (i, a) h"
  obtains kp challenge where "hss_id h = i" "our_keypair (hss_peer h) = Some kp"
    "hss_challenge h = Some challenge" "hss_and_then h = None" "is_handshaken (hss_peer h)"
  using assms by (auto simp: ohai_origin_def ohai_from_def peer_new_def is_handshaken_def)

lemma okboss_origin_entry:
  assumes "okboss_origin E N ms (i, a) h"
  shows "is_handshaken (hss_peer h)"
  using assms by (auto simp: okboss_origin_def hello_new_def peer_new_def)

text \<open>The peer of an answered \<open>Ohai\<close> entry and of an \<open>OkBoss\<close> entry that got its \<open>GoTeam\<close>.\<close>

lemma answered_entry_proven:
  assumes "ohai_origin E N ms (i, a) h" and "our_keypair (hss_peer h) = Some kp"
    and "hss_challenge h = Some challenge" and "answers E N i (public_key kp) challenge response"
  shows "proven_by_answer E N (ms @ [(J, okboss_msg a i response nid')]) (hss_peer h)"
proof -
  from assms(1) obtain I pk zone hmacs ts nid
    where I: "(I, hello_msg a i pk zone hmacs ts nid) \<in> set ms" "nid \<noteq> node_id N"
      "authentic E N (now I) ts hmacs" "h = ohai_from I a nid i pk ts zone"
    by (auto simp: ohai_origin_def)
  with assms(2,3) have "kp = keypair_gen I" "challenge = randombytes_buf I 0 69"
    "hss_peer h = peer_new (keypair_gen I) (Some pk) a nid (Some ts) zone"
    by (auto simp: ohai_from_def peer_new_def)
  with I assms(4) show ?thesis
    unfolding proven_by_answer_def by (blast intro: subseq_after)
qed

lemma confirmed_entry_proven:
  assumes "okboss_origin E N ms (i, a) h"
  shows "proven_by_hmac E N (ms @ [(K, goteam_msg a i nid')]) (hss_peer h)"
proof -
  from assms obtain I aft J pk zone hmacs challenge nid
    where I: "subseq [(I, SendHello a aft), (J, ohai_msg a i pk zone hmacs challenge nid)] ms"
      "i = new_v4 I 0" "authentic E N (now J) (now I) hmacs"
      "h = okboss_entry E N (hello_new I a aft) nid pk challenge zone"
    by (auto simp: okboss_origin_def)
  from I(4) have "hss_peer h = peer_new (keypair_gen I) (Some pk) a nid (Some (now I)) zone"
    by (simp add: okboss_entry_def hello_new_def peer_new_def)
  with I(1-3) subseq_add [OF I(1), of "(K, goteam_msg a i nid')"] show ?thesis
    unfolding proven_by_hmac_def by fastforce
qed

lemma peer_up_inject [simp]: "peer_up N p = peer_up N q \<longleftrightarrow> p = q"
  by (simp add: peer_up_def)

lemma hs_good_peer_up:
  "hs_good E N ms (peer_up N p) \<longleftrightarrow>
     is_handshaken p \<and> (proven_by_answer E N ms p \<or> proven_by_hmac E N ms p)"
  by (auto simp: hs_good_def) (simp_all add: peer_up_def)

lemma hs_good_other:
  "hs_good E N ms (Cast_packet_handler m) \<longleftrightarrow> hs_allowed N (Cast_packet_handler m)"
  "hs_good E N ms (Call_packet_handler m) \<longleftrightarrow> hs_allowed N (Call_packet_handler m)"
  "hs_good E N ms (Spawn_call_packet_handler d m) \<longleftrightarrow> hs_allowed N (Spawn_call_packet_handler d m)"
  by (simp_all add: hs_good_def peer_up_def)

lemma and_then_call_good: "e \<in> set (fst (and_then_call I aft s)) \<Longrightarrow> hs_good E N ms e"
  by (cases "(I, aft)" rule: and_then_call.cases)
    (simp_all add: hs_good_other act_simps send_start_subscription_def peer_message_def)

lemma and_then_call_None [simp]: "fst (and_then_call I None s) = []"
  by (simp add: act_simps)

lemma hs_hist_removals:
  assumes "hs_hist E N ms s"
  shows "hs_hist E N ms (s\<lparr>hellos := (hellos s)(k := None)\<rparr>)"
    and "hs_hist E N ms (s\<lparr>ohais := (ohais s)(k := None)\<rparr>)"
    and "hs_hist E N ms (s\<lparr>okboss := (okboss s)(k := None)\<rparr>)"
    and "hs_hist E N ms (s\<lparr>inflight := X\<rparr>)"
  using assms by (simp_all add: hs_hist_def keys_ok_def)

lemma hs_hist_inserts:
  assumes "hs_hist E N ms s"
  shows "hello_origin ms k h \<Longrightarrow> hs_hist E N ms (s\<lparr>hellos := (hellos s)(k \<mapsto> h)\<rparr>)"
    and "ohai_origin E N ms k h \<Longrightarrow> hs_hist E N ms (s\<lparr>ohais := (ohais s)(k \<mapsto> h)\<rparr>)"
    and "okboss_origin E N ms k h \<Longrightarrow> hs_hist E N ms (s\<lparr>okboss := (okboss s)(k \<mapsto> h)\<rparr>)"
  using assms by (simp_all add: hs_hist_def keys_ok_def)

lemma hist_send_hello:
  assumes hist: "hs_hist E N ms s" and laws: "chrono_law E" "hash_law E" and draws: "draw_law I"
    and clock: "clock_ok (now I)"
  shows "wp False (hs_good E N (ms @ [(I, SendHello a aft)])) (send_hello E N I a aft)
     (hs_hist E N (ms @ [(I, SendHello a aft)])) s"
proof -
  let ?ms = "ms @ [(I, SendHello a aft)]"
  have "hs_hist E N ?ms (s\<lparr>hellos := (hellos s)((new_v4 I 0, a) \<mapsto> hello_new I a aft)\<rparr>)"
    by (intro hs_hist_inserts hs_hist_snoc(5) [OF hist] hello_origin_new clock)
  from hs_hist_removals(4) [OF this] show ?thesis
    by (simp add: wp_def send_hello_eq [OF laws clock hs_hist_snoc(1) [OF hist]] hs_good_other)
qed

lemma hist_handle_hello:
  assumes hist: "hs_hist E N ms s" and laws: "chrono_law E" "hash_law E" and draws: "draw_law I"
    and clock: "clock_ok (now I)"
    and stamp: "now I - ts \<noteq> - (2 ^ 63)"
  shows "wp False (hs_good E N (ms @ [(I, hello_msg a i pk zone hmacs ts nid)]))
     (handle_hello E N I a nid i pk zone hmacs ts) (hs_hist E N (ms @ [(I, hello_msg a i pk zone hmacs ts nid)])) s"
proof -
  let ?ms = "ms @ [(I, hello_msg a i pk zone hmacs ts nid)]"
  note eq = handle_hello_eq [OF laws clock stamp hs_hist_snoc(1) [OF hist]]
  show ?thesis
  proof (cases "nid \<noteq> node_id N \<and> accepts E N I s ts hmacs")
    case True
    then have "hs_hist E N ?ms (s\<lparr>ohais := (ohais s)((i, a) \<mapsto> ohai_from I a nid i pk ts zone)\<rparr>)"
      by (intro hs_hist_inserts hs_hist_snoc(5) [OF hist] ohai_origin_new) (simp_all add: accepts_def)
    from hs_hist_removals(4) [OF this] draw_lawD(2) [OF draws, of 10 150]
    True show ?thesis
      by (simp add: wp_def eq hs_good_other ohai_reply_def ohai_delay_def)
  next
    case False
    then have "handle_hello E N I a nid i pk zone hmacs ts s = ([], Inr s)" by (auto simp: eq)
    then show ?thesis by (simp add: wp_def hs_hist_snoc(5) [OF hist])
  qed
qed

lemma hist_handle_ohai:
  assumes hist: "hs_hist E N ms s" and laws: "chrono_law E" "hash_law E" and draws: "draw_law I"
    and clock: "clock_ok (now I)"
  shows "wp False (hs_good E N (ms @ [(I, ohai_msg a i pk zone hmacs challenge nid)]))
     (handle_ohai E N I a nid i pk zone hmacs challenge)
     (hs_hist E N (ms @ [(I, ohai_msg a i pk zone hmacs challenge nid)])) s"
proof (cases "hellos s (i, a)")
  case None
  show ?thesis
    by (simp add: wp_def unknown_handshake_ignored(1) [OF None] hs_hist_snoc(5) [OF hist])
next
  case (Some h)
  let ?ms = "ms @ [(I, ohai_msg a i pk zone hmacs challenge nid)]"
  from hist Some have origin: "hello_origin ms (i, a) h" by (simp add: hs_hist_def)
  note entry = hello_origin_entry [OF origin]
  from entry(3) clock have "now I - hss_timestamp h \<noteq> - (2 ^ 63)" by (simp add: clock_ok_def)
  note eq = handle_ohai_eq [OF laws clock hs_hist_snoc(1) [OF hist] Some this entry(2)]
  have removed: "hs_hist E N ?ms (s\<lparr>hellos := (hellos s)((i, a) := None)\<rparr>)"
    by (intro hs_hist_removals hs_hist_snoc(5) [OF hist])
  show ?thesis
  proof (cases "accepts E N I s (hss_timestamp h) hmacs")
    case True
    then have "okboss_origin E N ?ms (i, a) (okboss_entry E N h nid pk challenge zone)"
      by (intro okboss_origin_new [OF origin]) (simp add: accepts_def)
    from hs_hist_inserts(3) [OF removed this] show ?thesis
      using True by (simp add: wp_def eq hs_good_other okboss_reply_def entry(1))
  next
    case False
    then show ?thesis by (simp add: wp_def eq removed)
  qed
qed

lemma hist_handle_okboss:
  assumes hist: "hs_hist E N ms s" and laws: "chrono_law E" "hash_law E" and draws: "draw_law I"
    and clock: "clock_ok (now I)"
  shows "wp False (hs_good E N (ms @ [(I, okboss_msg a i response nid)])) (handle_okboss E N I a i response)
     (hs_hist E N (ms @ [(I, okboss_msg a i response nid)])) s"
proof (cases "ohais s (i, a)")
  case None
  show ?thesis
    by (simp add: wp_def unknown_handshake_ignored(2) [OF None] hs_hist_snoc(5) [OF hist])
next
  case (Some h)
  let ?ms = "ms @ [(I, okboss_msg a i response nid)]"
  from hist Some have origin: "ohai_origin E N ms (i, a) h" by (simp add: hs_hist_def)
  obtain kp challenge where entry: "hss_id h = i" "our_keypair (hss_peer h) = Some kp"
    "hss_challenge h = Some challenge" "hss_and_then h = None" "is_handshaken (hss_peer h)"
    by (rule ohai_origin_entry [OF origin])
  note eq = handle_okboss_eq [OF laws(2) Some entry(2,3)]
  have removed: "hs_hist E N ?ms (s\<lparr>ohais := (ohais s)((i, a) := None)\<rparr>)"
    by (intro hs_hist_removals hs_hist_snoc(5) [OF hist])
  show ?thesis
  proof (cases "answers E N (hss_id h) (public_key kp) challenge response")
    case True
    then have "proven_by_answer E N ?ms (hss_peer h)"
      by (intro answered_entry_proven [OF origin entry(2,3)]) (simp add: entry(1))
    with True entry(4,5) removed show ?thesis by (simp add: wp_def eq hs_good_other hs_good_peer_up act_simps)
  next
    case False
    then show ?thesis by (simp add: wp_def eq removed)
  qed
qed

lemma hist_handle_goteam:
  assumes hist: "hs_hist E N ms s" and laws: "chrono_law E" "hash_law E" and draws: "draw_law I"
    and clock: "clock_ok (now I)"
  shows "wp False (hs_good E N (ms @ [(I, goteam_msg a i nid)])) (handle_goteam N I a i)
     (hs_hist E N (ms @ [(I, goteam_msg a i nid)])) s"
proof (cases "okboss s (i, a)")
  case None
  show ?thesis
    by (simp add: wp_def unknown_handshake_ignored(3) [OF None] hs_hist_snoc(5) [OF hist])
next
  case (Some h)
  let ?ms = "ms @ [(I, goteam_msg a i nid)]"
  from hist Some have origin: "okboss_origin E N ms (i, a) h" by (simp add: hs_hist_def)
  have removed: "hs_hist E N ?ms (s\<lparr>okboss := (okboss s)((i, a) := None)\<rparr>)"
    by (intro hs_hist_removals hs_hist_snoc(5) [OF hist])
  have "hs_good E N ?ms (peer_up N (hss_peer h))"
    using confirmed_entry_proven [OF origin] okboss_origin_entry [OF origin] by (simp add: hs_good_peer_up)
  then show ?thesis
    by (auto simp: wp_def handle_goteam_eq [OF Some] removed intro: and_then_call_good)
qed

lemma hist_handle_dead:
  assumes hist: "hs_hist E N ms s" and laws: "chrono_law E" "hash_law E" and draws: "draw_law I"
    and clock: "clock_ok (now I)"
  shows "wp False (hs_good E N (ms @ [xm])) (handle_dead a i) (hs_hist E N (ms @ [xm])) s"
  using hs_hist_snoc(5) [OF hist, of "[xm]"]
  by (simp add: wp_def handle_dead_eq hs_hist_def keys_ok_def)

lemma hist_bootstrap:
  assumes hist: "hs_hist E N ms s" and laws: "chrono_law E" "hash_law E" and draws: "draw_law I"
    and clock: "clock_ok (now I)"
  shows "wp False (hs_good E N (ms @ [xm])) (bootstrap E N I) (hs_hist E N (ms @ [xm])) s"
  using hs_hist_snoc(5) [OF hist, of "[xm]"]
  by (simp add: wp_def bootstrap_eq [OF hs_hist_snoc(1) [OF hist]] hs_hist_def keys_ok_def)

lemma hs_hist_handle:
  assumes "hs_legal E I m" and "hs_hist E N ms s"
  shows "wp False (hs_good E N (ms @ [(I, m)])) (hs_handle_message E N I m) (hs_hist E N (ms @ [(I, m)])) s"
proof -
  from assms(1) have laws: "chrono_law E" "hash_law E" "draw_law I" "clock_ok (now I)"
    and ts: "m = hello_msg a i pk zone hmacs ts nid \<Longrightarrow> now I - ts \<noteq> - (2 ^ 63)" for a i pk zone hmacs ts nid
    unfolding hs_legal_def by blast+
  note rules = assms(2) laws
  show ?thesis
  proof (cases m)
    case Bootstrap
    then show ?thesis by (simp add: hist_bootstrap [OF rules])
  next
    case (SendHello a aft)
    then show ?thesis by (simp add: hist_send_hello [OF rules])
  next
    case (Packet a h nid)
    obtain i st where h: "h = \<lparr>hs_id = i, hs_step = st\<rparr>" by (cases h) simp
    show ?thesis
    proof (cases st)
      case (Hello pk zone hmacs ts')
      with Packet h have m: "m = hello_msg a i pk zone hmacs ts' nid" by (simp add: hello_msg_def)
      have "hs_handle_message E N I m = handle_hello E N I a nid i pk zone hmacs ts'"
        by (simp add: m hello_msg_def)
      with hist_handle_hello [OF rules ts [OF m]] show ?thesis by (simp add: m)
    next
      case (Ohai pk zone hmacs challenge)
      then show ?thesis using hist_handle_ohai [OF rules] by (simp add: Packet h ohai_msg_def)
    next
      case (OkBoss response)
      then show ?thesis using hist_handle_okboss [OF rules] by (simp add: Packet h okboss_msg_def)
    next
      case GoTeam
      then show ?thesis using hist_handle_goteam [OF rules] by (simp add: Packet h goteam_msg_def)
    next
      case Dead
      then show ?thesis by (simp add: Packet h hist_handle_dead [OF rules])
    qed
  qed
qed

interpretation hs: history_server handshaker_new "hs_handle_message E N" "hs_legal E" "hs_hist E N" "hs_good E N" False
  for E N
proof unfold_locales
  show "hs_hist E N [] handshaker_new" by (simp add: hs_hist_def keys_ok_def handshaker_new_def)
qed (simp_all add: hs_hist_handle hs_good_mono)

subsection \<open>Runs of the handshaker\<close>

definition hs_inv :: "handshaker \<Rightarrow> bool" where
  "hs_inv s \<longleftrightarrow>
     (\<forall>i a h. hellos s (i, a) = Some h \<longrightarrow>
        hss_id h = i \<and> peer_sockaddr (hss_peer h) = a \<and> (\<exists>t. hss_timer h = Some (start_timer t i a)) \<and>
        \<not> is_handshaken (hss_peer h)) \<and>
     (\<forall>i a h. ohais s (i, a) = Some h \<longrightarrow>
        hss_id h = i \<and> peer_sockaddr (hss_peer h) = a \<and> (\<exists>t. hss_timer h = Some (start_timer t i a)) \<and>
        is_handshaken (hss_peer h) \<and> hss_and_then h = None) \<and>
     (\<forall>i a h. okboss s (i, a) = Some h \<longrightarrow>
        hss_id h = i \<and> peer_sockaddr (hss_peer h) = a \<and> hss_timer h = None \<and> is_handshaken (hss_peer h))"

lemma hs_hist_inv:
  assumes "hs_hist E N ms s"
  shows "hs_inv s"
proof -
  have "hss_id h = i \<and> peer_sockaddr (hss_peer h) = a \<and> (\<exists>t. hss_timer h = Some (start_timer t i a)) \<and>
      \<not> is_handshaken (hss_peer h)" if "hellos s (i, a) = Some h" for i a h
    using hs_hist_snoc(2) [OF assms that, of "[]"]
    by (auto simp: hello_origin_def hello_new_def peer_new_def is_handshaken_def)
  moreover have "hss_id h = i \<and> peer_sockaddr (hss_peer h) = a \<and> (\<exists>t. hss_timer h = Some (start_timer t i a)) \<and>
      is_handshaken (hss_peer h) \<and> hss_and_then h = None" if "ohais s (i, a) = Some h" for i a h
    using hs_hist_snoc(3) [OF assms that, of "[]"]
    by (auto simp: ohai_origin_def ohai_from_def peer_new_def is_handshaken_def)
  moreover have "hss_id h = i \<and> peer_sockaddr (hss_peer h) = a \<and> hss_timer h = None \<and> is_handshaken (hss_peer h)"
    if "okboss s (i, a) = Some h" for i a h
    using hs_hist_snoc(4) [OF assms that, of "[]"]
    by (auto simp: okboss_origin_def okboss_entry_def hello_new_def peer_new_def is_handshaken_def)
  ultimately show ?thesis unfolding hs_inv_def by blast
qed


text \<open>
  C11. Only authenticated peers are reported: whenever the handshaker tells the peer manager that a peer is up, it has
  before received, in this order, from that peer's address and in one handshake, either a \<open>Hello\<close> of another node with a valid HMAC
  under a shared key and an \<open>OkBoss\<close> whose response answers the challenge this node drew, or, after sending a \<open>Hello\<close>
  there, an \<open>Ohai\<close> with a valid HMAC and a \<open>GoTeam\<close>. The reported peer has exactly the id, zone and public key of those packets and the key
  pair drawn for that handshake.
\<close>

theorem peer_up_authenticated:
  assumes "\<forall>(I, m) \<in> set ms. hs_legal E I m"
    and "peer_up N p \<in> set (fst (run (hs_handle_message E N) ms handshaker_new))"
  shows "proven_by_answer E N ms p \<or> proven_by_hmac E N ms p"
  using wp_effects [OF hs.run_history [OF assms(1)] assms(2)] by (simp add: hs_good_peer_up)

subsection \<open>A complete handshake\<close>

lemma in_window_stamp: "in_window t ts \<Longrightarrow> t - ts \<noteq> - (2 ^ 63)"
  by (auto simp: in_window_def)

lemma keys_ok_ready: "hashed_keys s = Some (key_hashes E N) \<Longrightarrow> keys_ok E N s"
  by (simp add: keys_ok_def)

lemma shared_key_answers:
  "set (node_keys N) \<inter> set (node_keys M) \<noteq> {} \<Longrightarrow>
     answers E M i pk challenge (map (response_for E i pk challenge) (node_keys N))"
  by (auto simp: answers_def)

text \<open>The four messages of a handshake between the nodes \<open>N\<close> and \<open>M\<close> that starts with the inputs \<open>I1\<close> of \<open>N\<close> and \<open>I2\<close> of \<open>M\<close>.\<close>

definition hello_with :: "bytes \<Rightarrow> externals \<Rightarrow> nodeinfo \<Rightarrow> inputs \<Rightarrow> handshake" where
  "hello_with pk E N I1 = \<lparr>hs_id = new_v4 I1 0,
     hs_step = Hello pk (node_zone N) (own_hmacs E N I1 (now I1)) (now I1)\<rparr>"

definition sent_hello :: "externals \<Rightarrow> nodeinfo \<Rightarrow> inputs \<Rightarrow> handshake" where
  "sent_hello E N I1 = hello_with (public_key (keypair_gen I1)) E N I1"

lemma step_send_hello:
  assumes "chrono_law E" and "hash_law E" and "clock_ok (now I1)" and "hashed_keys s = Some (key_hashes E N)"
  shows "hs_handle_message E N I1 (SendHello b aft) s =
    ([Cast_packet_handler (Send b (H (sent_hello E N I1)))],
     Inr (s\<lparr>hellos := (hellos s)((new_v4 I1 0, b) \<mapsto> hello_new I1 b aft), inflight := insert b (inflight s)\<rparr>))"
  by (simp add: send_hello_eq [OF assms(1-3) keys_ok_ready [OF assms(4)]] sent_hello_def hello_with_def assms(4))

lemma step_hello_with:
  assumes "chrono_law E" and "hash_law E" and "clock_ok (now I2)" and "hashed_keys s = Some (key_hashes E M)"
    and "node_id N \<noteq> node_id M" and "in_window (now I2) (now I1)"
    and "set (node_keys N) \<inter> set (node_keys M) \<noteq> {}"
  shows "hs_handle_message E M I2 (Packet a (hello_with pk E N I1) (node_id N)) s =
    ([Spawn_call_packet_handler (ohai_delay M E I2 (a \<in> inflight s))
        (Send a (H (ohai_reply E M I2 (new_v4 I1 0) (now I1))))],
     Inr (s\<lparr>ohais := (ohais s)((new_v4 I1 0, a) \<mapsto>
              ohai_from I2 a (node_id N) (new_v4 I1 0) pk (now I1) (node_zone N)),
            inflight := insert a (inflight s)\<rparr>))"
proof -
  have "authentic E M (now I2) (now I1) (own_hmacs E N I1 (now I1))"
    by (rule own_hmacs_authentic [OF assms(2,7,6)])
  with assms(4,5) show ?thesis
    by (simp add: hello_with_def accepts_def
        handle_hello_eq [OF assms(1-3) in_window_stamp [OF assms(6)] keys_ok_ready [OF assms(4)]])
qed

lemma step_hello:
  assumes "chrono_law E" and "hash_law E" and "clock_ok (now I2)" and "hashed_keys s = Some (key_hashes E M)"
    and "node_id N \<noteq> node_id M" and "in_window (now I2) (now I1)"
    and "set (node_keys N) \<inter> set (node_keys M) \<noteq> {}"
  shows "hs_handle_message E M I2 (Packet a (sent_hello E N I1) (node_id N)) s =
    ([Spawn_call_packet_handler (ohai_delay M E I2 (a \<in> inflight s))
        (Send a (H (ohai_reply E M I2 (new_v4 I1 0) (now I1))))],
     Inr (s\<lparr>ohais := (ohais s)((new_v4 I1 0, a) \<mapsto>
              ohai_from I2 a (node_id N) (new_v4 I1 0) (public_key (keypair_gen I1)) (now I1) (node_zone N)),
            inflight := insert a (inflight s)\<rparr>))"
  unfolding sent_hello_def by (rule step_hello_with [OF assms])

lemma step_ohai_any:
  assumes "chrono_law E" and "hash_law E" and "clock_ok (now I3)" and "hashed_keys s = Some (key_hashes E N)"
    and "hellos s (new_v4 I1 0, b) = Some (hello_new I1 b aft)" and "authentic E N (now I3) (now I1) hmacs"
  shows "hs_handle_message E N I3
      (Packet b \<lparr>hs_id = new_v4 I1 0, hs_step = Ohai pk zone hmacs challenge\<rparr> nid) s =
    ([Call_packet_handler (Send b (H (okboss_reply E N (new_v4 I1 0) pk challenge)))],
     Inr (s\<lparr>hellos := (hellos s)((new_v4 I1 0, b) := None),
            okboss := (okboss s)((new_v4 I1 0, b) \<mapsto>
              okboss_entry E N (hello_new I1 b aft) nid pk challenge zone)\<rparr>))"
proof -
  have "hss_timestamp (hello_new I1 b aft) = now I1" "our_keypair (hss_peer (hello_new I1 b aft)) \<noteq> None"
      "hss_id (hello_new I1 b aft) = new_v4 I1 0"
    by (simp_all add: hello_new_def peer_new_def)
  moreover have "now I3 - now I1 \<noteq> - (2 ^ 63)"
    using assms(6) by (intro in_window_stamp) (simp add: authentic_def)
  ultimately show ?thesis
    using assms(4,6)
    by (simp add: accepts_def handle_ohai_eq [OF assms(1-3) keys_ok_ready [OF assms(4)] assms(5)])
qed

lemma step_ohai:
  assumes "chrono_law E" and "hash_law E" and "clock_ok (now I3)" and "hashed_keys s = Some (key_hashes E N)"
    and "hellos s (new_v4 I1 0, b) = Some (hello_new I1 b aft)" and "in_window (now I3) (now I1)"
    and "set (node_keys N) \<inter> set (node_keys M) \<noteq> {}"
  shows "hs_handle_message E N I3 (Packet b (ohai_reply E M I2 (new_v4 I1 0) (now I1)) (node_id M)) s =
    ([Call_packet_handler (Send b (H (okboss_reply E N (new_v4 I1 0) (public_key (keypair_gen I2))
        (randombytes_buf I2 0 69))))],
     Inr (s\<lparr>hellos := (hellos s)((new_v4 I1 0, b) := None),
            okboss := (okboss s)((new_v4 I1 0, b) \<mapsto> okboss_entry E N (hello_new I1 b aft) (node_id M)
              (public_key (keypair_gen I2)) (randombytes_buf I2 0 69) (node_zone M))\<rparr>))"
proof -
  have "authentic E N (now I3) (now I1) (own_hmacs E M I2 (now I1))"
    using assms(7) by (intro own_hmacs_authentic [OF assms(2) _ assms(6)]) (simp add: Int_commute)
  then show ?thesis
    unfolding ohai_reply_def by (rule step_ohai_any [OF assms(1-5)])
qed

lemma step_okboss:
  assumes "hash_law E" and "ohais s (i, a) = Some (ohai_from I2 a nid i pk ts zone)"
    and "set (node_keys N) \<inter> set (node_keys M) \<noteq> {}"
  shows "hs_handle_message E M I4
      (Packet a (okboss_reply E N i (public_key (keypair_gen I2)) (randombytes_buf I2 0 69)) nid') s =
    ([peer_up M (peer_new (keypair_gen I2) (Some pk) a nid (Some ts) zone),
      Call_packet_handler (Send a (H \<lparr>hs_id = i, hs_step = GoTeam\<rparr>))],
     Inr (s\<lparr>ohais := (ohais s)((i, a) := None)\<rparr>))"
proof -
  have "our_keypair (hss_peer (ohai_from I2 a nid i pk ts zone)) = Some (keypair_gen I2)"
      "hss_challenge (ohai_from I2 a nid i pk ts zone) = Some (randombytes_buf I2 0 69)"
    by (simp_all add: ohai_from_def peer_new_def)
  note eq = handle_okboss_eq [OF assms(1,2) this]
  show ?thesis
    by (simp add: okboss_reply_def eq shared_key_answers [OF assms(3)]) (simp add: ohai_from_def act_simps
        shared_key_answers [OF assms(3)])
qed

lemma step_goteam:
  assumes "okboss s (new_v4 I1 0, b) = Some (okboss_entry E N (hello_new I1 b aft) nid pk challenge zone)"
  shows "hs_handle_message E N I5 (Packet b \<lparr>hs_id = new_v4 I1 0, hs_step = GoTeam\<rparr> nid') s =
    (peer_up N (peer_new (keypair_gen I1) (Some pk) b nid (Some (now I1)) zone) # fst (and_then_call I5 aft s),
     Inr (s\<lparr>okboss := (okboss s)((new_v4 I1 0, b) := None)\<rparr>))"
  by (simp add: handle_goteam_eq [OF assms]) (simp add: okboss_entry_def hello_new_def peer_new_def)

lemma handshake_steps:
  assumes "chrono_law E" and "hash_law E"
    and "node_id N \<noteq> node_id M" and "set (node_keys N) \<inter> set (node_keys M) \<noteq> {}"
    and "hashed_keys s = Some (key_hashes E N)" and "hashed_keys t = Some (key_hashes E M)"
    and "clock_ok (now I1)" and "clock_ok (now I2)" and "clock_ok (now I3)"
    and "in_window (now I2) (now I1)" and "in_window (now I3) (now I1)"
  obtains h1 h2 h3 h4 delay s1 s2 s3 t1 t2 where
    "hs_handle_message E N I1 (SendHello b aft) s = ([Cast_packet_handler (Send b (H h1))], Inr s1)"
    "hs_handle_message E M I2 (Packet a h1 (node_id N)) t =
      ([Spawn_call_packet_handler delay (Send a (H h2))], Inr t1)"
    "hs_handle_message E N I3 (Packet b h2 (node_id M)) s1 = ([Call_packet_handler (Send b (H h3))], Inr s2)"
    "hs_handle_message E M I4 (Packet a h3 (node_id N)) t1 =
      ([peer_up M (peer_new (keypair_gen I2) (Some (public_key (keypair_gen I1))) a (node_id N)
          (Some (now I1)) (node_zone N)), Call_packet_handler (Send a (H h4))], Inr t2)"
    "hs_handle_message E N I5 (Packet b h4 (node_id M)) s2 =
      (peer_up N (peer_new (keypair_gen I1) (Some (public_key (keypair_gen I2))) b (node_id M)
          (Some (now I1)) (node_zone M)) # fst (and_then_call I5 aft s2), Inr s3)"
    "hellos s3 (hs_id h1, b) = None"
    "okboss s3 (hs_id h1, b) = None"
    "ohais t2 (hs_id h1, a) = None"
proof -
  let ?i = "new_v4 I1 0" and ?pk2 = "public_key (keypair_gen I2)" and ?c = "randombytes_buf I2 0 69"
  let ?s1 = "s\<lparr>hellos := (hellos s)((?i, b) \<mapsto> hello_new I1 b aft), inflight := insert b (inflight s)\<rparr>"
  let ?t1 = "t\<lparr>ohais := (ohais t)((?i, a) \<mapsto> ohai_from I2 a (node_id N) ?i (public_key (keypair_gen I1)) (now I1)
      (node_zone N)), inflight := insert a (inflight t)\<rparr>"
  let ?s2 = "?s1\<lparr>hellos := (hellos ?s1)((?i, b) := None), okboss := (okboss ?s1)((?i, b) \<mapsto>
      okboss_entry E N (hello_new I1 b aft) (node_id M) ?pk2 ?c (node_zone M))\<rparr>"
  note step1 = step_send_hello [OF assms(1,2,7,5), of b aft]
    and step2 = step_hello [OF assms(1,2,8,6,3,10,4), of a]
    and step3 = step_ohai [OF assms(1,2,9) _ _ assms(11,4), of ?s1 b aft I2]
    and step4 = step_okboss [OF assms(2) _ assms(4), of ?t1 ?i a I2 "node_id N" "public_key (keypair_gen I1)"
      "now I1" "node_zone N" I4 "node_id N"]
    and step5 = step_goteam [of ?s2 I1 b E N aft "node_id M" ?pk2 ?c "node_zone M" I5 "node_id M"]
  show ?thesis
    by (rule that [OF step1 step2 step3 step4 step5]; simp add: assms(5) sent_hello_def hello_with_def)
qed

text \<open>
  C12. Two nodes that share a key complete a handshake: if both have hashed their keys, have different ids and handle the
  messages within the window of the initiator's timestamp, then, whatever else is in their tables, sending a \<open>Hello\<close> and
  delivering each message that results makes both report the other as up. The two reports agree on the keys: each side
  has its own key pair and the other's public key, the other's node id, zone and address, and the same timestamp.
  Afterwards the initiator runs its deferred action and the handshake is in no table.
\<close>

theorem handshake_completes:
  assumes "chrono_law E" and "hash_law E"
    and "node_id N \<noteq> node_id M" and "set (node_keys N) \<inter> set (node_keys M) \<noteq> {}"
    and "hashed_keys s = Some (key_hashes E N)" and "hashed_keys t = Some (key_hashes E M)"
    and "clock_ok (now I1)" and "clock_ok (now I2)" and "clock_ok (now I3)"
    and "in_window (now I2) (now I1)" and "in_window (now I3) (now I1)"
  shows "\<exists>h1 h2 h3 h4 delay s1 s2 s3 t1 t2.
    hs_handle_message E N I1 (SendHello b aft) s = ([Cast_packet_handler (Send b (H h1))], Inr s1) \<and>
    hs_handle_message E M I2 (Packet a h1 (node_id N)) t =
      ([Spawn_call_packet_handler delay (Send a (H h2))], Inr t1) \<and>
    hs_handle_message E N I3 (Packet b h2 (node_id M)) s1 = ([Call_packet_handler (Send b (H h3))], Inr s2) \<and>
    hs_handle_message E M I4 (Packet a h3 (node_id N)) t1 =
      ([peer_up M (peer_new (keypair_gen I2) (Some (public_key (keypair_gen I1))) a (node_id N)
          (Some (now I1)) (node_zone N)), Call_packet_handler (Send a (H h4))], Inr t2) \<and>
    hs_handle_message E N I5 (Packet b h4 (node_id M)) s2 =
      (peer_up N (peer_new (keypair_gen I1) (Some (public_key (keypair_gen I2))) b (node_id M)
          (Some (now I1)) (node_zone M)) # fst (and_then_call I5 aft s2), Inr s3) \<and>
    hellos s3 (hs_id h1, b) = None \<and> okboss s3 (hs_id h1, b) = None \<and> ohais t2 (hs_id h1, a) = None"
  by (rule handshake_steps [OF assms, of b aft a I4 I5]) blast

subsection \<open>Samples\<close>

abbreviation sample_E :: externals where
  "sample_E \<equiv> sample_externals True"

definition node_one :: nodeinfo where
  "node_one = sample_node Uniform"

definition node_two :: nodeinfo where
  "node_two = (sample_node Uniform)\<lparr>node_id := 2\<rparr>"

definition ready :: "nodeinfo \<Rightarrow> handshaker" where
  "ready N = handshaker_new\<lparr>hashed_keys := Some (key_hashes sample_E N)\<rparr>"

lemma sample_nodes [simp]:
  "node_id node_one = 1" "node_id node_two = 2" "node_keys node_one = [''insecure'']"
  "node_keys node_two = [''insecure'']" "node_zone node_one = None" "node_zone node_two = None"
  by (simp_all add: node_one_def node_two_def sample_node_def)

lemma ready_simps [simp]:
  "hashed_keys (ready N) = Some (key_hashes sample_E N)" "keys_ok sample_E N (ready N)"
  by (simp_all add: ready_def keys_ok_def)

lemma sample_clock [simp]: "clock_ok (now sample_inputs)" "in_window (now sample_inputs) (now sample_inputs)"
  by (simp_all add: clock_ok_def in_window_def sample_inputs_def)

lemma sample_hs_legal:
  "hs_legal sample_E sample_inputs m \<longleftrightarrow>
     (\<forall>a i pk zone hmacs ts nid. m = hello_msg a i pk zone hmacs ts nid \<longrightarrow> now sample_inputs - ts \<noteq> - (2 ^ 63))"
  by (simp add: hs_legal_def)

text \<open>Node two handles \<open>Bootstrap\<close>, the \<open>Hello\<close> of node one and its \<open>OkBoss\<close>.\<close>

definition sample_hs_run :: hs_history where
  "sample_hs_run =
     [(sample_inputs, Bootstrap),
      (sample_inputs, Packet sample_addr (sent_hello sample_E node_one sample_inputs) 1),
      (sample_inputs, Packet sample_addr (okboss_reply sample_E node_one (new_v4 sample_inputs 0)
         (public_key (keypair_gen sample_inputs)) (randombytes_buf sample_inputs 0 69)) 1)]"

lemma sample_hs_run_legal: "\<forall>(I, m) \<in> set sample_hs_run. hs_legal sample_E I m"
  by (simp add: sample_hs_run_def sample_hs_legal hello_msg_def sent_hello_def hello_with_def okboss_reply_def)

definition sample_hs_peer :: peer where
  "sample_hs_peer = peer_new (keypair_gen sample_inputs) (Some (public_key (keypair_gen sample_inputs))) sample_addr 1
     (Some (now sample_inputs)) None"

lemma sample_hs_run_up:
  "peer_up node_two sample_hs_peer \<in> set (fst (run (hs_handle_message sample_E node_two) sample_hs_run handshaker_new))"
proof -
  let ?s1 = "ready node_two\<lparr>bootstrap_timer := Some (delayed_new (instant_now sample_inputs) (gen_range sample_inputs 0 10 150)
    (Future_bootstrap (node_peers node_two)))\<rparr>"
  have 1: "hs_handle_message sample_E node_two sample_inputs Bootstrap handshaker_new = ([], Inr ?s1)"
    by (simp add: bootstrap_eq keys_ok_def handshaker_new_def ready_def)
  note 2 = step_hello [of sample_E sample_inputs ?s1 node_two node_one sample_inputs sample_addr, unfolded sample_nodes]
  note 3 = step_okboss [of sample_E _ "new_v4 sample_inputs 0" sample_addr sample_inputs 1
    "public_key (keypair_gen sample_inputs)" "now sample_inputs" None node_one node_two sample_inputs 1, unfolded sample_nodes]
  show ?thesis
    by (simp add: sample_hs_run_def then_do_def 1 2 3 skip_apply sample_hs_peer_def del: hs_handle_message.simps)
qed


theorem peer_up_authenticated_witness:
  "proven_by_answer sample_E node_two sample_hs_run sample_hs_peer \<or>
   proven_by_hmac sample_E node_two sample_hs_run sample_hs_peer"
  by (rule peer_up_authenticated [OF sample_hs_run_legal sample_hs_run_up])

theorem handshake_completes_witness:
  "\<exists>h3 h4 t1 t2. hs_handle_message sample_E node_two sample_inputs (Packet sample_addr h3 1) t1 =
     ([peer_up node_two sample_hs_peer, Call_packet_handler (Send sample_addr (H h4))], Inr t2)"
  using handshake_completes [of sample_E node_one node_two "ready node_one" "ready node_two" sample_inputs sample_inputs
      sample_inputs "V4 1 1" None sample_addr sample_inputs sample_inputs]
  by (simp add: sample_hs_peer_def) blast

subsection \<open>What each step accepts\<close>

text \<open>
  C26. What a \<open>Hello\<close> does, exactly. It is answered if it comes from another node, the node's keys are hashed, its
  timestamp is in the window and one of its HMACs is the keyed hash of its message and that timestamp under one of the
  node's keys: then an \<open>Ohai\<close> with a fresh challenge is sent (after a random delay if the address is already in flight)
  and an entry with a 60 s timer is stored. Otherwise, the node's own \<open>Hello\<close> included, nothing happens at all.
\<close>

theorem hello_handled:
  assumes "chrono_law E" and "hash_law E" and "clock_ok (now I)" and "now I - ts \<noteq> - (2 ^ 63)" and "keys_ok E N s"
  shows "hs_handle_message E N I (Packet addr \<lparr>hs_id = i, hs_step = Hello pk zone hmacs ts\<rparr> nid) s =
    (if nid \<noteq> node_id N \<and> hashed_keys s \<noteq> None \<and> \<bar>now I - ts\<bar> < 60000000 \<and>
        (\<exists>h \<in> set hmacs. \<exists>key \<in> set (node_keys N). \<exists>hk. generic_hash E None (as_bytes key) = Some hk \<and>
           generic_hash E (Some hk) (hmac_message h @ i64_to_string ts) = Some (hmac_hash h))
     then ([Spawn_call_packet_handler (ohai_delay N E I (addr \<in> inflight s))
              (Send addr (H (ohai_reply E N I i ts)))],
           Inr (s\<lparr>ohais := (ohais s)((i, addr) \<mapsto> ohai_from I addr nid i pk ts zone),
                  inflight := insert addr (inflight s)\<rparr>))
     else ([], Inr s))"
proof -
  have "(nid \<noteq> node_id N \<and> hashed_keys s \<noteq> None \<and> \<bar>now I - ts\<bar> < 60000000 \<and>
        (\<exists>h \<in> set hmacs. \<exists>key \<in> set (node_keys N). \<exists>hk. generic_hash E None (as_bytes key) = Some hk \<and>
           generic_hash E (Some hk) (hmac_message h @ i64_to_string ts) = Some (hmac_hash h))) \<longleftrightarrow>
      (nid \<noteq> node_id N \<and> accepts E N I s ts hmacs)"
    unfolding accepts_def authentic_def in_window_def hmac_for_def Bex_def set_key_hashes by blast
  then show ?thesis
    by (simp only: hs_handle_message.simps handshake.simps handle_handshake.simps handle_hello_eq [OF assms])
qed

theorem hello_handled_witness:
  "hs_handle_message sample_E node_one sample_inputs
     (Packet sample_addr \<lparr>hs_id = 5, hs_step = Hello [] None [] 1700000000000000000\<rparr> 2) (ready node_one) =
   ([], Inr (ready node_one))"
  by (subst hello_handled) (simp_all add: sample_inputs_def clock_ok_def)

text \<open>
  A node that shares no key is ignored: if no two different keys of the two nodes hash to the same value, and no two different
  hashed keys give the same keyed hash, the \<open>Hello\<close> of a node with no key in common has no effect, at any time.
\<close>

theorem stranger_hello_ignored:
  assumes "chrono_law E" and "hash_law E" and "clock_ok (now I2)" and "now I2 - now I1 \<noteq> - (2 ^ 63)"
    and "keys_ok E M t" and "set (node_keys N) \<inter> set (node_keys M) = {}"
    and keys: "\<forall>x \<in> set (node_keys N). \<forall>y \<in> set (node_keys M). x \<noteq> y \<longrightarrow>
      generic_hash E None (as_bytes x) \<noteq> generic_hash E None (as_bytes y)"
    and hashes: "\<forall>k l d. k \<noteq> l \<longrightarrow> length k = 64 \<longrightarrow> length l = 64 \<longrightarrow>
      generic_hash E (Some k) d \<noteq> generic_hash E (Some l) d"
  shows "hs_handle_message E M I2 (Packet a (sent_hello E N I1) nid) t = ([], Inr t)"
proof -
  have "\<not> hmac_for E (now I1) hk (own_hmac E I1 (now I1) (k, hk'))"
    if "hk \<in> set (key_hashes E M)" and "hk' \<in> set (key_hashes E N)" for k hk hk'
  proof -
    from that assms(6) keys have "hk' \<noteq> hk" unfolding set_key_hashes by (metis disjoint_iff)
    moreover have "length hk = 64" "length hk' = 64" using that by (auto intro: length_key_hash [OF assms(2)])
    ultimately show ?thesis
      using hashes hash_lawD(2) [OF assms(2) \<open>length hk' = 64\<close>]
      by (simp add: hmac_for_def own_hmac_def Let_def) (metis option.sel)
  qed
  then have "\<not> authentic E M (now I2) (now I1) (own_hmacs E N I1 (now I1))"
    unfolding authentic_def own_hmacs_def by (auto dest: enumerate_mem [THEN iffD1, OF exI])
  then show ?thesis
    by (simp add: sent_hello_def hello_with_def handle_hello_eq [OF assms(1-5)] accepts_def)
qed

lemma sample_pad_id: "length k = 64 \<Longrightarrow> sample_pad k = k"
  by (simp add: sample_pad_def)

text \<open>
  The handshake window is 60 milliseconds: a timestamp is valid exactly if it is less than 60,000,000 ns from the
  clock, although the timeout constant it is computed from is 60,000 milliseconds.
\<close>

theorem handshake_window_is_60_ms:
  assumes "chrono_law E" and "t - ts \<noteq> - (2 ^ 63)"
  shows "is_valid_timestamp_for E ts t = Inr (\<bar>t - ts\<bar> < 60 * 10 ^ 6) \<and>
    int HANDSHAKE_TIMEOUT_MILLIS * 10 ^ 6 = 60000 * 10 ^ 6"
  using is_valid_timestamp_for_eq [OF assms] by (simp add: in_window_def HANDSHAKE_TIMEOUT_MILLIS_def)

text \<open>
  A \<open>Hello\<close> stamped exactly \<open>2 ^ 63\<close> nanoseconds after the node's clock stops the handshaker, whoever sent it:
  \<open>nanos.abs()\<close> overflows where the build checks for overflow; where it does not, the result is negative, the timestamp
  passes, and the \<open>expect\<close> on \<open>timestamp_nanos_opt\<close> panics as soon as there is an HMAC and a key to compare.
\<close>

lemma hello_stamp_panics:
  assumes "chrono_law E" and "0 \<le> now I" and "nid \<noteq> node_id N" and "hashed_keys s = Some (hk # hks)"
    and "hmacs \<noteq> []"
  shows "hs_handle_message E N I
      (Packet addr \<lparr>hs_id = i, hs_step = Hello pk zone hmacs (now I + 2 ^ 63)\<rparr> nid) s =
    ([], Inl (if overflow_checks E then Arithmetic_overflow else Expect_failed))"
proof -
  from assms(5) obtain h hs where hmacs: "hmacs = h # hs" by (cases hmacs) auto
  have "is_valid_timestamp_for E (now I + 2 ^ 63) (now I) =
      (if overflow_checks E then Inl Arithmetic_overflow else Inr True)"
    using assms(1)
    by (simp add: is_valid_timestamp_for_def chrono_law_def i64_range_def i64_abs_def HANDSHAKE_TIMEOUT_MILLIS_def)
  moreover have "valid_for_key E h (now I + 2 ^ 63) hk = Inl Expect_failed"
    using assms(1,2) by (simp add: valid_for_key_def calculate_hmac_def chrono_law_def i64_range_def)
  ultimately have "has_valid_hmac E I (hashed_keys s) (now I + 2 ^ 63) hmacs =
      Inl (if overflow_checks E then Arithmetic_overflow else Expect_failed)"
    by (simp add: has_valid_hmac_def assms(4) hmacs)
  with assms(3) show ?thesis by (simp add: handle_hello_def act_simps)
qed

subsection \<open>What the HMACs and the challenge do not cover\<close>

text \<open>
  C37. The HMACs are not bound to their sender: a \<open>Hello\<close> can be answered without knowing any key, by sending its own HMACs back. From the
  address the \<open>Hello\<close> went to, an \<open>Ohai\<close> with those HMACs and any public key, challenge, zone and node id, followed by \<open>GoTeam\<close>,
  makes the initiator report a peer with that id and that public key as up.
\<close>

theorem reflected_hmacs_accepted:
  assumes "chrono_law E" and "hash_law E" and "node_keys N \<noteq> []" and "hashed_keys s = Some (key_hashes E N)"
    and "clock_ok (now I1)" and "clock_ok (now I3)" and "in_window (now I3) (now I1)"
  shows "\<exists>hmacs reply s1 s2 s3.
    hs_handle_message E N I1 (SendHello b aft) s =
      ([Cast_packet_handler (Send b (H \<lparr>hs_id = new_v4 I1 0,
          hs_step = Hello (public_key (keypair_gen I1)) (node_zone N) hmacs (now I1)\<rparr>))], Inr s1) \<and>
    hs_handle_message E N I3 (Packet b \<lparr>hs_id = new_v4 I1 0, hs_step = Ohai pk zone hmacs challenge\<rparr> nid) s1 =
      ([Call_packet_handler (Send b (H reply))], Inr s2) \<and>
    hs_handle_message E N I5 (Packet b \<lparr>hs_id = new_v4 I1 0, hs_step = GoTeam\<rparr> nid) s2 =
      (peer_up N (peer_new (keypair_gen I1) (Some pk) b nid (Some (now I1)) zone) # fst (and_then_call I5 aft s2),
       Inr s3)"
proof -
  let ?i = "new_v4 I1 0"
  let ?s1 = "s\<lparr>hellos := (hellos s)((?i, b) \<mapsto> hello_new I1 b aft), inflight := insert b (inflight s)\<rparr>"
  let ?s2 = "?s1\<lparr>hellos := (hellos ?s1)((?i, b) := None), okboss := (okboss ?s1)((?i, b) \<mapsto>
      okboss_entry E N (hello_new I1 b aft) nid pk challenge zone)\<rparr>"
  have auth: "authentic E N (now I3) (now I1) (own_hmacs E N I1 (now I1))"
    using assms(3) by (intro own_hmacs_authentic [OF assms(2) _ assms(7)]) simp
  note step1 = step_send_hello [OF assms(1,2,5,4), of b aft, unfolded sent_hello_def hello_with_def]
    and step2 = step_ohai_any [OF assms(1,2,6) _ _ auth, of ?s1 b aft pk zone challenge nid]
    and step3 = step_goteam [of ?s2 I1 b E N aft nid pk challenge zone I5 nid]
  show ?thesis
    by (rule exI [of _ "own_hmacs E N I1 (now I1)"], rule exI [of _ "okboss_reply E N ?i pk challenge"],
        rule exI [of _ ?s1], rule exI [of _ ?s2], rule exI [of _ "?s2\<lparr>okboss := (okboss ?s2)((?i, b) := None)\<rparr>"])
      (intro conjI step1 step2 step3; simp add: assms(4))
qed

theorem reflected_hmacs_accepted_witness:
  "\<exists>s2 s3. hs_handle_message sample_E node_one sample_inputs
      (Packet sample_addr \<lparr>hs_id = new_v4 sample_inputs 0, hs_step = GoTeam\<rparr> 66) s2 =
    ([peer_up node_one (peer_new (keypair_gen sample_inputs) (Some [6, 6, 6]) sample_addr 66
        (Some (now sample_inputs)) None)], Inr s3)"
proof -
  have "fst (and_then_call sample_inputs None t) = []" for t by (simp add: act_simps)
  with reflected_hmacs_accepted [of sample_E node_one "ready node_one" sample_inputs sample_inputs sample_addr None
      "[6, 6, 6]" None "[]" 66 sample_inputs]
  show ?thesis by simp blast
qed

text \<open>
  C38. The responder's challenge does not cover the initiator's public key: if the \<open>Hello\<close> of a node is delivered to another node it
  shares a key with, with the public key replaced by any other, and everything else is delivered unchanged, the
  handshake completes and the responder reports the initiator's node id with the replaced public key.
\<close>

theorem initiator_key_not_covered:
  assumes "chrono_law E" and "hash_law E"
    and "node_id N \<noteq> node_id M" and "set (node_keys N) \<inter> set (node_keys M) \<noteq> {}"
    and "hashed_keys s = Some (key_hashes E N)" and "hashed_keys t = Some (key_hashes E M)"
    and "clock_ok (now I1)" and "clock_ok (now I2)" and "clock_ok (now I3)"
    and "in_window (now I2) (now I1)" and "in_window (now I3) (now I1)"
  shows "\<exists>hmacs h2 h3 h4 delay s1 s2 t1 t2.
    hs_handle_message E N I1 (SendHello b aft) s =
      ([Cast_packet_handler (Send b (H \<lparr>hs_id = new_v4 I1 0,
          hs_step = Hello (public_key (keypair_gen I1)) (node_zone N) hmacs (now I1)\<rparr>))], Inr s1) \<and>
    hs_handle_message E M I2 (Packet a \<lparr>hs_id = new_v4 I1 0, hs_step = Hello pk (node_zone N) hmacs (now I1)\<rparr>
        (node_id N)) t =
      ([Spawn_call_packet_handler delay (Send a (H h2))], Inr t1) \<and>
    hs_handle_message E N I3 (Packet b h2 (node_id M)) s1 = ([Call_packet_handler (Send b (H h3))], Inr s2) \<and>
    hs_handle_message E M I4 (Packet a h3 (node_id N)) t1 =
      ([peer_up M (peer_new (keypair_gen I2) (Some pk) a (node_id N) (Some (now I1)) (node_zone N)),
        Call_packet_handler (Send a (H h4))], Inr t2)"
proof -
  let ?i = "new_v4 I1 0" and ?pk2 = "public_key (keypair_gen I2)" and ?c = "randombytes_buf I2 0 69"
  let ?s1 = "s\<lparr>hellos := (hellos s)((?i, b) \<mapsto> hello_new I1 b aft), inflight := insert b (inflight s)\<rparr>"
  let ?t1 = "t\<lparr>ohais := (ohais t)((?i, a) \<mapsto> ohai_from I2 a (node_id N) ?i pk (now I1) (node_zone N)),
      inflight := insert a (inflight t)\<rparr>"
  let ?s2 = "?s1\<lparr>hellos := (hellos ?s1)((?i, b) := None), okboss := (okboss ?s1)((?i, b) \<mapsto>
      okboss_entry E N (hello_new I1 b aft) (node_id M) ?pk2 ?c (node_zone M))\<rparr>"
  note step1 = step_send_hello [OF assms(1,2,7,5), of b aft, unfolded sent_hello_def hello_with_def]
    and step2 = step_hello_with [OF assms(1,2,8,6,3,10,4), of a pk, unfolded hello_with_def]
    and step3 = step_ohai [OF assms(1,2,9) _ _ assms(11,4), of ?s1 b aft I2]
    and step4 = step_okboss [OF assms(2) _ assms(4), of ?t1 ?i a I2 "node_id N" pk "now I1" "node_zone N" I4 "node_id N"]
  show ?thesis
    by (rule exI [of _ "own_hmacs E N I1 (now I1)"], rule exI [of _ "ohai_reply E M I2 ?i (now I1)"],
        rule exI [of _ "okboss_reply E N ?i ?pk2 ?c"], rule exI [of _ "\<lparr>hs_id = ?i, hs_step = GoTeam\<rparr>"],
        rule exI [of _ "ohai_delay M E I2 (a \<in> inflight t)"], rule exI [of _ ?s1], rule exI [of _ ?s2],
        rule exI [of _ ?t1], rule exI [of _ "?t1\<lparr>ohais := (ohais ?t1)((?i, a) := None)\<rparr>"])
      (intro conjI step1 step2 step3 step4; simp add: assms(5))
qed

theorem initiator_key_not_covered_witness:
  "\<exists>h3 h4 t1 t2. hs_handle_message sample_E node_two sample_inputs (Packet sample_addr h3 1) t1 =
     ([peer_up node_two (peer_new (keypair_gen sample_inputs) (Some [6, 6, 6]) sample_addr 1 (Some (now sample_inputs)) None),
       Call_packet_handler (Send sample_addr (H h4))], Inr t2)"
  using initiator_key_not_covered [of sample_E node_one node_two "ready node_one" "ready node_two" sample_inputs
      sample_inputs sample_inputs "V4 1 1" None sample_addr "[6, 6, 6]" sample_inputs]
  by simp blast

subsection \<open>Timeouts\<close>


lemma sample_hello_run:
  "run (hs_handle_message sample_E node_one) [(sample_inputs, SendHello sample_addr None)] handshaker_new =
   ([Cast_packet_handler (Send sample_addr (H \<lparr>hs_id = new_v4 sample_inputs 0,
       hs_step = Hello (public_key (keypair_gen sample_inputs)) None [] (now sample_inputs)\<rparr>))],
    Inr (handshaker_new\<lparr>hellos := [(new_v4 sample_inputs 0, sample_addr) \<mapsto> hello_new sample_inputs sample_addr None],
      inflight := {sample_addr}\<rparr>))"
proof -
  have "keys_ok sample_E node_one handshaker_new" by (simp add: keys_ok_def handshaker_new_def)
  then show ?thesis
    by (simp add: then_do_def send_hello_eq skip_apply) (simp add: handshaker_new_def)
qed


definition is_dead :: "handshaker_message \<Rightarrow> bool" where
  "is_dead m \<longleftrightarrow> (\<exists>a i nid. m = Packet a \<lparr>hs_id = i, hs_step = Dead\<rparr> nid)"

definition contacted :: "hs_history \<Rightarrow> handshaker \<Rightarrow> bool" where
  "contacted ms s \<longleftrightarrow> (\<forall>I a aft. (I, SendHello a aft) \<in> set ms \<longrightarrow> a \<in> inflight s)"

lemma inflight_kept:
  assumes "\<not> is_dead m"
  shows "wp True (\<lambda>_. True) (hs_handle_message E N I m)
    (\<lambda>s'. inflight s \<subseteq> inflight s' \<and> (\<forall>a aft. m = SendHello a aft \<longrightarrow> a \<in> inflight s')) s"
proof (cases m)
  case (Packet a h nid)
  obtain i st where h: "h = \<lparr>hs_id = i, hs_step = st\<rparr>" by (cases h) simp
  have call: "wp True (\<lambda>_. True) (and_then_call J aft) Q s = Q s" for J aft Q s
    by (cases "(J, aft)" rule: and_then_call.cases) (simp_all add: wp_simps send_start_subscription_def)
  show ?thesis
    using assms
    by (cases st) (auto simp: Packet h is_dead_def wp_simps handle_hello_def handle_ohai_def handle_okboss_def
        handle_goteam_def send_ohai_def send_okboss_def send_goteam_def send_peer_up_def call Let_def
        split: option.splits sum.splits)
qed (auto simp: wp_simps bootstrap_def send_hello_def Let_def split: sum.splits)

interpretation hs_busy: history_server handshaker_new "hs_handle_message E N" "\<lambda>I m. \<not> is_dead m" contacted
    "\<lambda>_ _. True" True
  for E N
proof unfold_locales
  show "contacted [] handshaker_new" by (simp add: contacted_def)
  fix I m ms s
  assume "\<not> is_dead m" and "contacted ms s"
  then show "wp True (\<lambda>_. True) (hs_handle_message E N I m) (contacted (ms @ [(I, m)])) s"
    by (intro wp_mono [OF inflight_kept]) (auto simp: contacted_def)
qed simp

text \<open>
  An address in flight stays in flight: as long as no handshake times out, every address a \<open>Hello\<close> was sent to is still
  marked as in flight, also when its handshake has completed long ago. (An accepted \<open>Ohai\<close> drops the timer that would
  clear the mark, so every later \<open>Ohai\<close> to that address is delayed.)
\<close>

theorem inflight_outlives_handshake:
  assumes "\<forall>(I, m) \<in> set ms. \<not> is_dead m" and "run (hs_handle_message E N) ms handshaker_new = (es, Inr s)"
    and "(I, SendHello a aft) \<in> set ms"
  shows "a \<in> inflight s"
  using wp_InrD(1) [OF hs_busy.run_history [OF assms(1)] assms(2)] assms(3) by (auto simp: contacted_def)

subsection \<open>Typestates\<close>

text \<open>
  The phantom type of a \<open>HandshakeState\<close>, the table that holds the states of each type, and what a state of the type has. The
  handlers unwrap the key pair, the challenge and the response according to these types.
\<close>

datatype typestate = Hello_state | Ohai_state | OkBoss_state

fun table :: "typestate \<Rightarrow> handshaker \<Rightarrow> (uuid \<times> sockaddr \<rightharpoonup> handshake_state)" where
  "table Hello_state s = hellos s"
| "table Ohai_state s = ohais s"
| "table OkBoss_state s = okboss s"

fun well_typed :: "nodeinfo \<Rightarrow> typestate \<Rightarrow> handshake_state \<Rightarrow> bool" where
  "well_typed N Hello_state h \<longleftrightarrow>
     our_keypair (hss_peer h) \<noteq> None \<and> their_public_key (hss_peer h) = None \<and> hss_challenge h = None \<and>
     hss_response h = None \<and> (\<exists>t. hss_timer h = Some (start_timer t (hss_id h) (peer_sockaddr (hss_peer h))))"
| "well_typed N Ohai_state h \<longleftrightarrow>
     is_handshaken (hss_peer h) \<and> (\<exists>c. hss_challenge h = Some c \<and> length c = 69) \<and>
     hss_response h = None \<and> hss_and_then h = None \<and>
     (\<exists>t. hss_timer h = Some (start_timer t (hss_id h) (peer_sockaddr (hss_peer h))))"
| "well_typed N OkBoss_state h \<longleftrightarrow>
     is_handshaken (hss_peer h) \<and> hss_challenge h = None \<and> hss_timer h = None \<and>
     (\<exists>rs. hss_response h = Some rs \<and> length rs = length (node_keys N) \<and> (\<forall>r \<in> set rs. length r = 64))"

lemma response_for_length: "hash_law E \<Longrightarrow> length (response_for E i pk challenge key) = 64"
  unfolding response_for_def hash_law_def by (metis option.sel)

lemma hs_hist_well_typed:
  assumes "hs_hist E N ms s" and "\<forall>(I, m) \<in> set ms. hs_legal E I m" and "table t s k = Some h"
  shows "well_typed N t h \<and> hss_id h = fst k \<and> peer_sockaddr (hss_peer h) = snd k"
proof (cases t)
  case Hello_state
  with assms(3) have "hello_origin ms k h" using hs_hist_snoc(2) [OF assms(1), of k h "[]"] by simp
  then show ?thesis by (auto simp: Hello_state hello_origin_def hello_new_def peer_new_def)
next
  case Ohai_state
  with assms(3) have "ohai_origin E N ms k h" using hs_hist_snoc(3) [OF assms(1), of k h "[]"] by simp
  then obtain I m nid pk ts zone where I: "(I, m) \<in> set ms" "h = ohai_from I (snd k) nid (fst k) pk ts zone"
    by (auto simp: ohai_origin_def)
  with assms(2) have "draw_law I" by (auto simp: hs_legal_def)
  then show ?thesis by (auto simp: Ohai_state I(2) ohai_from_def peer_new_def is_handshaken_def draw_lawD(3))
next
  case OkBoss_state
  with assms(3) have "okboss_origin E N ms k h" using hs_hist_snoc(4) [OF assms(1), of k h "[]"] by simp
  then obtain I aft J x where sub: "subseq [(I, SendHello (snd k) aft), (J, x)] ms" and id: "fst k = new_v4 I 0"
    and h: "\<exists>nid pk challenge zone. h = okboss_entry E N (hello_new I (snd k) aft) nid pk challenge zone"
    unfolding okboss_origin_def by blast
  have "(I, SendHello (snd k) aft) \<in> set ms" using subseq_order.trans [of "[(I, SendHello (snd k) aft)]", OF _ sub]
    by (simp add: subseq_singleton_left)
  with assms(2) have "hash_law E" by (auto simp: hs_legal_def)
  with h id show ?thesis
    by (auto simp: OkBoss_state okboss_entry_def hello_new_def peer_new_def is_handshaken_def response_for_length)
qed

text \<open>
  C16. The typestates of the handshake: whatever messages the handshaker handles, every entry of its three tables has what its phantom type
  promises and is stored under its own id and address. A \<open>Hello\<close> has our key pair, no key of the peer and a timer; an \<open>Ohai\<close> has both keys,
  a challenge of 69 bytes and a timer; an \<open>OkBoss\<close> has both keys, one response of 64 bytes for each shared key, and no timer.
\<close>

theorem handshake_typestate:
  assumes "\<forall>(I, m) \<in> set ms. hs_legal E I m" and "run (hs_handle_message E N) ms handshaker_new = (es, Inr s)"
    and "table t s k = Some h"
  shows "well_typed N t h \<and> hss_id h = fst k \<and> peer_sockaddr (hss_peer h) = snd k"
  by (rule hs_hist_well_typed [OF wp_InrD(1) [OF hs.run_history [OF assms(1)] assms(2)] assms(1,3)])

theorem handshake_typestate_witness:
  "\<exists>es s h. run (hs_handle_message sample_E node_two) [(sample_inputs, Bootstrap), (sample_inputs, SendHello sample_addr None)]
       handshaker_new = (es, Inr s) \<and>
     table Hello_state s (new_v4 sample_inputs 0, sample_addr) = Some h \<and> well_typed node_two Hello_state h"
proof -
  let ?ms = "[(sample_inputs, Bootstrap), (sample_inputs, SendHello sample_addr None)]"
  let ?s1 = "ready node_two\<lparr>bootstrap_timer := Some (delayed_new (instant_now sample_inputs) (gen_range sample_inputs 0 10 150)
    (Future_bootstrap (node_peers node_two)))\<rparr>"
  have 1: "hs_handle_message sample_E node_two sample_inputs Bootstrap handshaker_new = ([], Inr ?s1)"
    by (simp add: bootstrap_eq keys_ok_def handshaker_new_def ready_def)
  have legal: "\<forall>(I, m) \<in> set ?ms. hs_legal sample_E I m" by (simp add: sample_hs_legal hello_msg_def)
  obtain es s where run: "run (hs_handle_message sample_E node_two) ?ms handshaker_new = (es, Inr s)"
    and entry: "hellos s (new_v4 sample_inputs 0, sample_addr) = Some (hello_new sample_inputs sample_addr None)"
    using step_send_hello [of sample_E sample_inputs ?s1 node_two sample_addr None]
    by (simp add: then_do_def 1 skip_apply del: hs_handle_message.simps)
  from handshake_typestate [OF legal run, of Hello_state "(new_v4 sample_inputs 0, sample_addr)"] entry run
  show ?thesis by auto
qed

end
