(* ===== verification/Packet_Handler_Props.thy ===== *)
theory Packet_Handler_Props
  imports Packet_Handler Sample_Externals
begin

text \<open>
  Correctness of the packet handler: numbering, deduplication, delivery and forwarding of broadcasts, secrecy of keys,
  rate control, and the receive loop.
\<close>

subsection \<open>Samples\<close>

definition sample_keys :: "uuid \<Rightarrow> keys" where
  "sample_keys i = [i \<mapsto> (sample_addr, sample_keypair, public_key sample_keypair)]"

definition sample_box :: "message \<Rightarrow> bytes" where
  "sample_box m = replicate 64 7 @ replicate (to_nat m) 0"

definition sample_message :: message where
  "sample_message = \<lparr>msg_id = 9, msg_body = Broadcast [1, 2, 3]\<rparr>"

lemma wire_sample_message [simp]: "wire_message sample_message = sample_message"
  by (simp add: sample_message_def)

definition sample_packet :: "u32 \<Rightarrow> message \<Rightarrow> packet" where
  "sample_packet q m = \<lparr>pkt_s = Seq q, pkt_id = 2, pkt_p = B (sample_box m) []\<rparr>"

definition sample_ph :: "uuid \<Rightarrow> (nat \<times> uuid list) packet_handler" where
  "sample_ph i = (packet_handler_new sample_lru)\<lparr>ph_socket := Some 0, ph_keys := sample_keys i\<rparr>"

lemma sample_ph_simps [simp]:
  "ph_socket (sample_ph i) = Some 0" "ph_keys (sample_ph i) = sample_keys i" "rx_sequences (sample_ph i) = Map.empty"
  "ph_subscribers (sample_ph i) = []" "\<not> lru_contains sample_lru (seen (sample_ph i)) k"
  "tx_delay (sample_ph i) = Map.empty" "nak_count (sample_ph i) = Map.empty"
  by (simp_all add: sample_ph_def packet_handler_new_def sample_lru_def)

lemma sample_packet_simps [simp]:
  "pkt_s (sample_packet q m) = Seq q" "pkt_id (sample_packet q m) = 2" "pkt_p (sample_packet q m) = B (sample_box m) []"
  by (simp_all add: sample_packet_def)

lemma sample_decrypt:
  assumes "ks i = Some (a, sample_keypair, public_key sample_keypair)"
  shows "decrypt (sample_externals chk) ks i (sample_box m) n = Some (wire_message m)"
proof -
  have "(replicate 64 7 :: bytes) = replicate 32 7 @ replicate 32 7" by (simp add: replicate_add [symmetric])
  then show ?thesis
    by (simp add: decrypt_def assms sample_box_def sample_externals_def sample_keypair_def)
qed

lemma sample_keys_simps [simp]: "sample_keys i i = Some (sample_addr, sample_keypair, public_key sample_keypair)"
  by (simp add: sample_keys_def)

lemma sample_decrypts [simp]: "decrypt (sample_externals chk) (sample_keys i) i (sample_box m) n = Some (wire_message m)"
  by (rule sample_decrypt) (rule sample_keys_simps)

lemma sample_run_ready:
  "run (ph_handle_message E sample_lru N) [(I, Start 0), (I, KeysUpdated (sample_keys i))] (packet_handler_new sample_lru) =
     ([Spawn_recv_loop 0], Inr (sample_ph i))"
  by (simp add: start_recv_loop_def act_simps then_do_def sample_ph_def)

subsection \<open>Sequence numbers\<close>

text \<open>The sequence numbers of the packets sent to each address, in the order in which they are handed to the socket.\<close>

definition see_sent :: "externals \<Rightarrow> effect \<Rightarrow> (sockaddr \<Rightarrow> seq32 list) \<Rightarrow> (sockaddr \<Rightarrow> seq32 list)" where
  "see_sent E e v =
     (case e of
        Spawn_send_to w sock p a \<Rightarrow> v(a := v a @ [pkt_s p])
      | Send_to sock bs a \<Rightarrow>
          (case packet_from_slice E bs of Some p \<Rightarrow> v(a := v a @ [pkt_s p]) | None \<Rightarrow> v)
      | _ \<Rightarrow> v)"

definition first_numbers :: "nat \<Rightarrow> seq32 list" where
  "first_numbers n = map (\<lambda>k. Seq (of_nat k)) [1..<Suc n]"

lemma see_sent_simps [simp]:
  "see_sent E (Cast_packet_handler m) v = v" "see_sent E (Cast_handshaker h) v = v"
  "see_sent E (Cast_peer_manager r) v = v" "see_sent E (Spawn_recv_loop i) v = v"
  "see_sent E (Handle_broadcast i d) v = v"
  "see_sent E (Spawn_send_to w sock p a) v = v(a := v a @ [pkt_s p])"
  by (simp_all add: see_sent_def)

lemma see_sent_packet:
  "codec_law E \<Longrightarrow> see_sent E (Send_to sock (packet_bytes E p) a) v = v(a := v a @ [pkt_s p])"
  by (simp add: see_sent_def codec_lawD(3))

definition numbers_ok :: "(sockaddr \<Rightarrow> seq32 list) \<Rightarrow> (sockaddr \<rightharpoonup> seq32) \<Rightarrow> bool" where
  "numbers_ok v txs \<longleftrightarrow>
     (\<forall>a. \<exists>n. v a = first_numbers n \<and> txs a = (if n = 0 then None else Some (Seq (of_nat n))))"

lemma first_numbers_Suc: "first_numbers (Suc n) = first_numbers n @ [Seq (of_nat (Suc n))]"
  by (simp add: first_numbers_def)

lemma numbers_ok_next:
  assumes "numbers_ok v txs"
  shows "numbers_ok (v(a := v a @ [next_seq txs a])) (txs(a \<mapsto> next_seq txs a))"
proof -
  obtain n where n: "v a = first_numbers n" "txs a = (if n = 0 then None else Some (Seq (of_nat n)))"
    using assms unfolding numbers_ok_def by blast
  then have "next_seq txs a = Seq (of_nat (Suc n))"
    by (simp add: next_seq_def get_or_def seq_inc_def seq_new_def)
  with n have "(v(a := v a @ [next_seq txs a])) a = first_numbers (Suc n)"
      "(txs(a \<mapsto> next_seq txs a)) a = Some (Seq (of_nat (Suc n)))"
    by (simp_all add: first_numbers_Suc)
  with assms show ?thesis
    unfolding numbers_ok_def by (metis Zero_not_Suc fun_upd_other)
qed

lemma numbers_ok_packets:
  assumes "codec_law E" and "numbers_ok v txs"
  shows "numbers_ok (fold (see_sent E) (send_effects E sock (snd (number_packets N ps txs))) v)
    (fst (number_packets N ps txs))"
  using assms(2)
proof (induction ps arbitrary: v txs)
  case Nil
  then show ?case by (simp add: send_effects_def)
next
  case (Cons pa ps)
  obtain p a where pa: "pa = (p, a)" by (cases pa)
  show ?case
    unfolding pa using Cons.IH [OF numbers_ok_next [OF Cons.prems, of a]]
    by (simp add: Let_def send_effects_def see_sent_packet [OF assms(1)] del: fun_upd_apply)
qed

abbreviation numbered_rel :: "(sockaddr \<Rightarrow> seq32 list) \<Rightarrow> 'c packet_handler \<Rightarrow> bool" where
  "numbered_rel v s \<equiv> numbers_ok v (tx_sequences s)"

lemma keeps_multisend [keeps_rules]:
  assumes "codec_law E"
  shows "keeps (see_sent E) numbered_rel (multisend E N ps)"
  unfolding keeps_def multisend_eq [OF assms]
  by (auto intro: numbers_ok_packets [OF assms] split: option.splits)

lemma keeps_send [keeps_rules]: "keeps (see_sent E) numbered_rel (send N I p a)"
  unfolding keeps_def send_def
  by (auto simp: act_simps then_do_def Let_def intro: numbers_ok_next split: option.splits)

lemma keeps_encrypt_and_send [keeps_rules]:
  "codec_law E \<Longrightarrow> keeps (see_sent E) numbered_rel (encrypt_and_send_messages E L N I base ts m)"
  unfolding encrypt_and_send_messages_def put_seen_def by (intro keeps_rules) simp_all

lemma keeps_recv [keeps_rules]:
  assumes "codec_law E"
  shows "keeps (see_sent E) numbered_rel (recv E L N I pkt a)"
proof -
  note rules = keeps_rules
  have forward: "keeps (see_sent E) numbered_rel (send_broadcast_to_subscribers E L N I m)" for m
    unfolding send_broadcast_to_subscribers_def by (intro keeps_rules assms)
  have body: "keeps (see_sent E) numbered_rel (recv_body E L N I a i j b)" for i j b
    by (cases b) (auto simp: recv_broadcast_def recv_peer_request_def recv_nak_def put_seen_def
        intro!: keeps_rules forward split: option.splits)
  show ?thesis
    unfolding recv_def
    by (auto simp: send_nak_def encrypt_and_send_message_def intro!: keeps_rules body assms
        split: payload.splits option.splits)
qed

lemma keeps_handle:
  assumes "codec_law E"
  shows "keeps (see_sent E) numbered_rel (ph_handle_message E L N I m)"
  by (cases m) (auto simp: start_recv_loop_def encrypt_and_send_message_def send_broadcast_def send_peer_status_def
      send_broadcast_to_subscribers_def update_rate_control_def rate_control_step_def
      intro!: keeps_rules assms split: option.splits)

interpretation ph_numbers: mirrored_server "packet_handler_new L" "ph_handle_message E L N" "\<lambda>I m. codec_law E"
    "\<lambda>_. True" "\<lambda>_. True" True "see_sent E" "\<lambda>_. []" numbered_rel
  for E L N
proof unfold_locales
  show "numbered_rel (\<lambda>_. []) (packet_handler_new L)"
    by (simp add: numbers_ok_def packet_handler_new_def first_numbers_def exI [of _ 0])
qed (auto simp: wp_def split: sum.splits intro: keepsD [OF keeps_handle])



subsection \<open>Deduplication\<close>

text \<open>The cache is some base cache after puts of ids from a given set.\<close>

definition puts_from :: "'c lru \<Rightarrow> 'c \<Rightarrow> uuid set \<Rightarrow> unit \<Rightarrow> 'c packet_handler \<Rightarrow> bool" where
  "puts_from L c S v s \<longleftrightarrow> (\<exists>ks. set ks \<subseteq> S \<and> seen s = fold (lru_put L) ks c)"

definition no_view :: "effect \<Rightarrow> unit \<Rightarrow> unit" where
  "no_view e v = v"

lemma puts_from_self: "puts_from L (seen s) S v s"
  by (auto simp: puts_from_def intro: exI [of _ "[]"])

lemma keeps_put: "i \<in> S \<Longrightarrow> keeps no_view (puts_from L c S) (put_seen L i)"
  unfolding put_seen_def
proof (rule keeps_modify)
  fix v and s :: "'a packet_handler"
  assume i: "i \<in> S" and "puts_from L c S v s"
  then obtain ks where "set ks \<subseteq> S" "seen s = fold (lru_put L) ks c" by (auto simp: puts_from_def)
  with i have "set (ks @ [i]) \<subseteq> S" "lru_put L i (seen s) = fold (lru_put L) (ks @ [i]) c" by simp_all
  then show "puts_from L c S v (s\<lparr>seen := lru_put L i (seen s)\<rparr>)"
    unfolding puts_from_def by (intro exI [of _ "ks @ [i]"]) simp
qed

lemma keeps_puts_modify:
  "(\<And>s. seen (f s) = seen s) \<Longrightarrow> keeps no_view (puts_from L c S) (modify f)"
  by (rule keeps_modify) (simp add: puts_from_def)

lemma keeps_puts_emit: "keeps no_view (puts_from L c S) (emit e)"
  by (rule keeps_emit) (simp add: puts_from_def)

lemma keeps_puts_multisend: "keeps no_view (puts_from L c S) (multisend E N ps)"
  unfolding multisend_def
  by (auto intro!: keeps_with_state keeps_with_result keeps_do_all keeps_then keeps_foreach keeps_skip keeps_puts_emit
      keeps_puts_modify split: option.splits)

lemma keeps_puts_send_messages:
  "msg_id m \<in> S \<Longrightarrow> keeps no_view (puts_from L c S) (encrypt_and_send_messages E L N I base ts m)"
  unfolding encrypt_and_send_messages_def
  by (intro keeps_do_all keeps_then keeps_put keeps_with_state keeps_puts_multisend)

lemma keeps_puts_forward:
  "msg_id m \<in> S \<Longrightarrow> keeps no_view (puts_from L c S) (send_broadcast_to_subscribers E L N I m)"
  unfolding send_broadcast_to_subscribers_def by (intro keeps_with_state keeps_puts_send_messages)

lemma keeps_puts_nak:
  "new_v4 I 0 \<in> S \<Longrightarrow> keeps no_view (puts_from L c S) (send_nak E L N I j prev q)"
  unfolding send_nak_def encrypt_and_send_message_def
  by (intro keeps_with_result keeps_with_state keeps_puts_send_messages) simp

lemma keeps_puts_recv_broadcast:
  "i \<in> S \<Longrightarrow> keeps no_view (puts_from L c S) (recv_broadcast E L N I i data)"
  unfolding recv_broadcast_def
  by (auto intro!: keeps_do_all keeps_then keeps_with_state keeps_skip keeps_puts_emit keeps_puts_forward split: option.splits)

lemma keeps_puts_recv_peer_request:
  "i \<in> S \<Longrightarrow> keeps no_view (puts_from L c S) (recv_peer_request E L N I i from_id r)"
  unfolding recv_peer_request_def
  by (intro keeps_do_all keeps_then keeps_puts_emit keeps_puts_forward) simp

lemma keeps_puts_body:
  assumes "i \<in> S"
  shows "keeps no_view (puts_from L c S) (recv_body E L N I from from_id i b)"
proof (cases b)
  case (Nak lo hi)
  then show ?thesis
    by (auto simp: recv_nak_def intro!: keeps_skip keeps_with_state keeps_with_result keeps_do_all keeps_then keeps_puts_modify)
qed (auto intro!: keeps_do_all keeps_then keeps_skip keeps_put keeps_puts_recv_broadcast keeps_puts_recv_peer_request assms)

text \<open>One activation puts at most two different ids.\<close>

lemma handle_puts:
  assumes "ph_handle_message E L N I m s = (es, Inr s')"
  shows "\<exists>ks. card (set ks) \<le> 2 \<and> seen s' = fold (lru_put L) ks (seen s)"
proof -
  have two: "\<exists>ks. card (set ks) \<le> 2 \<and> seen s' = fold (lru_put L) ks (seen s)"
    if keeps: "keeps no_view (puts_from L (seen s) {i, j}) a" and eq: "a s = ph_handle_message E L N I m s" for a i j
  proof -
    have "puts_from L (seen s) {i, j} (fold no_view es ()) s'"
      by (rule keepsD [OF keeps puts_from_self]) (simp add: eq assms)
    then obtain ks where ks: "set ks \<subseteq> {i, j}" "seen s' = fold (lru_put L) ks (seen s)" by (auto simp: puts_from_def)
    have "card (set ks) \<le> card {i, j}" by (rule card_mono) (simp_all add: ks)
    also have "\<dots> \<le> 2" by (simp add: card_insert_if)
    finally show ?thesis using ks(2) by blast
  qed
  show ?thesis
  proof (cases m)
    case (Recv a pkt)
    have recv: "\<exists>ks. card (set ks) \<le> 2 \<and> seen s' = fold (lru_put L) ks (seen s)"
      if keeps: "keeps no_view (puts_from L (seen s) {i, new_v4 I 0}) (do_all [
          modify (\<lambda>s. s\<lparr>rx_sequences := (rx_sequences s)(a \<mapsto> pkt_s pkt)\<rparr>), b])"
        and eq: "b = (case pkt_p pkt of
             H h \<Rightarrow> emit (Cast_handshaker (Packet a h (pkt_id pkt)))
           | B vecbox nonce \<Rightarrow>
               (case decrypt E (ph_keys s) (pkt_id pkt) vecbox nonce of
                  Some m \<Rightarrow> do_all [
                    if lru_contains L (seen s) (msg_id m) then skip
                    else recv_body E L N I a (pkt_id pkt) (msg_id m) (msg_body m),
                    case rx_sequences s a of
                      Some prev \<Rightarrow> send_nak E L N I (pkt_id pkt) prev (pkt_s pkt)
                    | None \<Rightarrow> skip]
                | None \<Rightarrow> skip))" for i b
      by (rule two [OF keeps]) (simp add: Recv recv_def with_state_apply eq)
    note rules = keeps_do_all keeps_then keeps_skip keeps_puts_emit keeps_puts_modify keeps_puts_body keeps_puts_nak
    show ?thesis
    proof (cases "pkt_p pkt")
      case (H h)
      show ?thesis by (rule recv [OF _ refl]) (auto simp: H intro!: rules)
    next
      case (B vecbox nonce)
      show ?thesis
      proof (cases "decrypt E (ph_keys s) (pkt_id pkt) vecbox nonce")
        case None
        show ?thesis by (rule recv [OF _ refl]) (auto simp: B None intro!: rules)
      next
        case (Some m')
        show ?thesis
          by (rule recv [OF _ refl, of "msg_id m'"]) (auto simp: B Some intro!: rules split: option.splits)
      qed
    qed
  next
    case (SendMessage j m')
    show ?thesis
      by (rule two [of "msg_id m'" "msg_id m'"], rule keeps_puts_send_messages)
        (simp_all add: SendMessage encrypt_and_send_message_def)
  next
    case (SendBroadcast data)
    show ?thesis
      by (rule two [of "new_v4 I 0" "new_v4 I 0"], rule keeps_puts_forward)
        (simp_all add: SendBroadcast send_broadcast_def)
  next
    case (BroadcastPeerStatus st)
    show ?thesis
      by (rule two [of "new_v4 I 0" "new_v4 I 0"], rule keeps_puts_forward)
        (simp_all add: BroadcastPeerStatus send_peer_status_def)
  qed (rule two [where i = 0 and j = 0 and a = "ph_handle_message E L N I m", OF _ refl]; auto simp: start_recv_loop_def send_def update_rate_control_def rate_control_step_def Let_def
      intro!: keeps_with_state keeps_with_result keeps_do_all keeps_then keeps_skip keeps_puts_emit keeps_puts_modify keeps_foreach
      split: option.splits)+
qed

lemma run_puts:
  "run (ph_handle_message E L N) ms s = (es, Inr s') \<Longrightarrow>
     \<exists>ks. card (set ks) \<le> 2 * length ms \<and> seen s' = fold (lru_put L) ks (seen s)"
proof (induction ms arbitrary: s es)
  case Nil
  then show ?case by (auto simp: skip_def intro: exI [of _ "[]"])
next
  case (Cons xm ms)
  obtain I m where xm: "xm = (I, m)" by (cases xm)
  from Cons.prems obtain es1 t es2 where h: "ph_handle_message E L N I m s = (es1, Inr t)"
    and r: "run (ph_handle_message E L N) ms t = (es2, Inr s')"
    by (auto simp: xm then_do_def split: prod.splits sum.splits)
  obtain ks1 where ks1: "card (set ks1) \<le> 2" "seen t = fold (lru_put L) ks1 (seen s)"
    using handle_puts [OF h] by blast
  obtain ks2 where ks2: "card (set ks2) \<le> 2 * length ms" "seen s' = fold (lru_put L) ks2 (seen t)"
    using Cons.IH [OF r] by blast
  have "card (set (ks1 @ ks2)) \<le> 2 * length (xm # ms)"
    using card_Un_le [of "set ks1" "set ks2"] ks1(1) ks2(1) by simp
  moreover have "seen s' = fold (lru_put L) (ks1 @ ks2) (seen s)" by (simp add: ks1 ks2)
  ultimately show ?case by blast
qed

text \<open>A message that is handled is put into the cache; what follows puts only the id of the \<open>Nak\<close>.\<close>

lemma recv_new_puts:
  assumes "recv E L N I pkt a s = (es, Inr s')" and "pkt_p pkt = B vecbox nonce"
    and "decrypt E (ph_keys s) (pkt_id pkt) vecbox nonce = Some m" and "\<not> lru_contains L (seen s) (msg_id m)"
    and "msg_body m = Broadcast data \<or> msg_body m = PeerRequest r"
  shows "\<exists>ks js. set js \<subseteq> {new_v4 I 0} \<and>
    seen s' = fold (lru_put L) js (lru_put L (msg_id m) (fold (lru_put L) ks (seen s)))"
proof -
  let ?i = "msg_id m" and ?s0 = "s\<lparr>rx_sequences := (rx_sequences s)(a \<mapsto> pkt_s pkt)\<rparr>"
  let ?tail = "case rx_sequences s a of Some prev \<Rightarrow> send_nak E L N I (pkt_id pkt) prev (pkt_s pkt) | None \<Rightarrow> skip"
  have "\<exists>act. recv_body E L N I a (pkt_id pkt) ?i (msg_body m) = do_all [act, put_seen L ?i] \<and>
      (\<forall>c. keeps no_view (puts_from L c {?i}) act)"
    using assms(5) by (elim disjE) (auto intro: keeps_puts_recv_broadcast keeps_puts_recv_peer_request
        simp del: do_all.simps)
  then obtain act where body: "recv_body E L N I a (pkt_id pkt) ?i (msg_body m) = do_all [act, put_seen L ?i]"
    and keeps: "\<And>c. keeps no_view (puts_from L c {?i}) act"
    by blast
  have "recv E L N I pkt a s = then_do act (then_do (put_seen L ?i) (then_do ?tail skip)) ?s0"
    using assms(2-4) by (simp add: recv_def with_state_apply body then_do_def modify_apply skip_apply
        split: prod.splits sum.splits)
  with assms(1) obtain es1 t es2 where t: "act ?s0 = (es1, Inr t)"
    and u: "?tail (t\<lparr>seen := lru_put L ?i (seen t)\<rparr>) = (es2, Inr s')"
    by (auto simp: then_do_def put_seen_def modify_apply skip_apply split: prod.splits sum.splits)
  have "puts_from L (seen ?s0) {?i} (fold no_view es1 ()) t"
    by (rule keepsD [OF keeps puts_from_self t])
  moreover have "keeps no_view (puts_from L (lru_put L ?i (seen t)) {new_v4 I 0}) ?tail"
    by (auto intro!: keeps_puts_nak keeps_skip split: option.splits)
  then have "puts_from L (lru_put L ?i (seen t)) {new_v4 I 0} (fold no_view es2 ()) s'"
    using puts_from_self [of L "t\<lparr>seen := lru_put L ?i (seen t)\<rparr>" "{new_v4 I 0}" "()"] u
    unfolding keeps_def by simp
  ultimately show ?thesis by (simp add: puts_from_def) metis
qed

text \<open>Every effect of receiving a message that is in the cache is a \<open>Nak\<close> to its sender.\<close>

lemma recv_seen:
  assumes "codec_law E" and "pkt_p pkt = B vecbox nonce"
    and "decrypt E (ph_keys s) (pkt_id pkt) vecbox nonce = Some m" and "lru_contains L (seen s) (msg_id m)"
  shows "\<forall>e \<in> set (fst (recv E L N I pkt a s)). \<exists>sock bs b kp pk.
    e = Send_to sock bs b \<and> ph_keys s (pkt_id pkt) = Some (b, kp, pk)"
proof -
  have sent: "\<exists>sock bs b kp pk. e = Send_to sock bs b \<and> ks i = Some (b, kp, pk)"
    if "e \<in> set (sent_of E N (encrypt_all E I n ks [i] msg) t)" for e n ks i msg and t :: "'a packet_handler"
    using that by (elim sent_of_target) (auto dest: encrypt_all_target)
  show ?thesis
    using assms(2-4)
    by (cases "rx_sequences s a"; cases "u32_add (overflow_checks E) (seq_deref (the (rx_sequences s a))) 1")
      (auto simp: recv_def act_simps then_do_def send_nak_def encrypt_and_send_message_def
        encrypt_and_send_messages_eq [OF assms(1)] dest: sent)
qed


lemma sample_first_recv:
  "\<exists>es s. ph_handle_message (sample_externals True) sample_lru (sample_node Uniform) sample_inputs
     (Recv sample_addr (sample_packet 1 sample_message)) (sample_ph 2) = (es, Inr s) \<and> ph_keys s = sample_keys 2"
  by (simp add: recv_def sample_message_def act_simps then_do_def recv_broadcast_def send_broadcast_to_subscribers_def
      encrypt_and_send_messages_eq put_seen_def split: option.splits)


subsection \<open>Encryption and delivery\<close>

text \<open>What a peer's fields must be for a message not to reveal keys.\<close>

fun key_free :: "body \<Rightarrow> bool" where
  "key_free (PeerRequest (Peers ps)) = (\<forall>p \<in> set ps. our_keypair p = None \<and> their_public_key p = None)"
| "key_free (PeerRequest (PeerStatus st)) =
     (our_keypair (status_peer st) = None \<and> their_public_key (status_peer st) = None)"
| "key_free b = True"

lemma wire_key_free: "key_free (wire_body b)"
proof (cases b)
  case (PeerRequest r)
  then show ?thesis by (cases r) (auto simp: wire_peer_def)
qed simp_all

lemma encrypt_decrypt:
  assumes "codec_law E" and "box_law E valid" and "valid kp" and "valid kp'"
  shows "\<exists>c. encrypt E n m kp (public_key kp') = Inr (Some (c, n)) \<and>
    (\<forall>ks i a. ks i = Some (a, kp', public_key kp) \<longrightarrow> decrypt E ks i c n = Some (wire_message m))"
proof -
  obtain v where v: "message_to_vec E m = Some v" "message_from_slice E v = Some (wire_message m)"
    using codec_lawD(1) [OF assms(1)] by blast
  obtain c where "box_encrypt E v n (public_key kp') (secret_key kp) = Some c"
    "box_decrypt E c n (public_key kp) (secret_key kp') = Some v"
    using assms(2-4) unfolding box_law_def by blast
  with v show ?thesis by (auto simp: encrypt_def decrypt_def)
qed

lemma encrypt_all_delivers:
  assumes "codec_law E" and "box_law E valid" and "valid kp" and "valid kp'"
    and "b \<in> set ts" and "ks b = Some (addr, kp, public_key kp')"
  shows "\<exists>c n. (B c n, addr) \<in> set (encrypt_all E I base ks ts m) \<and>
    (\<forall>ks' i a. ks' i = Some (a, kp', public_key kp) \<longrightarrow> decrypt E ks' i c n = Some (wire_message m))"
proof -
  have "(addr, kp, public_key kp') \<in> set (List.map_filter ks ts)"
    using assms(5,6) by (auto simp: in_set_map_filter)
  then obtain k where k: "(k, addr, kp, public_key kp') \<in> set (enumerate 0 (List.map_filter ks ts))"
    by (metis enumerate_mem)
  obtain c where c: "encrypt E (nonce_gen I (base + k)) m kp (public_key kp') = Inr (Some (c, nonce_gen I (base + k)))"
    and d: "\<forall>ks' i a. ks' i = Some (a, kp', public_key kp) \<longrightarrow>
      decrypt E ks' i c (nonce_gen I (base + k)) = Some (wire_message m)"
    using encrypt_decrypt [OF assms(1-4)] by blast
  have "(B c (nonce_gen I (base + k)), addr) \<in> set (encrypt_all E I base ks ts m)"
    unfolding encrypt_all_def in_set_map_filter by (rule bexI [OF _ k]) (simp add: c)
  with d show ?thesis by blast
qed

lemma number_packets_id: "(q, a) \<in> set (snd (number_packets N ps txs)) \<Longrightarrow> pkt_id q = node_id N"
  by (induction ps arbitrary: txs) (auto simp: Let_def)

lemma sent_of_packet:
  assumes "(p, b) \<in> set ps" and "ph_socket s = Some sock"
  shows "\<exists>q. Send_to sock (packet_bytes E q) b \<in> set (sent_of E N ps s) \<and> pkt_p q = p \<and> pkt_id q = node_id N"
proof -
  have "(p, b) \<in> set (map (\<lambda>(q, a). (pkt_p q, a)) (snd (number_packets N ps (tx_sequences s))))"
    unfolding number_packets_map by (rule assms(1))
  then obtain q where "(q, b) \<in> set (snd (number_packets N ps (tx_sequences s)))" "pkt_p q = p" by auto
  then show ?thesis by (force simp: sent_of_def send_effects_def assms(2) dest: number_packets_id)
qed

text \<open>Sending a message to a target with keys sends its address a packet that the matching keys decrypt to the message.\<close>

lemma sent_message_arrives:
  assumes "codec_law E" and "box_law E valid" and "valid kp" and "valid kp'"
    and "ph_socket s = Some sock" and "b \<in> set ts" and "ph_keys s b = Some (addr, kp, public_key kp')"
  obtains q c n where "Send_to sock (packet_bytes E q) addr \<in> set (fst (encrypt_and_send_messages E L N I base ts m s))"
    "packet_from_slice E (packet_bytes E q) = Some q" "pkt_p q = B c n" "pkt_id q = node_id N"
    "\<And>ks i a. ks i = Some (a, kp', public_key kp) \<Longrightarrow> decrypt E ks i c n = Some (wire_message m)"
proof -
  let ?ps = "encrypt_all E I base (ph_keys s) ts m"
  obtain c n where cn: "(B c n, addr) \<in> set ?ps"
    and d: "\<forall>ks' i a. ks' i = Some (a, kp', public_key kp) \<longrightarrow> decrypt E ks' i c n = Some (wire_message m)"
    using encrypt_all_delivers [where ks = "ph_keys s", OF assms(1-4,6,7)] by blast
  obtain q where "Send_to sock (packet_bytes E q) addr \<in> set (sent_of E N ?ps s)" "pkt_p q = B c n" "pkt_id q = node_id N"
    using sent_of_packet [OF cn assms(5)] by blast
  with d show ?thesis
    by (intro that [of q c n]) (auto simp: encrypt_and_send_messages_eq [OF assms(1)] codec_lawD(3) [OF assms(1)])
qed

text \<open>
  C9. A message arrives as it was sent, less the keys: when two nodes have each other's keys from one handshake, sending a
  message produces a packet to the other's address that carries the sender's id; whatever the other node is, if it has the matching keys the
  packet decodes and decrypts to that message with all key material of the peers in it removed.
\<close>

theorem message_round_trip:
  assumes "codec_law E" and "box_law E valid" and "valid kp" and "valid kp'"
    and "ph_socket s = Some sock" and "ph_keys s b = Some (addr, kp, public_key kp')"
    and "ks (node_id N) = Some (a, kp', public_key kp)"
  shows "\<exists>bs pkt c n.
    Send_to sock bs addr \<in> set (fst (ph_handle_message E L N I (SendMessage b m) s)) \<and>
    packet_from_slice E bs = Some pkt \<and> pkt_id pkt = node_id N \<and> pkt_p pkt = B c n \<and>
    decrypt E ks (pkt_id pkt) c n = Some (wire_message m) \<and> key_free (msg_body (wire_message m))"
proof -
  obtain q c n where "Send_to sock (packet_bytes E q) addr \<in> set (fst (encrypt_and_send_messages E L N I 0 [b] m s))"
    "packet_from_slice E (packet_bytes E q) = Some q" "pkt_p q = B c n" "pkt_id q = node_id N"
    "\<And>ks i a. ks i = Some (a, kp', public_key kp) \<Longrightarrow> decrypt E ks i c n = Some (wire_message m)"
    by (rule sent_message_arrives [where L = L and N = N and I = I and base = 0 and ts = "[b]" and m = m,
          OF assms(1-5) list.set_intros(1) assms(6)]) blast
  with assms(7) show ?thesis
    by (auto simp: encrypt_and_send_message_def wire_message_def wire_key_free)
qed

theorem message_round_trip_witness:
  "\<exists>bs pkt. Send_to 0 bs sample_addr \<in> set (fst (ph_handle_message (sample_externals True) sample_lru
      (sample_node Uniform) sample_inputs (SendMessage 2 sample_message) (sample_ph 2))) \<and>
    packet_from_slice (sample_externals True) bs = Some pkt \<and> pkt_id pkt = 1"
  using message_round_trip [of "sample_externals True" sample_valid sample_keypair sample_keypair "sample_ph 2" 0 2
      sample_addr "sample_keys 1" "sample_node Uniform" sample_addr sample_lru sample_inputs sample_message]
  by (simp add: sample_node_def) blast

text \<open>
  A broadcast reaches the handler of every subscriber: broadcasting data sends each subscriber whose keys are known
  a packet; a node with the matching keys that has a broadcast handler and has not seen the message gives exactly that data
  to its handler when it receives the packet, from whatever address.
\<close>

theorem broadcast_reaches_subscriber:
  assumes "codec_law E" and "box_law E valid" and "valid kp" and "valid kp'"
    and "ph_socket s = Some sock" and "b \<in> set (ph_subscribers s)"
    and "ph_keys s b = Some (addr, kp, public_key kp')"
    and "ph_keys t (node_id N) = Some (a, kp', public_key kp)"
    and "broadcast_handler_async t = Some h" and "\<not> lru_contains L (seen t) (new_v4 I 0)"
  shows "\<exists>bs pkt. Send_to sock bs addr \<in> set (fst (ph_handle_message E L N I (SendBroadcast data) s)) \<and>
    packet_from_slice E bs = Some pkt \<and>
    Handle_broadcast h data \<in> set (fst (ph_handle_message E L M J (Recv from pkt) t))"
proof -
  let ?m = "\<lparr>msg_id = new_v4 I 0, msg_body = Broadcast data\<rparr>"
  obtain q c n where q: "Send_to sock (packet_bytes E q) addr \<in> set (fst (encrypt_and_send_messages E L N I 0 (ph_subscribers s) ?m s))"
    "packet_from_slice E (packet_bytes E q) = Some q" "pkt_p q = B c n" "pkt_id q = node_id N"
    and d: "\<And>ks i a. ks i = Some (a, kp', public_key kp) \<Longrightarrow> decrypt E ks i c n = Some (wire_message ?m)"
    by (rule sent_message_arrives [where L = L and N = N and I = I and base = 0 and m = ?m, OF assms(1-7)]) blast
  have dec: "decrypt E (ph_keys t) (pkt_id q) c n = Some ?m"
    using d [where ks = "ph_keys t"] assms(8) by (simp add: q(4))
  have "Handle_broadcast h data \<in> set (fst (recv_broadcast E L M J (new_v4 I 0) data
      (t\<lparr>rx_sequences := (rx_sequences t)(from \<mapsto> pkt_s q)\<rparr>)))"
    by (simp add: recv_broadcast_def then_do_def with_state_apply assms(9) emit_apply split: prod.splits)
  then have "Handle_broadcast h data \<in> set (fst (recv E L M J q from t))"
    using assms(10)
    by (simp add: recv_def with_state_apply q(3) dec then_do_Inr [OF modify_apply]) (intro then_do_effects)
  with q(1,2) show ?thesis
    by (auto simp: send_broadcast_def send_broadcast_to_subscribers_def with_state_apply)
qed

text \<open>
  A packet that does not decrypt under the keys of the node it claims to be from (unknown sender, forged or damaged
  box) causes no effect at all and changes nothing but the last sequence number received from its address.
\<close>

theorem forged_packet_ignored:
  assumes "pkt_p pkt = B vecbox nonce" and "decrypt E (ph_keys s) (pkt_id pkt) vecbox nonce = None"
  shows "ph_handle_message E L N I (Recv a pkt) s =
    ([], Inr (s\<lparr>rx_sequences := (rx_sequences s)(a \<mapsto> pkt_s pkt)\<rparr>))"
  using assms by (simp add: recv_def act_simps then_do_def)

subsection \<open>Negative acknowledgements\<close>

lemma send_nak_sends:
  assumes "codec_law E" and "box_law E valid" and "valid kp" and "valid kp'"
    and "ph_socket s = Some sock" and "ph_keys s i = Some (addr, kp, public_key kp')"
    and "u32_add (overflow_checks E) (seq_deref prev) 1 = Inr lo"
  shows "\<exists>q c n. Send_to sock (packet_bytes E q) addr \<in> set (fst (send_nak E L N I i prev cur s)) \<and>
    pkt_p q = B c n \<and> pkt_id q = node_id N \<and>
    (\<forall>ks' j a. ks' j = Some (a, kp', public_key kp) \<longrightarrow>
       decrypt E ks' j c n = Some \<lparr>msg_id = new_v4 I 0, msg_body = Nak lo (seq_deref cur)\<rparr>)"
proof -
  let ?m = "\<lparr>msg_id = new_v4 I 0, msg_body = Nak lo (seq_deref cur)\<rparr>"
  obtain q c n where "Send_to sock (packet_bytes E q) addr \<in>
      set (fst (encrypt_and_send_messages E L N I (length (ph_subscribers s)) [i] ?m s))"
    "pkt_p q = B c n" "pkt_id q = node_id N"
    and d: "\<And>ks j a. ks j = Some (a, kp', public_key kp) \<Longrightarrow> decrypt E ks j c n = Some (wire_message ?m)"
    by (rule sent_message_arrives [where L = L and N = N and I = I and base = "length (ph_subscribers s)" and ts = "[i]"
          and m = ?m, OF assms(1-5) list.set_intros(1) assms(6)]) blast
  then show ?thesis
    by (intro exI [of _ q] exI [of _ c] exI [of _ n])
      (auto simp: send_nak_def assms(7) with_state_apply encrypt_and_send_message_def)
qed

lemma recv_seen_eq:
  assumes "pkt_p pkt = B vecbox nonce" and "decrypt E (ph_keys s) (pkt_id pkt) vecbox nonce = Some m"
    and "lru_contains L (seen s) (msg_id m)" and "rx_sequences s a = Some prev"
  shows "recv E L N I pkt a s =
    send_nak E L N I (pkt_id pkt) prev (pkt_s pkt) (s\<lparr>rx_sequences := (rx_sequences s)(a \<mapsto> pkt_s pkt)\<rparr>)"
  using assms by (simp add: recv_def with_state_apply then_do_def modify_apply skip_apply split: prod.splits sum.splits)

lemma recv_nak_then:
  assumes "pkt_p pkt = B vecbox nonce" and "decrypt E (ph_keys s) (pkt_id pkt) vecbox nonce = Some m"
    and "\<not> lru_contains L (seen s) (msg_id m)" and "msg_body m = Nak lo hi" and "rx_sequences s a = Some prev"
  shows "recv E L N I pkt a s =
    then_do (recv_nak E I a lo hi) (send_nak E L N I (pkt_id pkt) prev (pkt_s pkt))
      (s\<lparr>rx_sequences := (rx_sequences s)(a \<mapsto> pkt_s pkt)\<rparr>)"
  using assms by (simp add: recv_def with_state_apply then_do_def modify_apply skip_apply split: prod.splits sum.splits)

lemma recv_nak_frame:
  assumes "recv_nak E I a lo hi s = (es, Inr t)"
  shows "es = []" "ph_socket t = ph_socket s" "ph_keys t = ph_keys s" "ph_subscribers t = ph_subscribers s" "seen t = seen s"
  using assms
  by (auto simp: recv_nak_def act_simps then_do_def with_result_def split: sum.splits option.splits)

text \<open>
  A \<open>Nak\<close> is answered with a \<open>Nak\<close>, even if no packet was lost: if a node has received anything from an address before and
  then receives a \<open>Nak\<close> from there, it sends the sender a packet that decrypts to another \<open>Nak\<close>, with the range from the previous
  sequence number to the current one, which is empty when the packets are consecutive. So two nodes that have exchanged
  packets keep sending each other \<open>Nak\<close>s.
\<close>

theorem nak_answered_with_nak:
  assumes "codec_law E" and "box_law E valid" and "valid kp" and "valid kp'"
    and "ph_socket s = Some sock" and "ph_keys s (pkt_id pkt) = Some (addr, kp, public_key kp')"
    and "pkt_p pkt = B vecbox nonce"
    and "decrypt E (ph_keys s) (pkt_id pkt) vecbox nonce = Some \<lparr>msg_id = i, msg_body = Nak lo hi\<rparr>"
    and "\<not> lru_contains L (seen s) i" and "rx_sequences s a = Some prev"
    and "ph_handle_message E L N I (Recv a pkt) s = (es, Inr s')"
  shows "\<exists>q c n. Send_to sock (packet_bytes E q) addr \<in> set es \<and> pkt_p q = B c n \<and> pkt_id q = node_id N \<and>
    (\<forall>ks' j a'. ks' j = Some (a', kp', public_key kp) \<longrightarrow>
       decrypt E ks' j c n =
         Some \<lparr>msg_id = new_v4 I 0, msg_body = Nak (seq_deref prev + 1) (seq_deref (pkt_s pkt))\<rparr>)"
proof -
  let ?s0 = "s\<lparr>rx_sequences := (rx_sequences s)(a \<mapsto> pkt_s pkt)\<rparr>"
  have eq: "then_do (recv_nak E I a lo hi) (send_nak E L N I (pkt_id pkt) prev (pkt_s pkt)) ?s0 = (es, Inr s')"
    using recv_nak_then [OF assms(7,8) _ _ assms(10)] assms(9,11) by simp
  then obtain es1 t where t: "recv_nak E I a lo hi ?s0 = (es1, Inr t)"
    and u: "send_nak E L N I (pkt_id pkt) prev (pkt_s pkt) t = (es, Inr s')"
    by (auto simp: then_do_def split: prod.splits sum.splits dest: recv_nak_frame(1))
  note frame = recv_nak_frame [OF t]
  from u obtain lo' where lo: "u32_add (overflow_checks E) (seq_deref prev) 1 = Inr lo'"
    by (cases "u32_add (overflow_checks E) (seq_deref prev) 1") (simp_all add: send_nak_def abort_apply)
  then have "lo' = seq_deref prev + 1" by (rule u32_add_Inr)
  with send_nak_sends [OF assms(1-4) _ _ lo, of t sock "pkt_id pkt" addr L N I "pkt_s pkt"] frame assms(5,6) u
  show ?thesis by simp
qed

definition sample_nak :: message where
  "sample_nak = \<lparr>msg_id = 11, msg_body = Nak 2 2\<rparr>"

lemma wire_sample_nak [simp]: "wire_message sample_nak = sample_nak"
  by (simp add: sample_nak_def)

definition sample_talking :: "(nat \<times> uuid list) packet_handler" where
  "sample_talking = (sample_ph 2)\<lparr>rx_sequences := [sample_addr \<mapsto> Seq 1]\<rparr>"

lemma sample_talking_simps [simp]:
  "ph_socket sample_talking = Some 0" "ph_keys sample_talking = sample_keys 2"
  "rx_sequences sample_talking sample_addr = Some (Seq 1)" "\<not> lru_contains sample_lru (seen sample_talking) k"
  by (simp_all add: sample_talking_def)

lemma nak_backwards_panics:
  assumes "overflow_checks E" and "q < lo"
    and "pkt_p pkt = B vecbox nonce"
    and "decrypt E (ph_keys s) (pkt_id pkt) vecbox nonce = Some \<lparr>msg_id = i, msg_body = Nak lo q\<rparr>"
    and "\<not> lru_contains L (seen s) i"
  shows "ph_handle_message E L N I (Recv a pkt) s = ([], Inl Arithmetic_overflow)"
proof -
  from assms(1,2) have "u32_sub (overflow_checks E) q lo = Inl Arithmetic_overflow" by (simp add: u32_sub_def)
  with assms(3-5) show ?thesis by (simp add: recv_def recv_nak_def act_simps then_do_def)
qed

text \<open>
  C40. A duplicated packet stops the node that sent it, where overflow is checked: if a node receives a second time a packet of a peer (its
  message was seen, its sequence number is not above the last one from that address), it answers with a \<open>Nak\<close> whose
  range ends before it begins; when the peer receives that \<open>Nak\<close>, it panics on \<open>end - start\<close>.
\<close>

theorem duplicate_packet_panics_sender:
  assumes "codec_law E" and "box_law E valid" and "valid kp" and "valid kp'" and "overflow_checks E"
    and "ph_socket t = Some sock" and "ph_keys t (pkt_id pkt) = Some (addr, kp, public_key kp')"
    and "pkt_p pkt = B vecbox nonce" and "decrypt E (ph_keys t) (pkt_id pkt) vecbox nonce = Some m"
    and "lru_contains L (seen t) (msg_id m)" and "rx_sequences t a = Some prev"
    and "seq_deref (pkt_s pkt) \<le> seq_deref prev" and "unat (seq_deref prev) + 1 < 2 ^ 32"
    and "ph_keys s (node_id N) = Some (addr', kp', public_key kp)"
    and "\<not> lru_contains L (seen s) (new_v4 I 0)"
  shows "\<exists>bs q. Send_to sock bs addr \<in> set (fst (ph_handle_message E L N I (Recv a pkt) t)) \<and>
    packet_from_slice E bs = Some q \<and>
    ph_handle_message E L M J (Recv b q) s = ([], Inl Arithmetic_overflow)"
proof -
  let ?t = "t\<lparr>rx_sequences := (rx_sequences t)(a \<mapsto> pkt_s pkt)\<rparr>" and ?lo = "seq_deref prev + 1"
  have lo: "u32_add (overflow_checks E) (seq_deref prev) 1 = Inr ?lo" using assms(13) by (simp add: u32_add_def)
  have "unat ?lo = unat (seq_deref prev) + 1"
    using assms(13) by (simp add: unat_word_ariths take_bit_nat_eq_self)
  with assms(12) have less: "seq_deref (pkt_s pkt) < ?lo" by (simp add: word_le_nat_alt word_less_nat_alt)
  have "ph_socket ?t = Some sock" "ph_keys ?t (pkt_id pkt) = Some (addr, kp, public_key kp')"
    using assms(6,7) by simp_all
  from send_nak_sends [OF assms(1-4) this lo, of L N I "pkt_s pkt"]
  obtain q c n where q: "Send_to sock (packet_bytes E q) addr \<in> set (fst (send_nak E L N I (pkt_id pkt) prev (pkt_s pkt) ?t))"
    "pkt_p q = B c n" "pkt_id q = node_id N"
    and d: "\<forall>ks' j a'. ks' j = Some (a', kp', public_key kp) \<longrightarrow> decrypt E ks' j c n =
      Some \<lparr>msg_id = new_v4 I 0, msg_body = Nak ?lo (seq_deref (pkt_s pkt))\<rparr>"
    by blast
  have "decrypt E (ph_keys s) (pkt_id q) c n = Some \<lparr>msg_id = new_v4 I 0, msg_body = Nak ?lo (seq_deref (pkt_s pkt))\<rparr>"
    using d assms(14) by (simp add: q(3))
  from nak_backwards_panics [OF assms(5) less q(2) this assms(15)]
  have "ph_handle_message E L M J (Recv b q) s = ([], Inl Arithmetic_overflow)" .
  with q(1) codec_lawD(3) [OF assms(1)] show ?thesis
    using recv_seen_eq [OF assms(8-11), of N I] by auto
qed

definition sample_after_message :: "(nat \<times> uuid list) packet_handler" where
  "sample_after_message = sample_talking\<lparr>seen := (10000, [9])\<rparr>"

theorem duplicate_packet_panics_sender_witness:
  "\<exists>q. ph_handle_message (sample_externals True) sample_lru (sample_node Uniform) sample_inputs
     (Recv sample_addr q) (sample_ph 1) = ([], Inl Arithmetic_overflow)"
proof -
  have "lru_contains sample_lru (seen sample_after_message) (msg_id sample_message)"
    by (simp add: sample_after_message_def sample_message_def sample_lru_def)
  moreover have "node_id (sample_node Uniform) = 1" "overflow_checks (sample_externals True)"
    by (simp_all add: sample_node_def sample_externals_def)
  moreover have "ph_socket sample_after_message = Some 0" "ph_keys sample_after_message = sample_keys 2"
      "rx_sequences sample_after_message sample_addr = Some (Seq 1)"
    by (simp_all add: sample_after_message_def)
  ultimately show ?thesis
    using duplicate_packet_panics_sender [where E = "sample_externals True" and t = sample_after_message and a = sample_addr
        and pkt = "sample_packet 1 sample_message" and m = sample_message and vecbox = "sample_box sample_message"
        and nonce = "[]" and prev = "Seq 1" and s = "sample_ph 1" and kp = sample_keypair and kp' = sample_keypair
        and valid = sample_valid and sock = 0 and addr = sample_addr and addr' = sample_addr and N = "sample_node Uniform"
        and L = sample_lru and I = sample_inputs and M = "sample_node Uniform" and J = sample_inputs and b = sample_addr]
    by (simp add: seq_deref_def) blast
qed

subsection \<open>Rate control\<close>

lemma loss_rate_below:
  "loss_rate naks sent < RC_LOSS_RATE_THRESHOLD \<longleftrightarrow> sent = 0 \<or> 1000 * unat naks < unat sent"
proof (cases "sent = 0")
  case True
  have "\<bar>f64_round (1 / 1000) - 1 / 1000\<bar> \<le> 1 / 1000 / 2 ^ 53" by (rule f64_round_error) simp
  then have "0 < f64_round (1 / 1000)" unfolding abs_le_iff by simp
  with True show ?thesis by (simp add: loss_rate_def RC_LOSS_RATE_THRESHOLD_def)
next
  case False
  then have "0 < unat sent" by (simp add: unat_gt_0)
  moreover have "unat sent < 2 ^ 32" using unsigned_less [of sent, where 'a = nat] by simp
  moreover have "0 < sent" using False by (simp add: word_neq_0_conv)
  ultimately show ?thesis
    using False f64_div_below_thousandth [of "unat sent" "unat naks"]
    by (simp only: loss_rate_def RC_LOSS_RATE_THRESHOLD_def f64_of_u32) simp
qed

text \<open>What one run of the rate control makes of the delay for an address.\<close>

definition controlled_delay :: "'c packet_handler \<Rightarrow> sockaddr \<Rightarrow> u64 option" where
  "controlled_delay s a =
     (case tx_sequences s a of
        Some q \<Rightarrow>
          if seq_deref q = 0 \<or> 1000 * unat (get_or 0 (nak_count s) a) < unat (seq_deref q)
          then Some (case tx_delay s a of Some d \<Rightarrow> decrease_delay d | None \<Rightarrow> RC_DEFAULT_PACKET_INTERVAL_NANOS)
          else tx_delay s a
      | None \<Rightarrow> tx_delay s a)"

definition rc_unused :: "'c packet_handler \<Rightarrow> bool" where
  "rc_unused s \<longleftrightarrow> rc_sequences s = Map.empty \<and> finite (dom (tx_sequences s))"

lemma rate_control_step_eq:
  assumes "rc_sequences s = Map.empty" and "tx_sequences s a = Some q"
  shows "rate_control_step E (a, q) s = ([], Inr (s\<lparr>tx_delay := (tx_delay s)(a := controlled_delay s a)\<rparr>))"
proof -
  have "u32_sub (overflow_checks E) (seq_deref q) 0 = Inr (seq_deref q)" by simp
  then show ?thesis
    using assms
    by (auto simp: rate_control_step_def act_simps get_or_def seq_new_def seq_deref_def loss_rate_below
        controlled_delay_def modify_or_insert_def split: option.splits)
qed

lemma rate_control_loop:
  assumes "rc_sequences s = Map.empty" and "distinct (map fst aqs)"
    and "\<forall>(a, q) \<in> set aqs. tx_sequences s a = Some q"
  shows "foreach aqs (rate_control_step E) s =
    ([], Inr (s\<lparr>tx_delay := (\<lambda>a. if a \<in> fst ` set aqs then controlled_delay s a else tx_delay s a)\<rparr>))"
  using assms
proof (induction aqs arbitrary: s)
  case Nil
  then show ?case by (simp add: act_simps)
next
  case (Cons aq aqs)
  obtain a q where aq: "aq = (a, q)" by (cases aq)
  let ?s = "s\<lparr>tx_delay := (tx_delay s)(a := controlled_delay s a)\<rparr>"
  have step: "rate_control_step E (a, q) s = ([], Inr ?s)"
    using Cons.prems by (intro rate_control_step_eq) (auto simp: aq)
  have "foreach aqs (rate_control_step E) ?s =
      ([], Inr (?s\<lparr>tx_delay := (\<lambda>b. if b \<in> fst ` set aqs then controlled_delay ?s b else tx_delay ?s b)\<rparr>))"
    using Cons.prems by (intro Cons.IH) (auto simp: aq)
  moreover have "(\<lambda>b. if b \<in> fst ` set aqs then controlled_delay ?s b else tx_delay ?s b) =
      (\<lambda>b. if b \<in> fst ` set (aq # aqs) then controlled_delay s b else tx_delay s b)"
    using Cons.prems(2) by (auto simp: aq fun_eq_iff controlled_delay_def split: option.splits)
  ultimately show ?case
    by (simp add: aq foreach_Cons then_do_def step)
qed

lemma update_rate_control_eq:
  assumes "rc_unused s" and "order_law I"
  shows "update_rate_control E I s = ([], Inr (s\<lparr>tx_delay := controlled_delay s\<rparr>))"
proof -
  let ?socks = "sock_order I (dom (tx_sequences s))"
  let ?aqs = "List.map_filter (\<lambda>sock. map_option (Pair sock) (tx_sequences s sock)) ?socks"
  have socks: "set ?socks = dom (tx_sequences s)" "distinct ?socks"
    using assms by (simp_all add: rc_unused_def order_law_sockD)
  then have fst: "map fst ?aqs = ?socks"
  proof -
    have "set xs \<subseteq> dom (tx_sequences s) \<Longrightarrow>
        map fst (List.map_filter (\<lambda>sock. map_option (Pair sock) (tx_sequences s sock)) xs) = xs" for xs
      by (induction xs) (auto simp: map_filter_simps)
    then show ?thesis using socks(1) by simp
  qed
  then have "fst ` set ?aqs = dom (tx_sequences s)" using socks(1) by (metis set_map)
  moreover have "(\<lambda>a. if a \<in> dom (tx_sequences s) then controlled_delay s a else tx_delay s a) = controlled_delay s"
    by (auto simp: controlled_delay_def fun_eq_iff split: option.splits)
  moreover have "\<forall>(a, q) \<in> set ?aqs. tx_sequences s a = Some q" by (auto simp: in_set_map_filter)
  ultimately show ?thesis
    using rate_control_loop [of s ?aqs E] assms(1) socks(2)
    by (simp add: update_rate_control_def with_state_apply fst rc_unused_def)
qed

lemma finite_number_packets: "finite (dom txs) \<Longrightarrow> finite (dom (fst (number_packets N ps txs)))"
  by (induction ps arbitrary: txs) (auto simp: Let_def)

lemma prepare_packets_finite:
  "prepare_packets E N ps txs = Inr (txs', vs) \<Longrightarrow> finite (dom txs) \<Longrightarrow> finite (dom txs')"
  by (induction ps arbitrary: txs vs)
    (auto simp: Let_def bind_result_def unwrap_def split: sum.splits option.splits prod.splits)

lemma keeps_rc_modify:
  "(\<And>s. rc_sequences (f s) = rc_sequences s \<and> tx_sequences (f s) = tx_sequences s) \<Longrightarrow>
     keeps no_view (\<lambda>_. rc_unused) (modify f)"
  by (rule keeps_modify) (simp add: rc_unused_def)

lemma keeps_rc_multisend: "keeps no_view (\<lambda>_. rc_unused) (multisend E N ps)"
proof -
  have "foreach vs (\<lambda>(v, a). emit (Send_to sock v a)) t = (map (\<lambda>(v, a). Send_to sock v a) vs, Inr t)"
    for vs sock and t :: "'a packet_handler"
    unfolding case_prod_beta by (rule foreach_emit)
  then show ?thesis
    by (auto simp: keeps_def multisend_def act_simps then_do_def with_result_def rc_unused_def
        dest: prepare_packets_finite split: option.splits sum.splits)
qed

lemmas keeps_rc = keeps_do_all keeps_then keeps_skip keeps_with_state keeps_with_result keeps_foreach
  keeps_rc_modify keeps_rc_multisend keeps_emit

lemma keeps_rc_handle: "keeps no_view (\<lambda>_. rc_unused) (ph_handle_message E L N I m)"
proof -
  have send_messages: "keeps no_view (\<lambda>_. rc_unused) (encrypt_and_send_messages E L N I base ts m)" for base ts m
    by (auto simp: encrypt_and_send_messages_def put_seen_def intro!: keeps_rc)
  have forward: "keeps no_view (\<lambda>_. rc_unused) (send_broadcast_to_subscribers E L N I m)" for m
    by (auto simp: send_broadcast_to_subscribers_def intro!: keeps_rc send_messages)
  have body: "keeps no_view (\<lambda>_. rc_unused) (recv_body E L N I a i j b)" for a i j b
    by (cases b) (auto simp: recv_broadcast_def recv_peer_request_def recv_nak_def put_seen_def
        intro!: keeps_rc forward split: option.splits)
  have send: "keeps no_view (\<lambda>_. rc_unused) (send N I p a)" for p a
    by (auto simp: keeps_def send_def act_simps then_do_def Let_def rc_unused_def split: option.splits)
  show ?thesis
    by (cases m) (auto simp: recv_def send_nak_def start_recv_loop_def encrypt_and_send_message_def send_broadcast_def
        send_peer_status_def update_rate_control_def rate_control_step_def intro!: keeps_rc send_messages forward body send
        split: option.splits payload.splits)
qed

interpretation ph_rc: gen_server "packet_handler_new L" "ph_handle_message E L N" "\<lambda>I m. True" rc_unused "\<lambda>_. True" True
  for E L N
proof unfold_locales
  show "rc_unused (packet_handler_new L)" by (simp add: rc_unused_def packet_handler_new_def)
  show "wp True (\<lambda>_. True) (ph_handle_message E L N I m) rc_unused s" if "rc_unused s" for I m s
    using keeps_rc_handle [of E L N I m] that unfolding keeps_def
    by (cases "ph_handle_message E L N I m s") (auto simp: wp_def split: sum.splits)
qed

text \<open>
  C29. The rate control, exactly: in every reachable state a run of it never panics, sends nothing and changes only the delays. The delay
  for an address that was sent to is lowered by 100 ns (not below 0), or set to 10,000 ns if there was none, exactly if
  fewer than one in 1,000 packets were reported lost (the floating point comparison decides exactly that); the packets and the losses are all those since the node
  started, not those of the interval.
\<close>

theorem rate_control_exact:
  assumes "run (ph_handle_message E L N) ms (packet_handler_new L) = (es, Inr s)" and "order_law I"
  shows "ph_handle_message E L N I RateControl s = ([], Inr (s\<lparr>tx_delay := (\<lambda>a.
    case tx_sequences s a of
      Some q \<Rightarrow>
        if seq_deref q = 0 \<or> 1000 * unat (get_or 0 (nak_count s) a) < unat (seq_deref q)
        then Some (case tx_delay s a of Some d \<Rightarrow> (if 100 < d then d - 100 else 0) | None \<Rightarrow> 10000)
        else tx_delay s a
    | None \<Rightarrow> tx_delay s a)\<rparr>))"
proof -
  have "rc_unused s" by (rule ph_rc.run_inv [OF _ assms(1)]) simp
  moreover have "controlled_delay s = (\<lambda>a. case tx_sequences s a of
      Some q \<Rightarrow>
        if seq_deref q = 0 \<or> 1000 * unat (get_or 0 (nak_count s) a) < unat (seq_deref q)
        then Some (case tx_delay s a of Some d \<Rightarrow> (if 100 < d then d - 100 else 0) | None \<Rightarrow> 10000)
        else tx_delay s a
    | None \<Rightarrow> tx_delay s a)"
    by (auto simp: controlled_delay_def decrease_delay_def RC_DELAY_DECREASE_def RC_DEFAULT_PACKET_INTERVAL_NANOS_def
        fun_eq_iff split: option.splits)
  ultimately show ?thesis using update_rate_control_eq [OF _ assms(2), of s E] by simp
qed

theorem rate_control_exact_witness:
  "\<exists>f. ph_handle_message (sample_externals True) sample_lru (sample_node Uniform) sample_inputs RateControl (sample_ph 2) =
     ([], Inr ((sample_ph 2)\<lparr>tx_delay := f\<rparr>))"
  using rate_control_exact [OF sample_run_ready sample_order_law] by blast



subsection \<open>Panics and effects\<close>

text \<open>The packet handler only sends, spawns sends, casts to the other actors and calls the broadcast handler; it calls no actor.\<close>

fun ph_allowed :: "effect \<Rightarrow> bool" where
  "ph_allowed (Send_to sock bs a) = True"
| "ph_allowed (Spawn_send_to w sock p a) = True"
| "ph_allowed (Spawn_recv_loop sock) = True"
| "ph_allowed (Cast_handshaker (Packet a h i)) = True"
| "ph_allowed (Cast_peer_manager (Request i r)) = True"
| "ph_allowed (Handle_broadcast h d) = True"
| "ph_allowed e = False"

definition ph_panic :: "externals \<Rightarrow> panic \<Rightarrow> bool" where
  "ph_panic E p \<longleftrightarrow> p = Arithmetic_overflow \<and> overflow_checks E"

lemma u32_panics:
  "u32_sub (overflow_checks E) a b = Inl p \<Longrightarrow> ph_panic E p"
  "u32_add (overflow_checks E) a b = Inl p \<Longrightarrow> ph_panic E p"
  by (auto simp: u32_sub_def u32_add_def ph_panic_def split: if_splits)

lemma within_multisend [within_rules]: "codec_law E \<Longrightarrow> acts_within (ph_panic E) ph_allowed (multisend E N ps)"
  by (auto simp: multisend_def prepare_packets_eq intro!: within_rules split: option.splits)

lemma within_send_messages [within_rules]:
  "codec_law E \<Longrightarrow> acts_within (ph_panic E) ph_allowed (encrypt_and_send_messages E L N I base ts m)"
  by (auto simp: encrypt_and_send_messages_def put_seen_def intro!: within_rules)

lemma within_forward [within_rules]:
  "codec_law E \<Longrightarrow> acts_within (ph_panic E) ph_allowed (send_broadcast_to_subscribers E L N I m)"
  by (auto simp: send_broadcast_to_subscribers_def intro!: within_rules)

lemma within_body [within_rules]:
  "codec_law E \<Longrightarrow> acts_within (ph_panic E) ph_allowed (recv_body E L N I a i j b)"
  by (cases b) (auto simp: recv_broadcast_def recv_peer_request_def recv_nak_def put_seen_def
      intro!: within_rules split: option.splits dest: u32_panics)

lemma within_handle:
  "codec_law E \<Longrightarrow> acts_within (ph_panic E) ph_allowed (ph_handle_message E L N I m)"
  by (cases m) (auto simp: recv_def send_nak_def start_recv_loop_def encrypt_and_send_message_def send_broadcast_def
      send_peer_status_def update_rate_control_def rate_control_step_def send_def Let_def
      intro!: within_rules split: option.splits payload.splits dest: u32_panics)

lemma within_run: "(\<And>x m. acts_within P A (h x m)) \<Longrightarrow> acts_within P A (run h ms)"
  by (induction h ms rule: run.induct) (simp_all add: within_rules)



subsection \<open>Pacing\<close>

text \<open>
  A burst is not paced: of the packets sent to one address in one instant after a first one, all have the same send time, the
  instant of the previous call plus the delay, and not one delay after the other.
\<close>

theorem burst_is_not_paced:
  assumes "ph_socket s = Some sock" and "last_tx s a = Some (instant_now I)"
  shows "\<exists>ps s'. run (ph_handle_message E L N) (replicate n (I, Send a p)) s =
    (map (\<lambda>q. Spawn_send_to (Some (instant_now I + unat (get_or 10000 (tx_delay s) a))) sock q a) ps, Inr s') \<and>
    length ps = n \<and> last_tx s' a = Some (instant_now I)"
  using assms
proof (induction n arbitrary: s)
  case 0
  then show ?case by (auto simp: act_simps)
next
  case (Suc n)
  let ?q = "next_seq (tx_sequences s) a"
  let ?s = "s\<lparr>tx_sequences := (tx_sequences s)(a \<mapsto> ?q), last_tx := (last_tx s)(a \<mapsto> instant_now I)\<rparr>"
  let ?p = "\<lparr>pkt_s = ?q, pkt_id = node_id N, pkt_p = p\<rparr>"
  have step: "ph_handle_message E L N I (Send a p) s =
      ([Spawn_send_to (Some (instant_now I + unat (get_or 10000 (tx_delay s) a))) sock ?p a], Inr ?s)"
    using Suc.prems by (simp add: send_def act_simps then_do_def Let_def RC_DEFAULT_PACKET_INTERVAL_NANOS_def)
  have "ph_socket ?s = Some sock" "last_tx ?s a = Some (instant_now I)" using Suc.prems by simp_all
  from Suc.IH [OF this] obtain ps s' where run: "run (ph_handle_message E L N) (replicate n (I, Send a p)) ?s =
      (map (\<lambda>q. Spawn_send_to (Some (instant_now I + unat (get_or 10000 (tx_delay s) a))) sock q a) ps, Inr s')"
    "length ps = n" "last_tx s' a = Some (instant_now I)"
    by auto
  show ?case
    by (rule exI [of _ "?p # ps"], rule exI [of _ s'])
      (simp add: run then_do_def step del: ph_handle_message.simps)
qed

subsection \<open>The receive loop\<close>

lemma length_receive_into [simp]: "length (receive_into buf d) = length buf"
  by (simp add: receive_into_def)

text \<open>
  C31. What a datagram left in the receive buffer does not disturb the next: as long as every datagram is an encoded packet that
  fits the buffer, the loop casts exactly the packets that were sent, in order, each with its address.
\<close>

theorem recv_loop_faithful:
  assumes "codec_law E" and "prefix_law E"
    and "\<forall>(p, a) \<in> set pas. length (packet_bytes E p) \<le> length buf"
  shows "recv_loop E buf (map (\<lambda>(p, a). Some (packet_bytes E p, a)) pas) =
    map (\<lambda>(p, a). Cast_packet_handler (Recv a p)) pas"
  using assms(3)
proof (induction pas arbitrary: buf)
  case Nil
  then show ?case by simp
next
  case (Cons pa pas)
  obtain p a where pa: "pa = (p, a)" by (cases pa)
  have "packet_from_slice E (receive_into buf (packet_bytes E p)) = Some p"
    using assms(2) codec_lawD(2) [OF assms(1), of p] Cons.prems
    by (simp add: pa receive_into_def prefix_law_def)
  with Cons show ?case by (simp add: pa Let_def)
qed

theorem recv_loop_faithful_witness:
  "recv_loop (sample_externals True) (replicate (length (packet_bytes (sample_externals True) (sample_packet 1 sample_nak))) 0)
     [Some (packet_bytes (sample_externals True) (sample_packet 1 sample_nak), sample_addr)] =
   [Cast_packet_handler (Recv sample_addr (sample_packet 1 sample_nak))]"
  using recv_loop_faithful [where pas = "[(sample_packet 1 sample_nak, sample_addr)]" and E = "sample_externals True"
      and buf = "replicate (length (packet_bytes (sample_externals True) (sample_packet 1 sample_nak))) 0"]
  by (simp del: recv_loop.simps)

text \<open>
  A truncated datagram repeats the last packet: the loop decodes the whole buffer and not the bytes received, so any prefix of the
  previous packet, even an empty datagram from another address, is taken for that packet again, with the new address.
\<close>

theorem truncated_datagram_repeats_packet:
  assumes "codec_law E" and "prefix_law E" and "length (packet_bytes E p) \<le> length buf"
  shows "recv_loop E buf [Some (packet_bytes E p, a), Some (take n (packet_bytes E p), b)] =
    [Cast_packet_handler (Recv a p), Cast_packet_handler (Recv b p)]"
proof -
  let ?v = "packet_bytes E p"
  have first: "packet_from_slice E (receive_into buf ?v) = Some p"
    using assms(2,3) codec_lawD(2) [OF assms(1), of p] by (simp add: receive_into_def prefix_law_def)
  have "receive_into (receive_into buf ?v) (take n ?v) = receive_into buf ?v"
    using assms(3) by (simp add: receive_into_def min_def)
  with first show ?thesis by (simp add: Let_def)
qed

end
