(* ===== verification/System.thy ===== *)
theory System
  imports Node_Props Handshake_Props Packet_Handler_Props
begin

text \<open>
  The whole node: the three actors of \<^verbatim>\<open>registry.rs\<close> with their mailboxes, the tasks that are spawned and the timers the
  actors hold, under an arbitrary network. An actor takes the first message of its mailbox, handles it, and its effects
  are carried out one after the other, interleaved with everything else, before it takes the next message. After a panic
  an actor takes no more messages, and from then on the effects of others may be lost and other actors may stop in the middle
  of an activation; timers may run at any time and again, and calls do not block. The relation so allows every behaviour of
  the program and some more, and what holds in all its reachable states holds of the program. Theory \<open>Runtime\<close> has the
  exact rules for blocking and failing calls, and shows that they refine this relation.
\<close>

subsection \<open>State\<close>

datatype actor = Packet_handler_actor | Handshaker_actor | Peer_manager_actor

text \<open>\<open>hs_past\<close> and \<open>received\<close> record what the handshaker has handled and what has arrived from the network.\<close>

record 'c system =
  sys_ph :: "'c packet_handler"
  sys_hs :: handshaker
  sys_pm :: peer_manager
  ph_mail :: "packet_handler_message list"
  hs_mail :: "handshaker_message list"
  pm_mail :: "peer_manager_request list"
  outbox :: "actor \<Rightarrow> effect list"
  stopped :: "actor set"
  spawned :: "effect list list"
  hs_past :: hs_history
  received :: "(sockaddr \<times> packet) list"

text \<open>Carrying out an effect. Those that leave the node change nothing in it.\<close>

fun post :: "effect \<Rightarrow> 'c system \<Rightarrow> 'c system" where
  "post (Cast_packet_handler m) \<sigma> = \<sigma>\<lparr>ph_mail := ph_mail \<sigma> @ [m]\<rparr>"
| "post (Call_packet_handler m) \<sigma> = \<sigma>\<lparr>ph_mail := ph_mail \<sigma> @ [m]\<rparr>"
| "post (Cast_handshaker m) \<sigma> = \<sigma>\<lparr>hs_mail := hs_mail \<sigma> @ [m]\<rparr>"
| "post (Call_handshaker m) \<sigma> = \<sigma>\<lparr>hs_mail := hs_mail \<sigma> @ [m]\<rparr>"
| "post (Cast_peer_manager m) \<sigma> = \<sigma>\<lparr>pm_mail := pm_mail \<sigma> @ [m]\<rparr>"
| "post (Call_peer_manager m) \<sigma> = \<sigma>\<lparr>pm_mail := pm_mail \<sigma> @ [m]\<rparr>"
| "post (Spawn_call_packet_handler d m) \<sigma> = \<sigma>\<lparr>spawned := spawned \<sigma> @ [[Call_packet_handler m]]\<rparr>"
| "post _ \<sigma> = \<sigma>"

text \<open>The futures of the timers that the actors hold.\<close>

definition hs_timers :: "handshaker \<Rightarrow> delayed set" where
  "hs_timers s = set_option (bootstrap_timer s) \<union>
     (\<Union>h \<in> ran (hellos s) \<union> ran (ohais s) \<union> ran (okboss s). set_option (hss_timer h))"

definition pm_timers :: "peer_manager \<Rightarrow> future set" where
  "pm_timers s = delayed_future ` (set_option (reassign_timer s) \<union> ran (heartbeat_watchdogs s)) \<union>
     interval_future ` set_option (heartbeat s)"

definition timers :: "'c system \<Rightarrow> future set" where
  "timers \<sigma> = {interval_future (rate_control (sys_ph \<sigma>))} \<union> delayed_future ` hs_timers (sys_hs \<sigma>) \<union> pm_timers (sys_pm \<sigma>)"

text \<open>The state of an actor and the set of stopped ones after an activation.\<close>

definition aftermath :: "'s \<Rightarrow> 's result \<Rightarrow> 's" where
  "aftermath s r = (case r of Inr s' \<Rightarrow> s' | Inl p \<Rightarrow> s)"

definition stops :: "actor \<Rightarrow> 's result \<Rightarrow> actor set \<Rightarrow> actor set" where
  "stops a r S = (case r of Inr s' \<Rightarrow> S | Inl p \<Rightarrow> insert a S)"

subsection \<open>Steps\<close>

text \<open>What the application does to a running node: \<open>broadcast\<close>, \<open>get_subscriber_count\<close> and the task of \<open>shutdown\<close>.\<close>

fun application :: "effect \<Rightarrow> bool" where
  "application (Call_packet_handler (SendBroadcast data)) = True"
| "application (Call_peer_manager GetSubscriberCount) = True"
| "application (Call_peer_manager Shutdown) = True"
| "application e = False"

text \<open>An activation of an actor: it takes the first message of its mailbox and handles it.\<close>

inductive activation :: "externals \<Rightarrow> 'c lru \<Rightarrow> 'r chooser \<Rightarrow> nodeinfo \<Rightarrow> actor \<Rightarrow> 'c system \<Rightarrow> 'c system \<Rightarrow> bool"
  for E L C N where
  ph_handles: "Packet_handler_actor \<notin> stopped \<sigma> \<Longrightarrow> outbox \<sigma> Packet_handler_actor = [] \<Longrightarrow> ph_mail \<sigma> = m # ms \<Longrightarrow>
    ph_handle_message E L N I m (sys_ph \<sigma>) = (es, r) \<Longrightarrow>
    activation E L C N Packet_handler_actor \<sigma> (\<sigma>\<lparr>ph_mail := ms, outbox := (outbox \<sigma>)(Packet_handler_actor := es),
      sys_ph := aftermath (sys_ph \<sigma>) r, stopped := stops Packet_handler_actor r (stopped \<sigma>)\<rparr>)"
| hs_handles: "Handshaker_actor \<notin> stopped \<sigma> \<Longrightarrow> outbox \<sigma> Handshaker_actor = [] \<Longrightarrow> hs_mail \<sigma> = m # ms \<Longrightarrow>
    draw_law I \<Longrightarrow> clock_ok (now I) \<Longrightarrow>
    hs_handle_message E N I m (sys_hs \<sigma>) = (es, r) \<Longrightarrow>
    activation E L C N Handshaker_actor \<sigma> (\<sigma>\<lparr>hs_mail := ms, outbox := (outbox \<sigma>)(Handshaker_actor := es),
      sys_hs := aftermath (sys_hs \<sigma>) r, stopped := stops Handshaker_actor r (stopped \<sigma>),
      hs_past := hs_past \<sigma> @ [(I, m)]\<rparr>)"
| pm_handles: "Peer_manager_actor \<notin> stopped \<sigma> \<Longrightarrow> outbox \<sigma> Peer_manager_actor = [] \<Longrightarrow> pm_mail \<sigma> = m # ms \<Longrightarrow>
    order_law I \<Longrightarrow> draw_law I \<Longrightarrow>
    pm_handle_message C N I m (sys_pm \<sigma>) = (es, r) \<Longrightarrow>
    activation E L C N Peer_manager_actor \<sigma> (\<sigma>\<lparr>pm_mail := ms, outbox := (outbox \<sigma>)(Peer_manager_actor := es),
      sys_pm := aftermath (sys_pm \<sigma>) r, stopped := stops Peer_manager_actor r (stopped \<sigma>)\<rparr>)"

text \<open>Once an actor has stopped, effects may be lost and others may stop: \<open>effect_lost\<close>, \<open>gives_up\<close>, \<open>task_lost\<close>.\<close>

inductive node_step :: "externals \<Rightarrow> 'c lru \<Rightarrow> 'r chooser \<Rightarrow> nodeinfo \<Rightarrow> 'c system \<Rightarrow> 'c system \<Rightarrow> bool"
  for E L C N where
  activates: "activation E L C N a \<sigma> \<tau> \<Longrightarrow> node_step E L C N \<sigma> \<tau>"
| carries_out: "outbox \<sigma> a = e # es \<Longrightarrow>
    node_step E L C N \<sigma> (post e (\<sigma>\<lparr>outbox := (outbox \<sigma>)(a := es)\<rparr>))"
| effect_lost: "stopped \<sigma> \<noteq> {} \<Longrightarrow> outbox \<sigma> a = e # es \<Longrightarrow>
    node_step E L C N \<sigma> (\<sigma>\<lparr>outbox := (outbox \<sigma>)(a := es)\<rparr>)"
| gives_up: "stopped \<sigma> \<noteq> {} \<Longrightarrow>
    node_step E L C N \<sigma> (\<sigma>\<lparr>outbox := (outbox \<sigma>)(a := []), stopped := insert a (stopped \<sigma>)\<rparr>)"
| task_runs: "spawned \<sigma> = ts @ (e # es) # us \<Longrightarrow>
    node_step E L C N \<sigma> (post e (\<sigma>\<lparr>spawned := ts @ es # us\<rparr>))"
| task_lost: "stopped \<sigma> \<noteq> {} \<Longrightarrow> spawned \<sigma> = ts @ (e # es) # us \<Longrightarrow> es' = es \<or> es' = [] \<Longrightarrow>
    node_step E L C N \<sigma> (\<sigma>\<lparr>spawned := ts @ es' # us\<rparr>)"
| timer_fires: "f \<in> timers \<sigma> \<Longrightarrow>
    node_step E L C N \<sigma> (\<sigma>\<lparr>spawned := spawned \<sigma> @ [future_effects E f]\<rparr>)"
| packet_arrives: "node_step E L C N \<sigma> (\<sigma>\<lparr>ph_mail := ph_mail \<sigma> @ [Recv a p], received := received \<sigma> @ [(a, p)]\<rparr>)"
| application_calls: "application e \<Longrightarrow> node_step E L C N \<sigma> (post e \<sigma>)"

text \<open>The node when \<open>Server::run\<close> begins to cast.\<close>

definition node_start :: "'c lru \<Rightarrow> nodeinfo \<Rightarrow> nat \<Rightarrow> nat option \<Rightarrow> nat \<Rightarrow> nat \<Rightarrow> 'c system" where
  "node_start L N notify h sock n =
     \<lparr>sys_ph = packet_handler_new L, sys_hs = handshaker_new, sys_pm = peer_manager_new,
      ph_mail = [], hs_mail = [], pm_mail = [], outbox = (\<lambda>_. []), stopped = {},
      spawned = [List.map_filter node_effect_of (start_effects N notify h sock n)], hs_past = [], received = []\<rparr>"

subsection \<open>Provenance\<close>

text \<open>A peer whose keys come out of a completed handshake, and keys that are those of such a peer.\<close>

definition proven :: "externals \<Rightarrow> nodeinfo \<Rightarrow> hs_history \<Rightarrow> peer \<Rightarrow> bool" where
  "proven E N past p \<longleftrightarrow> proven_by_answer E N past p \<or> proven_by_hmac E N past p"

definition keys_proven :: "externals \<Rightarrow> nodeinfo \<Rightarrow> hs_history \<Rightarrow> keys \<Rightarrow> bool" where
  "keys_proven E N past ks \<longleftrightarrow>
     (\<forall>i a kp pk. ks i = Some (a, kp, pk) \<longrightarrow>
        (\<exists>p. proven E N past p \<and> peer_id p = i \<and> peer_sockaddr p = a \<and> our_keypair p = Some kp \<and>
             their_public_key p = Some pk))"

definition known_proven :: "externals \<Rightarrow> nodeinfo \<Rightarrow> hs_history \<Rightarrow> (uuid \<rightharpoonup> peer) \<Rightarrow> bool" where
  "known_proven E N past m \<longleftrightarrow> (\<forall>i p. m i = Some p \<longrightarrow> is_handshaken p \<longrightarrow> proven E N past p)"

text \<open>A handshake packet that came from the network.\<close>

definition arrived :: "(sockaddr \<times> packet) list \<Rightarrow> sockaddr \<Rightarrow> handshake \<Rightarrow> uuid \<Rightarrow> bool" where
  "arrived net a h i \<longleftrightarrow> (\<exists>q. (a, \<lparr>pkt_s = q, pkt_id = i, pkt_p = H h\<rparr>) \<in> set net)"

fun good_request :: "externals \<Rightarrow> nodeinfo \<Rightarrow> hs_history \<Rightarrow> peer_manager_request \<Rightarrow> bool" where
  "good_request E N past (Request i (PeerStatus st)) =
     (status_state st = Up \<longrightarrow> is_handshaken (status_peer st) \<longrightarrow> proven E N past (status_peer st))"
| "good_request E N past (Request i (Peers ps)) = (\<forall>p \<in> set ps. \<not> is_handshaken p)"
| "good_request E N past r = True"

fun good_ph :: "externals \<Rightarrow> nodeinfo \<Rightarrow> hs_history \<Rightarrow> (sockaddr \<times> packet) list \<Rightarrow> packet_handler_message \<Rightarrow> bool" where
  "good_ph E N past net (KeysUpdated ks) = keys_proven E N past ks"
| "good_ph E N past net (Recv a p) = ((a, p) \<in> set net)"
| "good_ph E N past net m = True"

fun good_hs :: "(sockaddr \<times> packet) list \<Rightarrow> handshaker_message \<Rightarrow> bool" where
  "good_hs net (Packet a h i) = (hs_step h = Dead \<or> arrived net a h i)"
| "good_hs net m = True"

fun good :: "externals \<Rightarrow> nodeinfo \<Rightarrow> hs_history \<Rightarrow> (sockaddr \<times> packet) list \<Rightarrow> effect \<Rightarrow> bool" where
  "good E N past net (Cast_packet_handler m) = good_ph E N past net m"
| "good E N past net (Call_packet_handler m) = good_ph E N past net m"
| "good E N past net (Spawn_call_packet_handler d m) = good_ph E N past net m"
| "good E N past net (Cast_handshaker m) = good_hs net m"
| "good E N past net (Call_handshaker m) = good_hs net m"
| "good E N past net (Cast_peer_manager r) = good_request E N past r"
| "good E N past net (Call_peer_manager r) = good_request E N past r"
| "good E N past net e = True"

lemma proven_snoc: "proven E N past p \<Longrightarrow> proven E N (past @ xs) p"
  unfolding proven_def by (blast intro: proven_by_answer_snoc proven_by_hmac_snoc)

lemma keys_proven_snoc: "keys_proven E N past ks \<Longrightarrow> keys_proven E N (past @ xs) ks"
  unfolding keys_proven_def by (blast intro: proven_snoc)

lemma known_proven_snoc: "known_proven E N past m \<Longrightarrow> known_proven E N (past @ xs) m"
  unfolding known_proven_def by (blast intro: proven_snoc)

lemma good_request_snoc: "good_request E N past r \<Longrightarrow> good_request E N (past @ xs) r"
  by (cases "(E, N, past, r)" rule: good_request.cases) (auto intro: proven_snoc)

lemma good_ph_snoc: "good_ph E N past net m \<Longrightarrow> good_ph E N (past @ xs) (net @ ys) m"
  by (cases m) (auto intro: keys_proven_snoc)

lemma good_hs_snoc: "good_hs net m \<Longrightarrow> good_hs (net @ ys) m"
  by (cases m) (auto simp: arrived_def)

lemma good_snoc: "good E N past net e \<Longrightarrow> good E N (past @ xs) (net @ ys) e"
  by (cases e) (auto intro: good_request_snoc good_ph_snoc good_hs_snoc)

lemma keys_of_proven:
  assumes "known_proven E N past m" and "known_ok m"
  shows "keys_proven E N past (keys_of m)"
  unfolding keys_proven_def
proof (intro allI impI)
  fix i a kp pk
  assume "keys_of m i = Some (a, kp, pk)"
  then obtain p where p: "m i = Some p" "our_keypair p = Some kp" "their_public_key p = Some pk" "peer_sockaddr p = a"
    by (auto simp: keys_of_Some)
  with assms have "proven E N past p" "peer_id p = i" by (auto simp: known_proven_def is_handshaken_def known_ok_def)
  with p show "\<exists>p. proven E N past p \<and> peer_id p = i \<and> peer_sockaddr p = a \<and> our_keypair p = Some kp \<and>
      their_public_key p = Some pk" by blast
qed

subsection \<open>What the packet handler passes on\<close>

text \<open>Handshake packets as they arrived, and peer requests without any key material.\<close>

fun ph_out :: "packet_handler_message \<Rightarrow> effect \<Rightarrow> bool" where
  "ph_out m (Cast_handshaker x) = (\<exists>a p h. m = Recv a p \<and> pkt_p p = H h \<and> x = Packet a h (pkt_id p))"
| "ph_out m (Cast_peer_manager x) = (\<exists>i r. x = Request i r \<and> wire_request r = r)"
| "ph_out m e = ph_allowed e"

lemma within_out_multisend: "acts_within (\<lambda>_. True) (ph_out m) (multisend E N ps)"
  by (auto simp: multisend_def intro!: within_rules split: option.splits)

lemma within_out_messages: "acts_within (\<lambda>_. True) (ph_out m) (encrypt_and_send_messages E L N I base ts x)"
  by (auto simp: encrypt_and_send_messages_def put_seen_def intro!: within_basic within_then within_do_all within_with_state
      within_out_multisend)

lemma within_out_body:
  "wire_body b = b \<Longrightarrow> acts_within (\<lambda>_. True) (ph_out m) (recv_body E L N I a i j b)"
  by (cases b) (auto simp: recv_broadcast_def recv_peer_request_def recv_nak_def put_seen_def
      send_broadcast_to_subscribers_def intro!: within_basic within_then within_do_all within_with_state within_with_result
      within_out_messages split: option.splits)

lemma decrypt_wire:
  "decode_law E \<Longrightarrow> decrypt E ks i vecbox nonce = Some m \<Longrightarrow> wire_body (msg_body m) = msg_body m"
  by (auto simp: decrypt_def decode_law_def wire_message_def split: option.splits prod.splits)
    (metis message.select_convs(2) message.surjective message.update_convs(2))

lemma within_out_handle:
  assumes "decode_law E"
  shows "acts_within (\<lambda>_. True) (ph_out m) (ph_handle_message E L N I m)"
  by (cases m) (auto simp: recv_def send_nak_def start_recv_loop_def encrypt_and_send_message_def send_broadcast_def
      send_broadcast_to_subscribers_def send_peer_status_def update_rate_control_def rate_control_step_def send_def Let_def
      intro!: within_basic within_then within_do_all within_with_state within_with_result within_foreach
      within_out_messages within_out_body decrypt_wire [OF assms]
      split: option.splits payload.splits)

text \<open>Only \<open>KeysUpdated\<close> changes the keys, and nothing the timer.\<close>

definition ph_fixed :: "keys \<Rightarrow> interval \<Rightarrow> unit \<Rightarrow> 'c packet_handler \<Rightarrow> bool" where
  "ph_fixed ks d v s \<longleftrightarrow> ph_keys s = ks \<and> rate_control s = d"

lemma keeps_fixed_modify:
  "(\<And>s. ph_keys (f s) = ph_keys s \<and> rate_control (f s) = rate_control s) \<Longrightarrow> keeps no_view (ph_fixed ks d) (modify f)"
  by (rule keeps_modify) (simp add: ph_fixed_def)

lemma keeps_fixed_emit: "keeps no_view (ph_fixed ks d) (emit e)"
  by (rule keeps_emit) (simp add: no_view_def)

lemmas keeps_fixed = keeps_do_all keeps_then keeps_skip keeps_with_state keeps_with_result keeps_foreach
  keeps_fixed_modify keeps_fixed_emit

lemma keeps_fixed_multisend: "keeps no_view (ph_fixed ks d) (multisend E N ps)"
  by (auto simp: multisend_def intro!: keeps_fixed split: option.splits)

lemma keeps_fixed_messages: "keeps no_view (ph_fixed ks d) (encrypt_and_send_messages E L N I base ts m)"
  by (auto simp: encrypt_and_send_messages_def put_seen_def intro!: keeps_fixed keeps_fixed_multisend)

lemma keeps_fixed_body: "keeps no_view (ph_fixed ks d) (recv_body E L N I a i j b)"
  by (cases b) (auto simp: recv_broadcast_def recv_peer_request_def recv_nak_def put_seen_def send_broadcast_to_subscribers_def
      intro!: keeps_fixed keeps_fixed_messages split: option.splits)

lemma keeps_fixed_handle:
  "(\<And>ks. m \<noteq> KeysUpdated ks) \<Longrightarrow> keeps no_view (ph_fixed ks d) (ph_handle_message E L N I m)"
  by (cases m) (auto simp: recv_def send_nak_def start_recv_loop_def encrypt_and_send_message_def send_broadcast_def
      send_broadcast_to_subscribers_def send_peer_status_def update_rate_control_def rate_control_step_def send_def Let_def
      intro!: keeps_fixed keeps_fixed_messages keeps_fixed_body split: option.splits payload.splits)

lemma ph_handle_keys:
  assumes "ph_handle_message E L N I m s = (es, r)"
  shows "rate_control (aftermath s r) = rate_control s"
    and "ph_keys (aftermath s r) = (case m of KeysUpdated ks \<Rightarrow> ks | _ \<Rightarrow> ph_keys s)"
proof -
  have "rate_control (aftermath s r) = rate_control s \<and> ph_keys (aftermath s r) = ph_keys s"
    if "\<And>ks. m \<noteq> KeysUpdated ks"
  proof (cases r)
    case (Inr s')
    with assms keepsD [OF keeps_fixed_handle [OF that, of "ph_keys s" "rate_control s" E L N I], of "()" s es s']
    show ?thesis by (simp add: ph_fixed_def aftermath_def)
  qed (simp add: aftermath_def)
  with assms show "rate_control (aftermath s r) = rate_control s"
    "ph_keys (aftermath s r) = (case m of KeysUpdated ks \<Rightarrow> ks | _ \<Rightarrow> ph_keys s)"
    by (cases m; auto simp: aftermath_def act_simps)+
qed

subsection \<open>What the handshaker reports\<close>

text \<open>A \<open>Hello\<close> with the one timestamp that stops the handshaker has no effect at all.\<close>

lemma any_result_panics:
  assumes "\<And>x. f x = Inl p"
  shows "any_result f xs = (if xs = [] then Inr False else Inl p)"
  by (cases xs) (simp_all add: assms)

lemma bad_stamp_ignored:
  assumes "chrono_law E" and "clock_ok (now I)" and "now I - ts = - (2 ^ 63)"
  shows "fst (handle_hello E N I a nid i pk zone hmacs ts s) = [] \<and>
    (case snd (handle_hello E N I a nid i pk zone hmacs ts s) of Inr s' \<Rightarrow> s' = s | Inl p \<Rightarrow> True)"
proof -
  have range: "i64_range (- (2 ^ 63))" "\<not> i64_range ts"
    using assms(2,3) by (auto simp: i64_range_def clock_ok_def)
  then have "valid_for_key E h ts hk = Inl Expect_failed" for h hk
    using assms(1) by (simp add: valid_for_key_def calculate_hmac_def chrono_law_def)
  then have inner: "any_result (valid_for_key E h ts) hks = (if hks = [] then Inr False else Inl Expect_failed)" for h hks
    by (rule any_result_panics)
  have "any_result (\<lambda>h. any_result (valid_for_key E h ts) hks) hmacs = Inr False \<or>
      any_result (\<lambda>h. any_result (valid_for_key E h ts) hks) hmacs = Inl Expect_failed" for hks
    unfolding inner by (induction hmacs) auto
  then have "has_valid_hmac E I (hashed_keys s) ts hmacs = Inr False \<or> (\<exists>p. has_valid_hmac E I (hashed_keys s) ts hmacs = Inl p)"
    by (auto simp: has_valid_hmac_def bind_result_def split: option.splits sum.splits)
  then show ?thesis by (auto simp: handle_hello_def act_simps)
qed

lemma hs_hist_handle_any:
  assumes "chrono_law E" and "hash_law E" and "draw_law I" and "clock_ok (now I)" and "hs_hist E N ms s"
  shows "wp True (hs_good E N (ms @ [(I, m)])) (hs_handle_message E N I m) (hs_hist E N (ms @ [(I, m)])) s"
proof (cases "hs_legal E I m")
  case True
  from hs_hist_handle [OF this assms(5)] show ?thesis by (auto simp: wp_def split: sum.splits)
next
  case False
  with assms(1-4) obtain a i pk zone hmacs ts nid
    where m: "m = hello_msg a i pk zone hmacs ts nid" "now I - ts = - (2 ^ 63)" by (auto simp: hs_legal_def)
  from bad_stamp_ignored [OF assms(1,4) m(2), of N a nid i pk zone hmacs s] hs_hist_snoc(5) [OF assms(5), of "[(I, m)]"]
  show ?thesis by (auto simp: m(1) hello_msg_def wp_def split: sum.splits)
qed

definition boot_ok :: "unit \<Rightarrow> handshaker \<Rightarrow> bool" where
  "boot_ok v s \<longleftrightarrow> (\<forall>d. bootstrap_timer s = Some d \<longrightarrow> (\<exists>ps. delayed_future d = Future_bootstrap ps))"

lemma keeps_boot_ok: "keeps no_view boot_ok (hs_handle_message E N I m)"
proof -
  have modify: "(\<And>s. bootstrap_timer (f s) = bootstrap_timer s) \<Longrightarrow> keeps no_view boot_ok (modify f)" for f
    by (rule keeps_modify) (simp add: boot_ok_def)
  have timer: "keeps no_view boot_ok (modify (\<lambda>s. s\<lparr>bootstrap_timer := Some (delayed_new t n (Future_bootstrap ps))\<rparr>))" for t n ps
    by (rule keeps_modify) (simp add: boot_ok_def delayed_new_def)
  have emit: "keeps no_view boot_ok (emit e)" for e by (rule keeps_emit) (simp add: no_view_def)
  note rules = keeps_do_all keeps_then keeps_skip keeps_abort keeps_with_state keeps_with_result timer modify emit
  have after_call: "keeps no_view boot_ok (and_then_call J aft)" for J aft
    by (cases "(J, aft)" rule: and_then_call.cases) (simp_all add: send_start_subscription_def rules)
  show ?thesis
  proof (cases m)
    case (Packet a h i)
    then show ?thesis
      by (cases "hs_step h") (auto simp: handle_hello_def handle_ohai_def handle_okboss_def handle_goteam_def handle_dead_def
        send_ohai_def send_okboss_def send_goteam_def send_peer_up_def Let_def intro!: rules after_call split: option.splits)
  qed (auto simp: bootstrap_def send_hello_def Let_def intro!: rules)
qed

lemma hs_good_good:
  assumes "hs_good E N past e"
  shows "good E N past net e"
proof (cases "\<exists>i st. e = Call_peer_manager (Request i (PeerStatus st))")
  case True
  then obtain i st where e: "e = Call_peer_manager (Request i (PeerStatus st))" by blast
  with assms have st: "i = node_id N" "status_state st = Up" by (simp_all add: hs_good_def)
  then have "e = peer_up N (status_peer st)" by (cases st) (simp add: e peer_up_def)
  with assms have "proven E N past (status_peer st)" by (simp add: hs_good_peer_up proven_def)
  then show ?thesis by (simp add: e)
next
  case False
  with assms show ?thesis
    by (cases "(N, e)" rule: hs_allowed.cases) (auto simp: hs_good_def)
qed

lemma hs_timer_good:
  assumes "hs_hist E N past s" and "boot_ok v s" and "d \<in> hs_timers s" and "e \<in> set (future_effects E (delayed_future d))"
  shows "good E N past net e"
proof -
  have boot: ?thesis if "delayed_future d = Future_bootstrap ps" for ps
    using assms(4) that by (auto split: option.splits list.splits)
  have dead: ?thesis if "d = start_timer t i a" for t i a
    using assms(4) that by (simp add: start_timer_def delayed_new_def)
  from assms(3) consider "bootstrap_timer s = Some d"
    | k h where "hellos s k = Some h" "hss_timer h = Some d"
    | k h where "ohais s k = Some h" "hss_timer h = Some d"
    | k h where "okboss s k = Some h" "hss_timer h = Some d"
    by (auto simp: hs_timers_def ran_def)
  then show ?thesis
  proof cases
    case 1
    with assms(2) boot show ?thesis by (auto simp: boot_ok_def)
  next
    case (2 k h)
    with assms(1) have "hello_origin past k h" unfolding hs_hist_def by blast
    with 2 dead show ?thesis by (auto simp: hello_origin_def hello_new_def)
  next
    case (3 k h)
    with assms(1) have "ohai_origin E N past k h" unfolding hs_hist_def by blast
    with 3 dead show ?thesis by (auto simp: ohai_origin_def ohai_from_def)
  next
    case (4 k h)
    with assms(1) have "okboss_origin E N past k h" unfolding hs_hist_def by blast
    with 4 show ?thesis by (auto simp: okboss_origin_def okboss_entry_def)
  qed
qed

subsection \<open>What the peer manager passes on\<close>

lemma known_proven_last_write:
  assumes "known_proven E N past m" and "is_handshaken p \<longrightarrow> proven E N past p"
  shows "known_proven E N past (m(peer_id p \<mapsto> last_write (m (peer_id p)) p))"
  using assms by (auto simp: known_proven_def last_write_def split: option.splits)

lemma known_proven_delete: "known_proven E N past m \<Longrightarrow> known_proven E N past (m(i := None))"
  by (auto simp: known_proven_def)

lemma known_proven_insert_peers:
  assumes "known_proven E N past m" and "\<forall>p \<in> set ps. \<not> is_handshaken p"
  shows "known_proven E N past (fst (try_insert_peers ps m))"
  using assms by (fastforce simp: known_proven_def try_insert_peers_known split: option.splits dest: find_SomeD)

text \<open>Requests other than a peer status and a peer list leave the known peers alone and send no keys.\<close>

fun no_keys :: "effect \<Rightarrow> bool" where
  "no_keys (Call_packet_handler (KeysUpdated ks)) = False"
| "no_keys e = pm_allowed e"

lemma no_keys_good: "no_keys e \<Longrightarrow> good E N past net e"
  by (cases e rule: no_keys.cases; cases e rule: pm_allowed.cases) auto

fun about_known :: "peer_manager_request \<Rightarrow> bool" where
  "about_known (Request i (PeerStatus st)) = True"
| "about_known (Request i (Peers ps)) = True"
| "about_known r = False"

lemma wp_known_frame:
  assumes "\<not> about_known m" and "chooser_law C"
  shows "wp False no_keys (pm_handle_message C N I m) (\<lambda>t. known t = known s) s"
proof -
  obtain X where X: "choose_peers C N I s = Inr X" using choose_peers_no_panic [OF assms(2)] by blast
  let ?K = "\<lambda>t. known t = known s"
  have loops: "wp False no_keys (trigger_reassignment I A R) ?K s" for A R
    unfolding trigger_reassignment_def wp_simps
    by (intro wp_foreachI [where I = ?K])
      (auto simp: wp_simps subscribe_to_def unsubscribe_from_def send_start_subscription_def stop_heartbeat_watchdog_def
        split: option.splits intro!: wp_foreachI [where I = ?K])
  note defs = update_subscribers_def start_heartbeats_def reset_heartbeat_watchdog_def stop_heartbeat_watchdog_def
  show ?thesis
  proof (cases m)
    case (Request j q)
    with assms(1) show ?thesis
      by (cases q) (auto simp: start_subscription_def end_subscription_def subscription_started_def
        send_peerlist_def defs wp_simps split: option.splits)
  qed (auto simp: wp_simps defs reassign_def X loops send_heartbeat_def shutdown_def intro!: wp_foreachI [where I = ?K])
qed

lemma pm_handle_good:
  assumes laws: "chooser_law C" "order_law I" "draw_law I" and inv: "pm_inv N s"
    and known: "known_proven E N past (known s)" and req: "good_request E N past m"
  shows "wp False (good E N past net) (pm_handle_message C N I m) (\<lambda>t. known_proven E N past (known t)) s"
proof (cases "about_known m")
  case False
  show ?thesis
    by (rule wp_mono [OF wp_known_frame [OF False laws(1)]]) (simp_all add: no_keys_good known)
next
  case True
  then consider i st where "m = Request i (PeerStatus st)" | i ps where "m = Request i (Peers ps)"
    by (cases m rule: about_known.cases) auto
  then show ?thesis
  proof cases
    case (1 i st)
    have ok: "known_ok (known s)" using inv by simp
    show ?thesis
    proof (cases "status_state st")
      case Up
      let ?m = "(known s)(peer_id (status_peer st) \<mapsto> last_write (known s (peer_id (status_peer st))) (status_peer st))"
      have "known_proven E N past ?m" using req 1 Up by (intro known_proven_last_write [OF known]) simp
      moreover from keys_of_proven [OF this known_ok_last_write [OF ok]] have "keys_proven E N past (keys_of ?m)" .
      ultimately show ?thesis
        by (simp add: 1 Up wp_def then_do_def add_peer_eq [OF laws(2) ok] act_simps)
    next
      case Down
      have "known_proven E N past ((known s)(peer_id (status_peer st) := None))"
        by (rule known_proven_delete [OF known])
      moreover from keys_of_proven [OF this known_ok_del [OF ok]]
      have "keys_proven E N past (keys_of ((known s)(peer_id (status_peer st) := None)))" .
      ultimately show ?thesis
        by (simp add: 1 Down wp_def then_do_def remove_peer_eq [OF laws(2) ok] act_simps)
    qed
  next
    case (2 i ps)
    with req have "known_proven E N past (fst (try_insert_peers ps (known s)))"
      by (intro known_proven_insert_peers [OF known]) simp
    then show ?thesis
      by (cases "try_insert_peers ps (known s)") (simp add: 2 wp_def update_peers_eq)
  qed
qed

lemma pm_timer_good:
  assumes "pm_inv N s" and "f \<in> pm_timers s" and "e \<in> set (future_effects E f)"
  shows "good E N past net e"
proof -
  from assms(1,2) consider "f = Future_cast_peer_manager Reassign" | "f = Future_cast_peer_manager SendHeartbeat"
    | p where "f = Future_cast_peer_manager (Request (node_id N) (PeerStatus \<lparr>status_peer = p, status_state = Down\<rparr>))"
    by (fastforce simp: pm_timers_def pm_inv_def ran_def watchdog_for_def delayed_new_def interval_new_def)
  then show ?thesis using assms(3) by cases simp_all
qed

subsection \<open>The invariant of the node\<close>

text \<open>Everything that is on its way: what the actors and the tasks have still to carry out, and what is in the mailboxes.\<close>

definition pending :: "'c system \<Rightarrow> effect set" where
  "pending \<sigma> = (\<Union>a. set (outbox \<sigma> a)) \<union> (\<Union>es \<in> set (spawned \<sigma>). set es) \<union>
     Cast_packet_handler ` set (ph_mail \<sigma>) \<union> Cast_handshaker ` set (hs_mail \<sigma>) \<union> Cast_peer_manager ` set (pm_mail \<sigma>)"

definition node_inv :: "externals \<Rightarrow> nodeinfo \<Rightarrow> 'c system \<Rightarrow> bool" where
  "node_inv E N \<sigma> \<longleftrightarrow>
     hs_hist E N (hs_past \<sigma>) (sys_hs \<sigma>) \<and> boot_ok () (sys_hs \<sigma>) \<and>
     pm_inv N (sys_pm \<sigma>) \<and> known_proven E N (hs_past \<sigma>) (known (sys_pm \<sigma>)) \<and>
     keys_proven E N (hs_past \<sigma>) (ph_keys (sys_ph \<sigma>)) \<and>
     interval_future (rate_control (sys_ph \<sigma>)) = Future_cast_packet_handler RateControl \<and>
     (\<forall>e \<in> pending \<sigma>. good E N (hs_past \<sigma>) (received \<sigma>) e) \<and>
     (\<forall>(I, m) \<in> set (hs_past \<sigma>). good_hs (received \<sigma>) m)"

lemma post_frame [simp]:
  "sys_ph (post e \<sigma>) = sys_ph \<sigma>" "sys_hs (post e \<sigma>) = sys_hs \<sigma>" "sys_pm (post e \<sigma>) = sys_pm \<sigma>"
  "hs_past (post e \<sigma>) = hs_past \<sigma>" "received (post e \<sigma>) = received \<sigma>" "outbox (post e \<sigma>) = outbox \<sigma>"
  by (cases e; simp)+

lemma pending_post:
  "x \<in> pending (post e \<sigma>) \<Longrightarrow> good E N past net e \<Longrightarrow> x \<in> pending \<sigma> \<or> good E N past net x"
  by (cases e) (auto simp: pending_def)

lemma node_inv_post:
  assumes "node_inv E N \<sigma>" and "good E N (hs_past \<sigma>) (received \<sigma>) e"
  shows "node_inv E N (post e \<sigma>)"
  using assms pending_post [OF _ assms(2)] unfolding node_inv_def post_frame by blast

lemma node_inv_less:
  assumes "node_inv E N \<sigma>" and "pending \<tau> \<subseteq> pending \<sigma>"
    and "sys_ph \<tau> = sys_ph \<sigma>" "sys_hs \<tau> = sys_hs \<sigma>" "sys_pm \<tau> = sys_pm \<sigma>" "hs_past \<tau> = hs_past \<sigma>" "received \<tau> = received \<sigma>"
  shows "node_inv E N \<tau>"
  using assms by (auto simp: node_inv_def)

lemma node_invD:
  assumes "node_inv E N \<sigma>"
  shows "hs_hist E N (hs_past \<sigma>) (sys_hs \<sigma>)" "boot_ok () (sys_hs \<sigma>)" "pm_inv N (sys_pm \<sigma>)"
    "known_proven E N (hs_past \<sigma>) (known (sys_pm \<sigma>))" "keys_proven E N (hs_past \<sigma>) (ph_keys (sys_ph \<sigma>))"
    "interval_future (rate_control (sys_ph \<sigma>)) = Future_cast_packet_handler RateControl"
    "e \<in> pending \<sigma> \<Longrightarrow> good E N (hs_past \<sigma>) (received \<sigma>) e"
    "(I, m) \<in> set (hs_past \<sigma>) \<Longrightarrow> good_hs (received \<sigma>) m"
  using assms unfolding node_inv_def by blast+

lemma pending_mail:
  "m \<in> set (ph_mail \<sigma>) \<Longrightarrow> Cast_packet_handler m \<in> pending \<sigma>"
  "x \<in> set (hs_mail \<sigma>) \<Longrightarrow> Cast_handshaker x \<in> pending \<sigma>"
  "r \<in> set (pm_mail \<sigma>) \<Longrightarrow> Cast_peer_manager r \<in> pending \<sigma>"
  by (simp_all add: pending_def)

text \<open>What an activation adds to what is pending.\<close>

lemma pending_activation:
  assumes "set (ph_mail \<tau>) \<subseteq> set (ph_mail \<sigma>)" "set (hs_mail \<tau>) \<subseteq> set (hs_mail \<sigma>)" "set (pm_mail \<tau>) \<subseteq> set (pm_mail \<sigma>)"
    and "outbox \<tau> = (outbox \<sigma>)(a := es)" and "spawned \<tau> = spawned \<sigma>" and "x \<in> pending \<tau>"
  shows "x \<in> pending \<sigma> \<or> x \<in> set es"
  using assms by (auto simp: pending_def split: if_splits)

lemma ph_out_good:
  assumes "ph_out m e" and "good_ph E N past net m"
  shows "good E N past net e"
proof (cases e)
  case (Cast_handshaker x)
  with assms(1) obtain a p h where p: "m = Recv a p" "pkt_p p = H h" "x = Packet a h (pkt_id p)" by auto
  with assms(2) have "(a, \<lparr>pkt_s = pkt_s p, pkt_id = pkt_id p, pkt_p = H h\<rparr>) \<in> set net" by (cases p) simp
  then show ?thesis by (auto simp: Cast_handshaker p arrived_def)
next
  case (Cast_peer_manager x)
  with assms(1) obtain i r where r: "x = Request i r" "wire_request r = r" by auto
  have "\<not> is_handshaken p" if "wire_peer p = p" for p
    using that by (metis wire_peer_not_handshaken)
  moreover have "wire_peer p = p" if "map wire_peer ps = ps" "p \<in> set ps" for p ps
    using that by (metis in_set_conv_nth length_map nth_map)
  ultimately have "good_request E N past (Request i r)"
    using r(2) by (cases r) (auto, metis peer_status.ext_inject peer_status.surjective peer_status.update_convs(1))
  then show ?thesis by (simp add: Cast_peer_manager r)
qed (use assms(1) in auto)

lemma node_inv_ph:
  assumes inv: "node_inv E N \<sigma>" and "decode_law E" and mail: "ph_mail \<sigma> = m # ms"
    and h: "ph_handle_message E L N I m (sys_ph \<sigma>) = (es, r)"
  shows "node_inv E N (\<sigma>\<lparr>ph_mail := ms, outbox := (outbox \<sigma>)(Packet_handler_actor := es),
      sys_ph := aftermath (sys_ph \<sigma>) r, stopped := S\<rparr>)" (is "node_inv E N ?\<tau>")
proof -
  have m: "good_ph E N (hs_past \<sigma>) (received \<sigma>) m"
    using node_invD(7) [OF inv pending_mail(1), of m] mail by simp
  have "ph_out m e" if "e \<in> set es" for e
    using within_out_handle [OF assms(2), of m L N I] h that unfolding acts_within_def by (metis fst_conv)
  then have es: "good E N (hs_past \<sigma>) (received \<sigma>) e" if "e \<in> set es" for e
    using that m by (blast intro: ph_out_good)
  have "x \<in> pending \<sigma> \<or> x \<in> set es" if "x \<in> pending ?\<tau>" for x
    by (rule pending_activation [OF _ _ _ _ _ that]) (auto simp: mail)
  then have "\<forall>x \<in> pending ?\<tau>. good E N (hs_past \<sigma>) (received \<sigma>) x"
    using es node_invD(7) [OF inv] by blast
  moreover have "keys_proven E N (hs_past \<sigma>) (ph_keys (aftermath (sys_ph \<sigma>) r))"
    using m node_invD(5) [OF inv] by (cases m) (simp_all add: ph_handle_keys(2) [OF h])
  ultimately show ?thesis
    using inv by (simp add: node_inv_def ph_handle_keys(1) [OF h])
qed

lemma node_inv_hs:
  assumes inv: "node_inv E N \<sigma>" and laws: "chrono_law E" "hash_law E" "draw_law I" "clock_ok (now I)"
    and mail: "hs_mail \<sigma> = m # ms" and h: "hs_handle_message E N I m (sys_hs \<sigma>) = (es, r)"
  shows "node_inv E N (\<sigma>\<lparr>hs_mail := ms, outbox := (outbox \<sigma>)(Handshaker_actor := es),
      sys_hs := aftermath (sys_hs \<sigma>) r, stopped := S, hs_past := hs_past \<sigma> @ [(I, m)]\<rparr>)" (is "node_inv E N ?\<tau>")
proof -
  let ?past = "hs_past \<sigma> @ [(I, m)]"
  note snoc = good_snoc [where ys = "[]", simplified]
  have m: "good_hs (received \<sigma>) m"
    using node_invD(7) [OF inv pending_mail(2), of m] mail by simp
  note wp = hs_hist_handle_any [OF laws node_invD(1) [OF inv], of m]
  have es: "good E N ?past (received \<sigma>) e" if "e \<in> set es" for e
    by (rule hs_good_good, rule wp_effects [OF wp]) (simp add: h that)
  have "x \<in> pending \<sigma> \<or> x \<in> set es" if "x \<in> pending ?\<tau>" for x
    by (rule pending_activation [OF _ _ _ _ _ that]) (auto simp: mail)
  then have pend: "\<forall>x \<in> pending ?\<tau>. good E N ?past (received \<sigma>) x"
    using es node_invD(7) [OF inv] snoc by blast
  have "hs_hist E N ?past (aftermath (sys_hs \<sigma>) r) \<and> boot_ok () (aftermath (sys_hs \<sigma>) r)"
  proof (cases r)
    case (Inl p)
    then show ?thesis
      using hs_hist_snoc(5) [OF node_invD(1) [OF inv]] node_invD(2) [OF inv] by (simp add: aftermath_def)
  next
    case (Inr s')
    from keepsD [OF keeps_boot_ok node_invD(2) [OF inv] h [unfolded Inr]] wp_InrD(1) [OF wp h [unfolded Inr]]
    show ?thesis by (simp add: Inr aftermath_def)
  qed
  with pend show ?thesis
    using inv m known_proven_snoc keys_proven_snoc by (auto simp: node_inv_def)
qed

lemma node_inv_pm:
  assumes inv: "node_inv E N \<sigma>" and laws: "chooser_law C" "order_law I" "draw_law I"
    and mail: "pm_mail \<sigma> = m # ms" and h: "pm_handle_message C N I m (sys_pm \<sigma>) = (es, r)"
  shows "node_inv E N (\<sigma>\<lparr>pm_mail := ms, outbox := (outbox \<sigma>)(Peer_manager_actor := es),
      sys_pm := aftermath (sys_pm \<sigma>) r, stopped := S\<rparr>)" (is "node_inv E N ?\<tau>")
proof -
  have m: "good_request E N (hs_past \<sigma>) m"
    using node_invD(7) [OF inv pending_mail(3), of m] mail by simp
  note wp = pm_handle_good [OF laws node_invD(3,4) [OF inv] m, where net = "received \<sigma>"]
  note wp_inv = pm_inv_handle_message [OF laws node_invD(3) [OF inv], of m]
  from wp h obtain s' where r: "r = Inr s'" by (auto simp: wp_def split: sum.splits)
  have es: "good E N (hs_past \<sigma>) (received \<sigma>) e" if "e \<in> set es" for e
    by (rule wp_effects [OF wp]) (simp add: h that)
  have "x \<in> pending \<sigma> \<or> x \<in> set es" if "x \<in> pending ?\<tau>" for x
    by (rule pending_activation [OF _ _ _ _ _ that]) (auto simp: mail)
  then have "\<forall>x \<in> pending ?\<tau>. good E N (hs_past \<sigma>) (received \<sigma>) x"
    using es node_invD(7) [OF inv] by blast
  with wp_InrD(1) [OF wp h [unfolded r]] wp_InrD(1) [OF wp_inv h [unfolded r]] show ?thesis
    using inv by (simp add: node_inv_def r aftermath_def)
qed

lemma timer_good:
  assumes "node_inv E N \<sigma>" and "f \<in> timers \<sigma>" and "e \<in> set (future_effects E f)"
  shows "good E N (hs_past \<sigma>) (received \<sigma>) e"
proof -
  from assms(2) consider "f = interval_future (rate_control (sys_ph \<sigma>))"
    | d where "d \<in> hs_timers (sys_hs \<sigma>)" "f = delayed_future d" | "f \<in> pm_timers (sys_pm \<sigma>)"
    by (auto simp: timers_def)
  then show ?thesis
  proof cases
    case 1
    with assms(3) node_invD(6) [OF assms(1)] show ?thesis by simp
  next
    case (2 d)
    with hs_timer_good [OF node_invD(1,2) [OF assms(1)], of d] assms(3) show ?thesis by simp
  next
    case 3
    with pm_timer_good [OF node_invD(3) [OF assms(1)] _ assms(3)] show ?thesis by simp
  qed
qed

lemma node_inv_activation:
  assumes inv: "node_inv E N \<sigma>" and laws: "chrono_law E" "hash_law E" "decode_law E" "chooser_law C"
    and "activation E L C N a \<sigma> \<tau>"
  shows "node_inv E N \<tau>"
  using assms(6)
proof cases
  case (ph_handles m ms I es r)
  then show ?thesis using node_inv_ph [OF inv laws(3)] by blast
next
  case (hs_handles m ms I es r)
  then show ?thesis using node_inv_hs [OF inv laws(1,2)] by blast
next
  case (pm_handles m ms I es r)
  then show ?thesis using node_inv_pm [OF inv laws(4)] by blast
qed

lemma pending_outbox: "set es \<subseteq> set (outbox \<sigma> a) \<Longrightarrow> pending (\<sigma>\<lparr>outbox := (outbox \<sigma>)(a := es)\<rparr>) \<subseteq> pending \<sigma>"
  unfolding pending_def by (auto split: if_splits) (metis subsetD)+

lemma node_inv_step:
  assumes inv: "node_inv E N \<sigma>" and laws: "chrono_law E" "hash_law E" "decode_law E" "chooser_law C"
    and "node_step E L C N \<sigma> \<tau>"
  shows "node_inv E N \<tau>"
  using assms(6)
proof cases
  case (activates a)
  then show ?thesis by (rule node_inv_activation [OF inv laws])
next
  case (effect_lost a e es)
  have "pending \<tau> \<subseteq> pending \<sigma>" unfolding effect_lost(1) by (rule pending_outbox) (auto simp: effect_lost(3))
  then show ?thesis by (rule node_inv_less [OF inv]) (simp_all add: effect_lost(1))
next
  case (gives_up a)
  have "pending \<tau> \<subseteq> pending \<sigma>" using pending_outbox [of "[]" \<sigma> a] unfolding gives_up(1) by (simp add: pending_def)
  then show ?thesis by (rule node_inv_less [OF inv]) (simp_all add: gives_up(1))
next
  case (task_lost ts e es us es')
  have "pending \<tau> \<subseteq> pending \<sigma>" using task_lost(3,4) by (auto simp: task_lost(1) pending_def)
  then show ?thesis by (rule node_inv_less [OF inv]) (simp_all add: task_lost(1))
next
  case (carries_out a e es)
  let ?\<rho> = "\<sigma>\<lparr>outbox := (outbox \<sigma>)(a := es)\<rparr>"
  have e: "e \<in> pending \<sigma>" and sub: "pending ?\<rho> \<subseteq> pending \<sigma>"
    using carries_out(2) by (auto simp: pending_def split: if_splits) (metis list.set_intros)+
  have "node_inv E N ?\<rho>" by (rule node_inv_less [OF inv sub]) simp_all
  with node_invD(7) [OF inv e] show ?thesis unfolding carries_out(1) by (intro node_inv_post) simp_all
next
  case (task_runs ts e es us)
  let ?\<rho> = "\<sigma>\<lparr>spawned := ts @ es # us\<rparr>"
  have e: "e \<in> pending \<sigma>" and sub: "pending ?\<rho> \<subseteq> pending \<sigma>"
    using task_runs(2) by (auto simp: pending_def)
  have "node_inv E N ?\<rho>" by (rule node_inv_less [OF inv sub]) simp_all
  with node_invD(7) [OF inv e] show ?thesis unfolding task_runs(1) by (intro node_inv_post) simp_all
next
  case (timer_fires f)
  have "pending \<tau> \<subseteq> pending \<sigma> \<union> set (future_effects E f)"
    by (auto simp: timer_fires(1) pending_def)
  then have "\<forall>e \<in> pending \<tau>. good E N (hs_past \<sigma>) (received \<sigma>) e"
    using timer_good [OF inv timer_fires(2)] node_invD(7) [OF inv] by blast
  then show ?thesis using inv by (simp add: timer_fires(1) node_inv_def)
next
  case (packet_arrives a p)
  have "pending \<tau> \<subseteq> pending \<sigma> \<union> {Cast_packet_handler (Recv a p)}"
    by (auto simp: packet_arrives pending_def)
  moreover have "good E N (hs_past \<sigma>) (received \<sigma> @ [(a, p)]) e" if "e \<in> pending \<sigma>" for e
    using good_snoc [OF node_invD(7) [OF inv that], of "[]"] by simp
  ultimately have "\<forall>e \<in> pending \<tau>. good E N (hs_past \<sigma>) (received \<sigma> @ [(a, p)]) e" by auto
  then show ?thesis
    using inv good_hs_snoc by (fastforce simp: packet_arrives node_inv_def)
next
  case (application_calls e)
  have "good E N (hs_past \<sigma>) (received \<sigma>) e"
    using application_calls(2) by (cases e rule: application.cases) auto
  then show ?thesis unfolding application_calls(1) by (rule node_inv_post [OF inv])
qed

lemma node_inv_start: "node_inv E N (node_start L N notify h sock n)"
proof -
  have "e \<in> pending (node_start L N notify h sock n) \<Longrightarrow> good E N [] [] e" for e
    by (auto simp: pending_def node_start_def start_effects_def List.map_filter_def)
  moreover have "hs_hist E N [] handshaker_new" "boot_ok () handshaker_new" "known_proven E N [] (known peer_manager_new)"
    "keys_proven E N [] (ph_keys (packet_handler_new L))"
    "interval_future (rate_control (packet_handler_new L)) = Future_cast_packet_handler RateControl"
    by (simp_all add: hs_hist_def keys_ok_def handshaker_new_def boot_ok_def known_proven_def keys_proven_def
      peer_manager_new_def packet_handler_new_def interval_new_def)
  ultimately show ?thesis
    by (simp add: node_inv_def pm_inv_init) (simp add: node_start_def pm_inv_init)
qed

definition node_laws :: "externals \<Rightarrow> 'r chooser \<Rightarrow> bool" where
  "node_laws E C \<longleftrightarrow> chrono_law E \<and> hash_law E \<and> decode_law E \<and> chooser_law C"

text \<open>Calls go down: the handshaker calls both other actors, the peer manager the packet handler, which calls none.\<close>

fun callee :: "effect \<Rightarrow> actor option" where
  "callee (Call_packet_handler m) = Some Packet_handler_actor"
| "callee (Call_handshaker m) = Some Handshaker_actor"
| "callee (Call_peer_manager m) = Some Peer_manager_actor"
| "callee e = None"

fun rank :: "actor \<Rightarrow> nat" where
  "rank Packet_handler_actor = 0"
| "rank Peer_manager_actor = 1"
| "rank Handshaker_actor = 2"

definition calls_down :: "actor \<Rightarrow> effect \<Rightarrow> bool" where
  "calls_down a e \<longleftrightarrow> (\<forall>b. callee e = Some b \<longrightarrow> rank b < rank a)"

definition all_calls_down :: "'c system \<Rightarrow> bool" where
  "all_calls_down \<sigma> \<longleftrightarrow> (\<forall>a. \<forall>e \<in> set (outbox \<sigma> a). calls_down a e)"

lemma handlers_call_down:
  "ph_out m e \<Longrightarrow> calls_down Packet_handler_actor e"
  "hs_allowed N e \<Longrightarrow> calls_down Handshaker_actor e"
  "pm_allowed e \<Longrightarrow> calls_down Peer_manager_actor e"
  by (cases e; auto simp: calls_down_def)+

lemma all_calls_down_step:
  assumes inv: "node_inv E N \<sigma>" and laws: "node_laws E C" and "all_calls_down \<sigma>" and "node_step E L C N \<sigma> \<tau>"
  shows "all_calls_down \<tau>"
proof -
  from laws have E: "chrono_law E" "hash_law E" "decode_law E" and C: "chooser_law C" by (simp_all add: node_laws_def)
  have upd: "all_calls_down \<tau>" if "outbox \<tau> = (outbox \<sigma>)(a := es)" "\<And>e. e \<in> set es \<Longrightarrow> calls_down a e" for a es
    using that assms(3) by (auto simp: all_calls_down_def)
  have act: "all_calls_down \<tau>" if "activation E L C N a \<sigma> \<tau>" for a
    using that
  proof cases
    case (ph_handles m ms I es r)
    have "ph_out m e" if "e \<in> set es" for e
      using within_out_handle [OF E(3), of m L N I] ph_handles(6) that unfolding acts_within_def by (metis fst_conv)
    then show ?thesis using ph_handles by (intro upd [of Packet_handler_actor es]) (auto intro: handlers_call_down)
  next
    case (hs_handles m ms I es r)
    have "hs_allowed N e" if "e \<in> set es" for e
      using wp_effects [OF hs_hist_handle_any [OF E(1,2) hs_handles(6,7) node_invD(1) [OF inv], of m]] hs_handles(8) that
      by (simp add: hs_good_def)
    then show ?thesis using hs_handles by (intro upd [of Handshaker_actor es]) (auto intro: handlers_call_down)
  next
    case (pm_handles m ms I es r)
    have "pm_allowed e" if "e \<in> set es" for e
      using wp_effects [OF pm_inv_handle_message [OF C pm_handles(6,7) node_invD(3) [OF inv], of m]] pm_handles(8) that
      by simp
    then show ?thesis using pm_handles by (intro upd [of Peer_manager_actor es]) (auto intro: handlers_call_down)
  qed
  from assms(4) show ?thesis
  proof cases
    case (activates a)
    then show ?thesis by (rule act)
  next
    case (effect_lost a e es)
    then show ?thesis using assms(3) by (intro upd [of a es]) (auto simp: all_calls_down_def)
  next
    case (gives_up a)
    then show ?thesis by (intro upd [of a "[]"]) simp_all
  next
    case (carries_out a e es)
    then show ?thesis using assms(3) by (intro upd [of a es]) (auto simp: all_calls_down_def)
  qed (use assms(3) in \<open>simp_all add: all_calls_down_def\<close>)
qed

interpretation node: transition_system "\<lambda>\<sigma>. \<exists>notify h sock n. \<sigma> = node_start L N notify h sock n" "node_step E L C N"
    "\<lambda>\<sigma>. node_laws E C \<longrightarrow> node_inv E N \<sigma> \<and> all_calls_down \<sigma>"
  for E L C N
proof unfold_locales
  show "node_laws E C \<longrightarrow> node_inv E N \<sigma> \<and> all_calls_down \<sigma>" if "\<exists>notify h sock n. \<sigma> = node_start L N notify h sock n" for \<sigma>
    using that node_inv_start by (auto simp: all_calls_down_def node_start_def)
  show "node_laws E C \<longrightarrow> node_inv E N \<tau> \<and> all_calls_down \<tau>"
    if "node_laws E C \<longrightarrow> node_inv E N \<sigma> \<and> all_calls_down \<sigma>" "node_step E L C N \<sigma> \<tau>" for \<sigma> \<tau>
    using that node_inv_step all_calls_down_step unfolding node_laws_def by blast
qed

lemma reachable:
  assumes "node_laws E C" and "(node_step E L C N)\<^sup>*\<^sup>* (node_start L N notify h sock n) \<sigma>"
  shows "node_inv E N \<sigma>" "all_calls_down \<sigma>"
  using node.reachable_inv [OF assms(2)] assms(1) by blast+

text \<open>Where the data comes from that the handler is given.\<close>

lemma within_quiet_messages:
  "acts_within (\<lambda>_. True) (\<lambda>e. e \<noteq> Handle_broadcast k d) (encrypt_and_send_messages E L N I base ts x)"
  by (auto simp: encrypt_and_send_messages_def put_seen_def multisend_def
      intro!: within_basic within_then within_do_all within_with_state within_with_result within_foreach split: option.splits)

lemma within_quiet_body:
  "b \<noteq> Broadcast d \<Longrightarrow> acts_within (\<lambda>_. True) (\<lambda>e. e \<noteq> Handle_broadcast k d) (recv_body E L N I a i j b)"
  by (cases b) (auto simp: recv_broadcast_def recv_peer_request_def recv_nak_def put_seen_def
      send_broadcast_to_subscribers_def intro!: within_basic within_then within_do_all within_with_state within_with_result
      within_quiet_messages split: option.splits)

lemma within_quiet_handle:
  "(\<And>a p. m \<noteq> Recv a p) \<Longrightarrow> acts_within (\<lambda>_. True) (\<lambda>e. e \<noteq> Handle_broadcast k d) (ph_handle_message E L N I m)"
  by (cases m) (auto simp: start_recv_loop_def encrypt_and_send_message_def send_broadcast_def
      send_broadcast_to_subscribers_def send_peer_status_def update_rate_control_def rate_control_step_def send_def Let_def
      intro!: within_basic within_then within_do_all within_with_state within_with_result within_foreach
      within_quiet_messages split: option.splits)

lemma handled_broadcast_source:
  assumes "Handle_broadcast k d \<in> set (fst (ph_handle_message E L N I m s))"
  shows "\<exists>a p vecbox nonce x. m = Recv a p \<and> pkt_p p = B vecbox nonce \<and>
    decrypt E (ph_keys s) (pkt_id p) vecbox nonce = Some x \<and> msg_body x = Broadcast d"
proof (rule ccontr)
  assume none: "\<not> ?thesis"
  have quiet: False if "acts_within (\<lambda>_. True) (\<lambda>e. e \<noteq> Handle_broadcast k d) act" "act s = ph_handle_message E L N I m s" for act
    using that assms unfolding acts_within_def by metis
  from quiet [OF within_quiet_handle [of m k d E L N I] refl] obtain a p where m: "m = Recv a p" by blast
  let ?act = "do_all [
     modify (\<lambda>s. s\<lparr>rx_sequences := (rx_sequences s)(a \<mapsto> pkt_s p)\<rparr>),
     case pkt_p p of
       H h \<Rightarrow> emit (Cast_handshaker (Packet a h (pkt_id p)))
     | B vecbox nonce \<Rightarrow>
         (case decrypt E (ph_keys s) (pkt_id p) vecbox nonce of
            Some x \<Rightarrow> do_all [
              if lru_contains L (seen s) (msg_id x) then skip
              else recv_body E L N I a (pkt_id p) (msg_id x) (msg_body x),
              case rx_sequences s a of
                Some prev \<Rightarrow> send_nak E L N I (pkt_id p) prev (pkt_s p)
              | None \<Rightarrow> skip]
          | None \<Rightarrow> skip)]"
  have "msg_body x \<noteq> Broadcast d" if "pkt_p p = B vecbox nonce" "decrypt E (ph_keys s) (pkt_id p) vecbox nonce = Some x"
    for vecbox nonce x using none m that by blast
  then have "acts_within (\<lambda>_. True) (\<lambda>e. e \<noteq> Handle_broadcast k d) ?act"
    by (auto simp: send_nak_def encrypt_and_send_message_def
        intro!: within_basic within_then within_do_all within_with_state within_with_result
        within_quiet_messages within_quiet_body split: option.splits payload.splits)
  then show False by (rule quiet) (simp add: m recv_def with_state_def)
qed

end
