(* ===== verification/System_Props.thy ===== *)
theory System_Props
  imports System
begin

text \<open>
  Properties of the whole node: the keys in use, the data that is delivered, and the calls between actors. The witnesses are
  a run of a node, step by step: it is started, a peer completes a handshake with it, and then sends a broadcast.
\<close>

subsection \<open>A run of a node\<close>

text \<open>A scheduler that makes the steps it is told to, and only those that the relation allows.\<close>

datatype command =
    Ph_handles inputs
  | Hs_handles inputs
  | Pm_handles inputs
  | Carries_out actor
  | Task_runs
  | Packet_arrives sockaddr packet

fun perform :: "externals \<Rightarrow> 'c lru \<Rightarrow> 'r chooser \<Rightarrow> nodeinfo \<Rightarrow> command \<Rightarrow> 'c system \<Rightarrow> 'c system option" where
  "perform E L C N (Ph_handles I) \<sigma> =
     (if Packet_handler_actor \<in> stopped \<sigma> \<or> outbox \<sigma> Packet_handler_actor \<noteq> [] \<or> ph_mail \<sigma> = [] then None
      else case ph_handle_message E L N I (hd (ph_mail \<sigma>)) (sys_ph \<sigma>) of (es, r) \<Rightarrow>
        Some (\<sigma>\<lparr>ph_mail := tl (ph_mail \<sigma>), outbox := (outbox \<sigma>)(Packet_handler_actor := es),
          sys_ph := aftermath (sys_ph \<sigma>) r, stopped := stops Packet_handler_actor r (stopped \<sigma>)\<rparr>))"
| "perform E L C N (Hs_handles I) \<sigma> =
     (if Handshaker_actor \<in> stopped \<sigma> \<or> outbox \<sigma> Handshaker_actor \<noteq> [] \<or> hs_mail \<sigma> = [] then None
      else case hs_handle_message E N I (hd (hs_mail \<sigma>)) (sys_hs \<sigma>) of (es, r) \<Rightarrow>
        Some (\<sigma>\<lparr>hs_mail := tl (hs_mail \<sigma>), outbox := (outbox \<sigma>)(Handshaker_actor := es),
          sys_hs := aftermath (sys_hs \<sigma>) r, stopped := stops Handshaker_actor r (stopped \<sigma>),
          hs_past := hs_past \<sigma> @ [(I, hd (hs_mail \<sigma>))]\<rparr>))"
| "perform E L C N (Pm_handles I) \<sigma> =
     (if Peer_manager_actor \<in> stopped \<sigma> \<or> outbox \<sigma> Peer_manager_actor \<noteq> [] \<or> pm_mail \<sigma> = [] then None
      else case pm_handle_message C N I (hd (pm_mail \<sigma>)) (sys_pm \<sigma>) of (es, r) \<Rightarrow>
        Some (\<sigma>\<lparr>pm_mail := tl (pm_mail \<sigma>), outbox := (outbox \<sigma>)(Peer_manager_actor := es),
          sys_pm := aftermath (sys_pm \<sigma>) r, stopped := stops Peer_manager_actor r (stopped \<sigma>)\<rparr>))"
| "perform E L C N (Carries_out a) \<sigma> =
     (case outbox \<sigma> a of [] \<Rightarrow> None | e # es \<Rightarrow> Some (post e (\<sigma>\<lparr>outbox := (outbox \<sigma>)(a := es)\<rparr>)))"
| "perform E L C N Task_runs \<sigma> =
     (case spawned \<sigma> of (e # es) # us \<Rightarrow> Some (post e (\<sigma>\<lparr>spawned := es # us\<rparr>)) | _ \<Rightarrow> None)"
| "perform E L C N (Packet_arrives a p) \<sigma> =
     Some (\<sigma>\<lparr>ph_mail := ph_mail \<sigma> @ [Recv a p], received := received \<sigma> @ [(a, p)]\<rparr>)"

fun inputs_of :: "command \<Rightarrow> inputs option" where
  "inputs_of (Ph_handles I) = Some I"
| "inputs_of (Hs_handles I) = Some I"
| "inputs_of (Pm_handles I) = Some I"
| "inputs_of _ = None"

fun perform_all :: "externals \<Rightarrow> 'c lru \<Rightarrow> 'r chooser \<Rightarrow> nodeinfo \<Rightarrow> command list \<Rightarrow> 'c system \<Rightarrow> 'c system option" where
  "perform_all E L C N [] \<sigma> = Some \<sigma>"
| "perform_all E L C N (c # cs) \<sigma> =
     (case perform E L C N c \<sigma> of None \<Rightarrow> None | Some \<tau> \<Rightarrow> perform_all E L C N cs \<tau>)"

lemma perform_sound:
  assumes "perform E L C N c \<sigma> = Some \<tau>"
    and "\<And>I. inputs_of c = Some I \<Longrightarrow> draw_law I \<and> clock_ok (now I) \<and> order_law I"
  shows "node_step E L C N \<sigma> \<tau>"
proof (cases c)
  case (Ph_handles I)
  with assms show ?thesis
    by (cases "ph_mail \<sigma>") (auto split: if_splits prod.splits intro: node_step.activates activation.ph_handles)
next
  case (Hs_handles I)
  with assms show ?thesis
    by (cases "hs_mail \<sigma>") (auto split: if_splits prod.splits intro: node_step.activates activation.hs_handles)
next
  case (Pm_handles I)
  with assms show ?thesis
    by (cases "pm_mail \<sigma>") (auto split: if_splits prod.splits intro: node_step.activates activation.pm_handles)
next
  case Task_runs
  with assms(1) obtain e es us where "spawned \<sigma> = [] @ (e # es) # us" "\<tau> = post e (\<sigma>\<lparr>spawned := [] @ es # us\<rparr>)"
    by (auto split: list.splits)
  then show ?thesis by (metis node_step.task_runs)
qed (use assms(1) in \<open>auto split: list.splits intro: node_step.carries_out node_step.packet_arrives\<close>)

lemma perform_all_sound:
  assumes "perform_all E L C N cs \<sigma> = Some \<tau>"
    and "\<And>c I. c \<in> set cs \<Longrightarrow> inputs_of c = Some I \<Longrightarrow> draw_law I \<and> clock_ok (now I) \<and> order_law I"
  shows "(node_step E L C N)\<^sup>*\<^sup>* \<sigma> \<tau>"
  using assms
proof (induction cs arbitrary: \<sigma>)
  case (Cons c cs)
  from Cons.prems(1) obtain \<rho> where "perform E L C N c \<sigma> = Some \<rho>" "perform_all E L C N cs \<rho> = Some \<tau>"
    by (auto split: option.splits)
  moreover from this have "node_step E L C N \<sigma> \<rho>" "(node_step E L C N)\<^sup>*\<^sup>* \<rho> \<tau>"
    using Cons.prems(2) by (auto intro: perform_sound Cons.IH)
  ultimately show ?case by (meson converse_rtranclp_into_rtranclp)
qed simp

lemma perform_all_append:
  "perform_all E L C N (cs @ ds) \<sigma> =
     (case perform_all E L C N cs \<sigma> of None \<Rightarrow> None | Some \<tau> \<Rightarrow> perform_all E L C N ds \<tau>)"
  by (induction cs arbitrary: \<sigma>) (auto split: option.splits)

text \<open>A state in which no actor is busy and only the peer manager may have mail.\<close>

definition calm ::
    "'c packet_handler \<Rightarrow> handshaker \<Rightarrow> peer_manager \<Rightarrow> peer_manager_request list \<Rightarrow> effect list list \<Rightarrow> hs_history
     \<Rightarrow> (sockaddr \<times> packet) list \<Rightarrow> 'c system" where
  "calm P S M pms ts past net =
     \<lparr>sys_ph = P, sys_hs = S, sys_pm = M, ph_mail = [], hs_mail = [], pm_mail = pms, outbox = (\<lambda>_. []),
      stopped = {}, spawned = ts, hs_past = past, received = net\<rparr>"

lemma calm_outbox [simp]: "(\<lambda>_. [])(a := []) = (\<lambda>_. [])"
  by auto

text \<open>A handshake packet arrives and reaches the handshaker, which spawns a reply.\<close>

lemma calm_relay:
  assumes "hs_handle_message E N I (Packet a h i) S = ([Spawn_call_packet_handler d m], Inr S')"
  shows "perform_all E L C N [Packet_arrives a \<lparr>pkt_s = q, pkt_id = i, pkt_p = H h\<rparr>, Ph_handles I,
      Carries_out Packet_handler_actor, Hs_handles I, Carries_out Handshaker_actor] (calm P S M pms ts past net) =
    Some (calm (P\<lparr>rx_sequences := (rx_sequences P)(a \<mapsto> q)\<rparr>) S' M pms (ts @ [[Call_packet_handler m]])
      (past @ [(I, Packet a h i)]) (net @ [(a, \<lparr>pkt_s = q, pkt_id = i, pkt_p = H h\<rparr>)]))"
  using assms by (simp add: calm_def recv_def act_simps then_do_def aftermath_def stops_def del: hs_handle_message.simps)

text \<open>The packet that completes a handshake arrives; the peer manager reports the keys and the packet handler takes them over.\<close>

lemma calm_complete:
  assumes "hs_handle_message E N I (Packet a h i) S = ([peer_up N p, Call_packet_handler m], Inr S')"
    and "order_law I" and "known_ok (known M)"
  shows "\<exists>\<tau>. perform_all E L C N [Packet_arrives a \<lparr>pkt_s = q, pkt_id = i, pkt_p = H h\<rparr>, Ph_handles I,
      Carries_out Packet_handler_actor, Hs_handles I, Carries_out Handshaker_actor, Pm_handles I,
      Carries_out Peer_manager_actor, Ph_handles I] (calm P S M [] ts past net) = Some \<tau> \<and>
    sys_ph \<tau> = P\<lparr>rx_sequences := (rx_sequences P)(a \<mapsto> q),
      ph_keys := keys_of ((known M)(peer_id p \<mapsto> last_write (known M (peer_id p)) p))\<rparr> \<and>
    ph_mail \<tau> = []"
  using assms
  by (simp add: calm_def recv_def act_simps then_do_def aftermath_def stops_def peer_up_def add_peer_eq
      del: hs_handle_message.simps)

lemma calm_start:
  "perform_all sample_E sample_lru sample_chooser node_two
     (replicate 5 Task_runs @ [Hs_handles sample_inputs, Ph_handles sample_inputs, Ph_handles sample_inputs,
      Carries_out Packet_handler_actor, Pm_handles sample_inputs, Pm_handles sample_inputs])
     (node_start sample_lru node_two 9 (Some 4) 3 8) =
   Some (calm ((packet_handler_new sample_lru)\<lparr>broadcast_handler_async := Some 4, ph_socket := Some 3\<rparr>)
     (ready node_two\<lparr>bootstrap_timer := Some (delayed_new (instant_now sample_inputs) (gen_range sample_inputs 0 10 150)
        (Future_bootstrap (node_peers node_two)))\<rparr>)
     (peer_manager_new\<lparr>notify_ready := Some 9,
        heartbeat := Some (interval_new HEARTBEAT_INTERVAL_MILLIS (Future_cast_peer_manager SendHeartbeat))\<rparr>) [] [[]]
     [(sample_inputs, Bootstrap)] [])"
proof -
  have boot: "hs_handle_message sample_E node_two sample_inputs Bootstrap handshaker_new = ([], Inr
      (ready node_two\<lparr>bootstrap_timer := Some (delayed_new (instant_now sample_inputs) (gen_range sample_inputs 0 10 150)
        (Future_bootstrap (node_peers node_two)))\<rparr>))"
    by (simp add: bootstrap_eq keys_ok_def handshaker_new_def ready_def)
  show ?thesis
    by (simp add: node_start_def start_effects_def List.map_filter_def eval_nat_numeral boot
        del: hs_handle_message.simps)
      (simp add: act_simps then_do_def aftermath_def stops_def start_recv_loop_def start_heartbeats_def
        calm_def peer_manager_new_def packet_handler_new_def)
qed

abbreviation sample_node_step :: "(nat \<times> uuid list) system \<Rightarrow> (nat \<times> uuid list) system \<Rightarrow> bool" where
  "sample_node_step \<equiv> node_step sample_E sample_lru sample_chooser node_two"

abbreviation sample_start :: "(nat \<times> uuid list) system" where
  "sample_start \<equiv> node_start sample_lru node_two 9 (Some 4) 3 8"

lemma sample_laws [simp]: "node_laws sample_E sample_chooser"
  by (simp add: node_laws_def)

text \<open>Node one greets node two, answers its challenge, and its keys are in use.\<close>

lemma sample_handshake_run:
  obtains \<tau> where "sample_node_step\<^sup>*\<^sup>* sample_start \<tau>" "ph_mail \<tau> = []"
    "ph_keys (sys_ph \<tau>) 1 = Some (sample_addr, sample_keypair, public_key sample_keypair)"
    "broadcast_handler_async (sys_ph \<tau>) = Some 4" "seen (sys_ph \<tau>) = lru_new sample_lru 10000"
proof -
  let ?s1 = "ready node_two\<lparr>bootstrap_timer := Some (delayed_new (instant_now sample_inputs) (gen_range sample_inputs 0 10 150)
    (Future_bootstrap (node_peers node_two)))\<rparr>"
  note hello = step_hello [of sample_E sample_inputs ?s1 node_two node_one sample_inputs sample_addr, unfolded sample_nodes]
  note reply = step_okboss [of sample_E _ "new_v4 sample_inputs 0" sample_addr sample_inputs 1
    "public_key (keypair_gen sample_inputs)" "now sample_inputs" None node_one node_two sample_inputs 1, unfolded sample_nodes]
  have kp: "keypair_gen sample_inputs = sample_keypair" by (simp add: sample_inputs_def)
  obtain d m s2 where 2: "hs_handle_message sample_E node_two sample_inputs
      (Packet sample_addr (sent_hello sample_E node_one sample_inputs) 1) ?s1 = ([Spawn_call_packet_handler d m], Inr s2)"
    and s2: "ohais s2 (new_v4 sample_inputs 0, sample_addr) = Some (ohai_from sample_inputs sample_addr 1
      (new_v4 sample_inputs 0) (public_key (keypair_gen sample_inputs)) (now sample_inputs) None)"
    using hello by (simp del: hs_handle_message.simps)
  obtain h m' s3 where 3: "hs_handle_message sample_E node_two sample_inputs (Packet sample_addr h 1) s2 =
      ([peer_up node_two sample_hs_peer, Call_packet_handler m'], Inr s3)"
    using reply s2 by (force simp: sample_hs_peer_def simp del: hs_handle_message.simps)
  let ?P = "(packet_handler_new sample_lru)\<lparr>broadcast_handler_async := Some 4, ph_socket := Some 3\<rparr>"
  let ?M = "peer_manager_new\<lparr>notify_ready := Some 9,
      heartbeat := Some (interval_new HEARTBEAT_INTERVAL_MILLIS (Future_cast_peer_manager SendHeartbeat))\<rparr>"
  have M: "known_ok (known ?M)" by (simp add: peer_manager_new_def)
  have sound: "(node_step sample_E sample_lru sample_chooser node_two)\<^sup>*\<^sup>* \<sigma> \<rho>"
    if "perform_all sample_E sample_lru sample_chooser node_two cs \<sigma> = Some \<rho>"
      "\<forall>c \<in> set cs. inputs_of c = None \<or> inputs_of c = Some sample_inputs" for cs \<sigma> \<rho>
    using that by (intro perform_all_sound [OF that(1)]) force
  let ?P2 = "?P\<lparr>rx_sequences := (rx_sequences ?P)(sample_addr \<mapsto> Seq 1)\<rparr>"
  let ?\<sigma>1 = "calm ?P ?s1 ?M [] [[]] [(sample_inputs, Bootstrap)] []"
  let ?\<sigma>2 = "calm ?P2 s2 ?M [] ([[]] @ [[Call_packet_handler m]])
      ([(sample_inputs, Bootstrap)] @ [(sample_inputs, Packet sample_addr (sent_hello sample_E node_one sample_inputs) 1)])
      ([] @ [(sample_addr, \<lparr>pkt_s = Seq 1, pkt_id = 1, pkt_p = H (sent_hello sample_E node_one sample_inputs)\<rparr>)])"
  have 1: "sample_node_step\<^sup>*\<^sup>* sample_start ?\<sigma>1" by (rule sound [OF calm_start]) simp
  have 2: "sample_node_step\<^sup>*\<^sup>* ?\<sigma>1 ?\<sigma>2" by (rule sound [OF calm_relay [OF 2]]) simp
  obtain \<tau> where p: "perform_all sample_E sample_lru sample_chooser node_two
      [Packet_arrives sample_addr \<lparr>pkt_s = Seq 2, pkt_id = 1, pkt_p = H h\<rparr>, Ph_handles sample_inputs,
      Carries_out Packet_handler_actor, Hs_handles sample_inputs, Carries_out Handshaker_actor, Pm_handles sample_inputs,
      Carries_out Peer_manager_actor, Ph_handles sample_inputs] ?\<sigma>2 = Some \<tau>"
    and \<tau>: "sys_ph \<tau> = ?P2\<lparr>rx_sequences := (rx_sequences ?P2)(sample_addr \<mapsto> Seq 2),
      ph_keys := keys_of ((known ?M)(peer_id sample_hs_peer \<mapsto>
        last_write (known ?M (peer_id sample_hs_peer)) sample_hs_peer))\<rparr>" "ph_mail \<tau> = []"
    using calm_complete [OF 3 sample_order_law M] by blast
  have run: "sample_node_step\<^sup>*\<^sup>* ?\<sigma>2 \<tau>" by (rule sound [OF p]) simp
  show ?thesis
  proof (rule that [of \<tau>])
    show "sample_node_step\<^sup>*\<^sup>* sample_start \<tau>"
      by (rule rtranclp_trans [OF 1 rtranclp_trans [OF 2 run]])
  qed (simp_all add: \<tau> keys_of_def peer_manager_new_def packet_handler_new_def last_write_def sample_hs_peer_def peer_new_def kp)
qed

subsection \<open>Properties of the whole node\<close>

text \<open>
  C1. The end-to-end guarantee: in every reachable state of a node, whatever arrives from the network and however the
  actors, tasks and timers interleave, every key the packet handler encrypts and decrypts with is that of a peer that
  completed a handshake with this node: same id, address, own key pair and public key, with a valid HMAC and, where
  this node was the responder, an answered challenge. All handshake packets this rests on arrived from the network
  (or are the node's own timeouts). Keys that other nodes report about third parties are never used.
\<close>

theorem keys_only_for_authenticated_peers:
  fixes C :: "'r chooser" and L :: "'c lru"
  assumes "node_laws E C" and "(node_step E L C N)\<^sup>*\<^sup>* (node_start L N notify h sock n) \<sigma>"
    and "ph_keys (sys_ph \<sigma>) i = Some (a, kp, pk)"
  shows "(\<exists>p. (proven_by_answer E N (hs_past \<sigma>) p \<or> proven_by_hmac E N (hs_past \<sigma>) p) \<and> peer_id p = i \<and>
      peer_sockaddr p = a \<and> our_keypair p = Some kp \<and> their_public_key p = Some pk) \<and>
    (\<forall>I b x j. (I, Packet b x j) \<in> set (hs_past \<sigma>) \<longrightarrow>
      hs_step x = Dead \<or> (\<exists>q. (b, \<lparr>pkt_s = q, pkt_id = j, pkt_p = H x\<rparr>) \<in> set (received \<sigma>)))"
proof -
  note inv = reachable(1) [OF assms(1,2)]
  from node_invD(5) [OF inv] assms(3)
  obtain p where "proven E N (hs_past \<sigma>) p" "peer_id p = i" "peer_sockaddr p = a" "our_keypair p = Some kp"
    "their_public_key p = Some pk"
    unfolding keys_proven_def by blast
  moreover have "hs_step x = Dead \<or> (\<exists>q. (b, \<lparr>pkt_s = q, pkt_id = j, pkt_p = H x\<rparr>) \<in> set (received \<sigma>))"
    if "(I, Packet b x j) \<in> set (hs_past \<sigma>)" for I b x j
    using node_invD(8) [OF inv that] by (simp add: arrived_def)
  ultimately show ?thesis unfolding proven_def by blast
qed

theorem keys_only_for_authenticated_peers_witness:
  "\<exists>\<sigma> p. sample_node_step\<^sup>*\<^sup>* sample_start \<sigma> \<and> ph_keys (sys_ph \<sigma>) 1 \<noteq> None \<and>
     (proven_by_answer sample_E node_two (hs_past \<sigma>) p \<or> proven_by_hmac sample_E node_two (hs_past \<sigma>) p) \<and> peer_id p = 1"
proof -
  obtain \<sigma> where \<sigma>: "sample_node_step\<^sup>*\<^sup>* sample_start \<sigma>"
    "ph_keys (sys_ph \<sigma>) 1 = Some (sample_addr, sample_keypair, public_key sample_keypair)"
    by (rule sample_handshake_run)
  from keys_only_for_authenticated_peers [OF sample_laws \<sigma>] \<sigma> show ?thesis by (metis option.distinct(1))
qed

text \<open>
  Actors that call each other never wait for each other in a circle: in every reachable state of a node the relation
  \<open>is about to call\<close> between its actors has no cycle.
\<close>

theorem actor_calls_acyclic:
  fixes C :: "'r chooser" and L :: "'c lru"
  assumes "node_laws E C" and "(node_step E L C N)\<^sup>*\<^sup>* (node_start L N notify h sock n) \<sigma>"
  shows "acyclic {(a, b). \<exists>e \<in> set (outbox \<sigma> a). callee e = Some b}"
proof -
  have "{(a, b). \<exists>e \<in> set (outbox \<sigma> a). callee e = Some b} \<subseteq> (measure rank)\<inverse>"
    using reachable(2) [OF assms] by (auto simp: all_calls_down_def calls_down_def)
  then show ?thesis by (meson acyclic_converse acyclic_subset wf_acyclic wf_measure)
qed

text \<open>
  C2. Whatever the application's handler is given came, encrypted and authenticated, from a peer that completed a handshake:
  if an activation of the packet handler hands data to the handler, it handled a packet that arrived from the network
  and whose box, opened with the keys of the handshake with the peer named by the packet, decodes to a broadcast of
  exactly that data.
\<close>

theorem delivered_broadcast_authenticated:
  fixes C :: "'r chooser" and L :: "'c lru"
  assumes "node_laws E C" and "(node_step E L C N)\<^sup>*\<^sup>* (node_start L N notify h sock n) \<sigma>"
    and "ph_mail \<sigma> = m # ms" and "Handle_broadcast k data \<in> set (fst (ph_handle_message E L N I m (sys_ph \<sigma>)))"
  shows "\<exists>a pkt vecbox nonce p kp pk serialized x.
    m = Recv a pkt \<and> (a, pkt) \<in> set (received \<sigma>) \<and> pkt_p pkt = B vecbox nonce \<and>
    (proven_by_answer E N (hs_past \<sigma>) p \<or> proven_by_hmac E N (hs_past \<sigma>) p) \<and> peer_id p = pkt_id pkt \<and>
    our_keypair p = Some kp \<and> their_public_key p = Some pk \<and>
    box_decrypt E vecbox nonce pk (secret_key kp) = Some serialized \<and>
    message_from_slice E serialized = Some x \<and> msg_body x = Broadcast data"
proof -
  note inv = reachable(1) [OF assms(1,2)]
  from handled_broadcast_source [OF assms(4)] obtain a pkt vecbox nonce x where m: "m = Recv a pkt" "pkt_p pkt = B vecbox nonce"
    "decrypt E (ph_keys (sys_ph \<sigma>)) (pkt_id pkt) vecbox nonce = Some x" "msg_body x = Broadcast data"
    by blast
  from m(3) obtain b kp pk serialized where d: "ph_keys (sys_ph \<sigma>) (pkt_id pkt) = Some (b, kp, pk)"
    "box_decrypt E vecbox nonce pk (secret_key kp) = Some serialized" "message_from_slice E serialized = Some x"
    by (auto simp: decrypt_def split: option.splits)
  from node_invD(5) [OF inv] d(1)
  obtain p where "proven E N (hs_past \<sigma>) p" "peer_id p = pkt_id pkt" "our_keypair p = Some kp" "their_public_key p = Some pk"
    unfolding keys_proven_def by blast
  moreover have "(a, pkt) \<in> set (received \<sigma>)"
    using node_invD(7) [OF inv pending_mail(1), of m] assms(3) by (simp add: m(1))
  ultimately show ?thesis using m d unfolding proven_def by blast
qed

theorem delivered_broadcast_authenticated_witness:
  "\<exists>\<sigma> pkt p. sample_node_step\<^sup>*\<^sup>* sample_start \<sigma> \<and> (sample_addr, pkt) \<in> set (received \<sigma>) \<and>
     (proven_by_answer sample_E node_two (hs_past \<sigma>) p \<or> proven_by_hmac sample_E node_two (hs_past \<sigma>) p) \<and>
     peer_id p = pkt_id pkt"
proof -
  obtain \<rho> where \<rho>: "sample_node_step\<^sup>*\<^sup>* sample_start \<rho>" "ph_mail \<rho> = []"
    "ph_keys (sys_ph \<rho>) 1 = Some (sample_addr, sample_keypair, public_key sample_keypair)"
    "broadcast_handler_async (sys_ph \<rho>) = Some 4" "seen (sys_ph \<rho>) = lru_new sample_lru 10000"
    by (rule sample_handshake_run)
  let ?p = "\<lparr>pkt_s = Seq 3, pkt_id = 1, pkt_p = B (sample_box sample_message) []\<rparr>"
  let ?\<sigma> = "\<rho>\<lparr>ph_mail := ph_mail \<rho> @ [Recv sample_addr ?p], received := received \<rho> @ [(sample_addr, ?p)]\<rparr>"
  have reach: "sample_node_step\<^sup>*\<^sup>* sample_start ?\<sigma>"
    by (rule rtranclp.rtrancl_into_rtrancl [OF \<rho>(1) node_step.packet_arrives])
  have dec: "decrypt sample_E (ph_keys (sys_ph \<rho>)) 1 (sample_box sample_message) [] = Some sample_message"
    using sample_decrypt [where ks = "ph_keys (sys_ph \<rho>)" and i = 1, OF \<rho>(3)] by simp
  have msg: "msg_body sample_message = Broadcast [1, 2, 3]" by (simp add: sample_message_def)
  have fresh: "\<not> lru_contains sample_lru (seen (sys_ph \<rho>)) i" for i
    by (simp add: \<rho>(5) sample_lru_def)
  have "Handle_broadcast 4 [1, 2, 3] \<in> set (fst (recv sample_E sample_lru node_two sample_inputs ?p sample_addr (sys_ph \<rho>)))"
    using \<rho>(4) msg by (simp add: recv_def act_simps dec fresh recv_broadcast_def then_do_effects)
  then have "Handle_broadcast 4 [1, 2, 3] \<in>
      set (fst (ph_handle_message sample_E sample_lru node_two sample_inputs (Recv sample_addr ?p) (sys_ph ?\<sigma>)))" by simp
  moreover have mail: "ph_mail ?\<sigma> = Recv sample_addr ?p # []" by (simp add: \<rho>(2))
  ultimately obtain a pkt p where "Recv sample_addr ?p = Recv a pkt" "(a, pkt) \<in> set (received ?\<sigma>)"
    "proven_by_answer sample_E node_two (hs_past ?\<sigma>) p \<or> proven_by_hmac sample_E node_two (hs_past ?\<sigma>) p"
    "peer_id p = pkt_id pkt"
    using delivered_broadcast_authenticated [OF sample_laws reach mail] by blast
  with reach show ?thesis by (intro exI [of _ ?\<sigma>] exI [of _ ?p] exI [of _ p]) simp
qed

subsection \<open>Between nodes\<close>

text \<open>What the peer manager tells the packet handler about a peer it did not know that comes up.\<close>

lemma report_installs_keys:
  assumes "order_law I" and "known_ok (known s)" and "known s (peer_id p) = None"
    and "our_keypair p = Some kp" and "their_public_key p = Some pk"
  obtains ks s' es where
    "pm_handle_message C N I (Request (node_id N) (PeerStatus \<lparr>status_peer = p, status_state = Up\<rparr>)) s =
       (Call_packet_handler (KeysUpdated ks) # es, Inr s')"
    "ks (peer_id p) = Some (peer_sockaddr p, kp, pk)" "known s' (peer_id p) = Some p"
proof -
  let ?m = "(known s)(peer_id p \<mapsto> p)"
  let ?es = "[Cast_packet_handler (BroadcastPeerStatus \<lparr>status_peer = p, status_state = Up\<rparr>)]"
  have "add_peer N I p s = ([Call_packet_handler (KeysUpdated (keys_of ?m))], Inr (arm_reassign N I (s\<lparr>known := ?m\<rparr>)))"
    using add_peer_eq [OF assms(1,2), of N p] assms(3) by (simp add: last_write_def)
  moreover have "keys_of ?m (peer_id p) = Some (peer_sockaddr p, kp, pk)" using assms(4,5) by (simp add: keys_of_Some)
  moreover have "known (arm_reassign N I (s\<lparr>known := ?m\<rparr>)) (peer_id p) = Some p" by (simp add: arm_reassign_def)
  ultimately show ?thesis
    by (intro that [of "keys_of ?m" ?es "arm_reassign N I (s\<lparr>known := ?m\<rparr>)"]) (simp_all add: then_do_def act_simps)
qed

lemma subscription_installs_subscriber:
  assumes "order_law I" and "known s i = Some p"
  obtains subs where "i \<in> set subs"
    "Cast_packet_handler (SubscribersUpdated subs) \<in> set (fst (pm_handle_message C N I (Request i StartSubscription) s))"
proof (rule that)
  show "i \<in> set (id_order I (insert i (subscribers s)))" by (simp add: order_lawD(1) [OF assms(1)])
  show "Cast_packet_handler (SubscribersUpdated (id_order I (insert i (subscribers s)))) \<in>
      set (fst (pm_handle_message C N I (Request i StartSubscription) s))"
    using assms(2) by (simp add: start_subscription_def update_subscribers_def act_simps then_do_def split: prod.splits)
qed

lemma recv_forwards:
  assumes "codec_law E" and "box_law E valid" and "valid kp" and "valid kp'"
    and "ph_socket s = Some sock" and "b \<in> set (ph_subscribers s)" and "ph_keys s b = Some (addr, kp, public_key kp')"
    and "pkt_p pkt = B vecbox nonce" and "decrypt E (ph_keys s) (pkt_id pkt) vecbox nonce = Some m"
    and "msg_body m = PeerRequest r" and "\<not> lru_contains L (seen s) (msg_id m)"
  obtains q c n where "Send_to sock (packet_bytes E q) addr \<in> set (fst (recv E L N I pkt from s))"
    "packet_from_slice E (packet_bytes E q) = Some q" "pkt_p q = B c n" "pkt_id q = node_id N"
    "\<And>ks i a. ks i = Some (a, kp', public_key kp) \<Longrightarrow> decrypt E ks i c n = Some (wire_message m)"
proof -
  let ?s = "s\<lparr>rx_sequences := (rx_sequences s)(from \<mapsto> pkt_s pkt)\<rparr>"
  have m: "\<lparr>msg_id = msg_id m, msg_body = PeerRequest r\<rparr> = m" using assms(10) by (cases m) simp
  obtain q c n where q: "Send_to sock (packet_bytes E q) addr \<in>
      set (fst (encrypt_and_send_messages E L N I 0 (ph_subscribers ?s) m ?s))"
    "packet_from_slice E (packet_bytes E q) = Some q" "pkt_p q = B c n" "pkt_id q = node_id N"
    and d: "\<And>ks i a. ks i = Some (a, kp', public_key kp) \<Longrightarrow> decrypt E ks i c n = Some (wire_message m)"
    by (rule sent_message_arrives [where L = L and N = N and I = I and base = 0 and m = m and s = ?s and b = b
          and sock = sock and addr = addr and ts = "ph_subscribers ?s", OF assms(1-4)]) (use assms(5-7) in auto)
  then have "Send_to sock (packet_bytes E q) addr \<in> set (fst (recv_peer_request E L N I (msg_id m) (pkt_id pkt) r ?s))"
    by (simp add: recv_peer_request_def send_broadcast_to_subscribers_def m with_state_apply then_do_effects)
  then have "Send_to sock (packet_bytes E q) addr \<in> set (fst (recv E L N I pkt from s))"
    using assms(10,11) by (simp add: recv_def with_state_apply assms(8,9) then_do_Inr [OF modify_apply] then_do_effects)
  with q d show ?thesis by (intro that [of q c n])
qed

lemma recv_casts:
  assumes "codec_law E" and "pkt_p pkt = B vecbox nonce" and "decrypt E (ph_keys s) (pkt_id pkt) vecbox nonce = Some m"
    and "msg_body m = PeerRequest r" and "\<not> lru_contains L (seen s) (msg_id m)"
  shows "Cast_peer_manager (Request (pkt_id pkt) r) \<in> set (fst (recv E L N I pkt from s))"
proof -
  have "Cast_peer_manager (Request (pkt_id pkt) r) \<in> set (fst (recv_peer_request E L N I (msg_id m) (pkt_id pkt) r t))" for t
    by (simp add: recv_peer_request_def send_broadcast_to_subscribers_def with_state_apply then_do_def
        encrypt_and_send_messages_eq [OF assms(1)] emit_apply skip_apply)
  then show ?thesis
    using assms(4,5) by (simp add: recv_def with_state_apply assms(2,3) then_do_Inr [OF modify_apply] then_do_effects)
qed

text \<open>
  C34. A request that one node sends to another is passed on to third nodes, which take it for a request of the node in the
  middle: when a node receives \<open>EndSubscription\<close> (or any other peer request), it forwards the message to its subscribers.
  A subscriber that gets it casts to its peer manager that the forwarding node ends its subscription, and the forwarding
  node, which asked for no such thing, is not a subscriber any more.
\<close>

theorem forwarded_end_subscription:
  assumes "codec_law E" and "box_law E valid" and "valid kp" and "valid kp'"
    and "ph_socket s = Some sock" and "b \<in> set (ph_subscribers s)" and "ph_keys s b = Some (addr, kp, public_key kp')"
    and "pkt_p pkt = B vecbox nonce"
    and "decrypt E (ph_keys s) (pkt_id pkt) vecbox nonce = Some \<lparr>msg_id = i, msg_body = PeerRequest EndSubscription\<rparr>"
    and "\<not> lru_contains L (seen s) i"
    and "ph_keys t (node_id N) = Some (a, kp', public_key kp)" and "\<not> lru_contains L (seen t) i"
  shows "\<exists>bs pkt'. Send_to sock bs addr \<in> set (fst (ph_handle_message E L N I (Recv origin pkt) s)) \<and>
    packet_from_slice E bs = Some pkt' \<and>
    Cast_peer_manager (Request (node_id N) EndSubscription) \<in> set (fst (ph_handle_message E L M J (Recv origin' pkt') t)) \<and>
    (\<exists>es u'. pm_handle_message C M J (Request (node_id N) EndSubscription) u = (es, Inr u') \<and>
      subscribers u' = subscribers u - {node_id N})"
proof -
  let ?m = "\<lparr>msg_id = i, msg_body = PeerRequest EndSubscription\<rparr>"
  obtain q c n where q: "Send_to sock (packet_bytes E q) addr \<in> set (fst (recv E L N I pkt origin s))"
    "packet_from_slice E (packet_bytes E q) = Some q" "pkt_p q = B c n" "pkt_id q = node_id N"
    and d: "\<And>ks i a. ks i = Some (a, kp', public_key kp) \<Longrightarrow> decrypt E ks i c n = Some (wire_message ?m)"
    by (rule recv_forwards [OF assms(1-9), of EndSubscription L N I origin]) (use assms(10) in auto)
  have "decrypt E (ph_keys t) (pkt_id q) c n = Some ?m"
    using d [where ks = "ph_keys t"] assms(11) by (simp add: q(4))
  from recv_casts [OF assms(1) q(3) this, of EndSubscription L M J origin'] assms(12)
  have "Cast_peer_manager (Request (node_id N) EndSubscription) \<in> set (fst (recv E L M J q origin' t))"
    by (simp add: q(4))
  with q(1,2) show ?thesis
    by (intro exI [of _ "packet_bytes E q"] exI [of _ q])
      (simp add: end_subscription_def update_subscribers_def act_simps then_do_def)
qed

theorem forwarded_end_subscription_witness:
  "\<exists>pkt'. Cast_peer_manager (Request 1 EndSubscription) \<in> set (fst (ph_handle_message sample_E sample_lru node_two
      sample_inputs (Recv sample_addr pkt') (sample_ph 1)))"
proof -
  let ?m = "\<lparr>msg_id = 9, msg_body = PeerRequest EndSubscription\<rparr>"
  have "decrypt sample_E (sample_keys 2) 2 (sample_box ?m) [] = Some ?m" by simp
  then show ?thesis
    using forwarded_end_subscription [where E = sample_E and valid = sample_valid and kp = sample_keypair
        and kp' = sample_keypair and s = "(sample_ph 2)\<lparr>ph_subscribers := [2]\<rparr>" and sock = 0 and b = 2
        and addr = sample_addr and pkt = "sample_packet 7 ?m" and vecbox = "sample_box ?m" and nonce = "[]" and i = 9
        and L = sample_lru and t = "sample_ph 1" and N = node_one and a = sample_addr and I = sample_inputs
        and J = sample_inputs and M = node_two and origin = sample_addr and origin' = sample_addr
        and C = sample_chooser and u = "peer_manager_new\<lparr>subscribers := {1}\<rparr>"]
    by (simp del: ph_handle_message.simps) blast
qed

end
