(* ===== verification/Runtime.thy ===== *)
theory Runtime
  imports System_Props
begin

text \<open>
  How the registry runs the actors. Every actor is a task with a mailbox. A cast puts a message into the mailbox of an actor; a call
  also waits until that actor has handled it. Both return an error when the task of the actor has ended, which the sources
  either ignore (\<open>.ok()\<close>) or unwrap, in which case the sender ends too. An actor that panics first does what it did
  before the panic. The steps refine those of theory \<open>System\<close>, which do not block and say less about failures.
\<close>

subsection \<open>Failed casts and calls\<close>

text \<open>The actor an effect is addressed to.\<close>

fun addressee :: "effect \<Rightarrow> actor option" where
  "addressee (Cast_packet_handler m) = Some Packet_handler_actor"
| "addressee (Call_packet_handler m) = Some Packet_handler_actor"
| "addressee (Cast_handshaker m) = Some Handshaker_actor"
| "addressee (Call_handshaker m) = Some Handshaker_actor"
| "addressee (Cast_peer_manager r) = Some Peer_manager_actor"
| "addressee (Call_peer_manager r) = Some Peer_manager_actor"
| "addressee e = None"

text \<open>
  The casts and calls whose result is unwrapped: in \<open>recv\<close>, in \<open>send_okboss\<close> and \<open>send_goteam\<close>, and in
  \<open>update_subscribers\<close>.
\<close>

fun ph_unwraps :: "effect \<Rightarrow> bool" where
  "ph_unwraps (Cast_handshaker m) = True"
| "ph_unwraps e = False"

fun hs_unwraps :: "effect \<Rightarrow> bool" where
  "hs_unwraps (Call_packet_handler (Send a p)) = True"
| "hs_unwraps e = False"

fun pm_unwraps :: "effect \<Rightarrow> bool" where
  "pm_unwraps (Cast_packet_handler (SubscribersUpdated subs)) = True"
| "pm_unwraps e = False"

fun unwraps :: "actor \<Rightarrow> effect \<Rightarrow> bool" where
  "unwraps Packet_handler_actor e = ph_unwraps e"
| "unwraps Handshaker_actor e = hs_unwraps e"
| "unwraps Peer_manager_actor e = pm_unwraps e"

subsection \<open>State\<close>

text \<open>
  \<open>awaits a\<close> is the call that actor \<open>a\<close> waits for, \<open>callers a\<close> says for every message in its mailbox who waits for it to be
  handled, and \<open>serving a\<close> for the message it is handling.
\<close>

record 'c runtime =
  core :: "'c system"
  awaits :: "actor \<Rightarrow> effect option"
  serving :: "actor \<Rightarrow> actor option"
  callers :: "actor \<Rightarrow> actor option list"

text \<open>The task of an actor has ended: it has panicked and done all that came before.\<close>

definition gone :: "'c runtime \<Rightarrow> actor \<Rightarrow> bool" where
  "gone \<rho> a \<longleftrightarrow> a \<in> stopped (core \<rho>) \<and> outbox (core \<rho>) a = [] \<and> awaits \<rho> a = None"

definition fails :: "'c runtime \<Rightarrow> effect \<Rightarrow> bool" where
  "fails \<rho> e \<longleftrightarrow> (\<exists>b. addressee e = Some b \<and> gone \<rho> b)"

definition enlist :: "actor option \<Rightarrow> effect \<Rightarrow> (actor \<Rightarrow> actor option list) \<Rightarrow> (actor \<Rightarrow> actor option list)" where
  "enlist c e cs = (case addressee e of Some b \<Rightarrow> cs(b := cs b @ [c]) | None \<Rightarrow> cs)"

definition left_to_do :: "actor \<Rightarrow> effect list \<Rightarrow> 'c system \<Rightarrow> 'c system" where
  "left_to_do a es \<sigma> = \<sigma>\<lparr>outbox := (outbox \<sigma>)(a := es)\<rparr>"

definition ends :: "actor \<Rightarrow> 'c runtime \<Rightarrow> 'c runtime" where
  "ends a \<rho> = \<rho>\<lparr>core := (left_to_do a [] (core \<rho>))\<lparr>stopped := insert a (stopped (core \<rho>))\<rparr>, awaits := (awaits \<rho>)(a := None)\<rparr>"

subsection \<open>Steps\<close>

inductive actor_step :: "externals \<Rightarrow> 'c lru \<Rightarrow> 'r chooser \<Rightarrow> nodeinfo \<Rightarrow> actor \<Rightarrow> 'c runtime \<Rightarrow> 'c runtime \<Rightarrow> bool"
  for E L C N a where
  takes: "awaits \<rho> a = None \<Longrightarrow> serving \<rho> a = None \<Longrightarrow> callers \<rho> a = c # cs \<Longrightarrow> activation E L C N a (core \<rho>) \<tau> \<Longrightarrow>
    actor_step E L C N a \<rho> (\<rho>\<lparr>core := \<tau>, callers := (callers \<rho>)(a := cs), serving := (serving \<rho>)(a := c)\<rparr>)"
| casts: "awaits \<rho> a = None \<Longrightarrow> outbox (core \<rho>) a = e # es \<Longrightarrow> \<not> fails \<rho> e \<Longrightarrow> callee e = None \<Longrightarrow>
    actor_step E L C N a \<rho> (\<rho>\<lparr>core := post e (left_to_do a es (core \<rho>)), callers := enlist None e (callers \<rho>)\<rparr>)"
| calls: "awaits \<rho> a = None \<Longrightarrow> outbox (core \<rho>) a = e # es \<Longrightarrow> \<not> fails \<rho> e \<Longrightarrow> callee e \<noteq> None \<Longrightarrow>
    actor_step E L C N a \<rho> (\<rho>\<lparr>core := post e (left_to_do a es (core \<rho>)), callers := enlist (Some a) e (callers \<rho>),
      awaits := (awaits \<rho>)(a \<mapsto> e)\<rparr>)"
| ignores: "awaits \<rho> a = None \<Longrightarrow> outbox (core \<rho>) a = e # es \<Longrightarrow> fails \<rho> e \<Longrightarrow> \<not> unwraps a e \<Longrightarrow>
    actor_step E L C N a \<rho> (\<rho>\<lparr>core := left_to_do a es (core \<rho>)\<rparr>)"
| panics: "awaits \<rho> a = None \<Longrightarrow> outbox (core \<rho>) a = e # es \<Longrightarrow> fails \<rho> e \<Longrightarrow> unwraps a e \<Longrightarrow>
    actor_step E L C N a \<rho> (ends a \<rho>)"
| answers: "awaits \<rho> a = None \<Longrightarrow> outbox (core \<rho>) a = [] \<Longrightarrow> a \<notin> stopped (core \<rho>) \<Longrightarrow> serving \<rho> a = Some c \<Longrightarrow>
    actor_step E L C N a \<rho> (\<rho>\<lparr>serving := (serving \<rho>)(a := None), awaits := (awaits \<rho>)(c := None)\<rparr>)"
| ignores_no_answer: "awaits \<rho> a = Some e \<Longrightarrow> fails \<rho> e \<Longrightarrow> \<not> unwraps a e \<Longrightarrow>
    actor_step E L C N a \<rho> (\<rho>\<lparr>awaits := (awaits \<rho>)(a := None)\<rparr>)"
| panics_without_answer: "awaits \<rho> a = Some e \<Longrightarrow> fails \<rho> e \<Longrightarrow> unwraps a e \<Longrightarrow>
    actor_step E L C N a \<rho> (ends a \<rho>)"

text \<open>
  What happens around the actors: spawned tasks, timers, the network and the application. A task that unwraps a failed cast
  ends; one that ignores it goes on.
\<close>

inductive outer_step :: "externals \<Rightarrow> 'c runtime \<Rightarrow> 'c runtime \<Rightarrow> bool"
  for E where
  task_goes_on: "spawned (core \<rho>) = ts @ (e # es) # us \<Longrightarrow> \<not> fails \<rho> e \<Longrightarrow>
    outer_step E \<rho> (\<rho>\<lparr>core := post e ((core \<rho>)\<lparr>spawned := ts @ es # us\<rparr>), callers := enlist None e (callers \<rho>)\<rparr>)"
| task_fails: "spawned (core \<rho>) = ts @ (e # es) # us \<Longrightarrow> fails \<rho> e \<Longrightarrow> es' = es \<or> es' = [] \<Longrightarrow>
    outer_step E \<rho> (\<rho>\<lparr>core := (core \<rho>)\<lparr>spawned := ts @ es' # us\<rparr>\<rparr>)"
| timer_expires: "f \<in> timers (core \<rho>) \<Longrightarrow>
    outer_step E \<rho> (\<rho>\<lparr>core := (core \<rho>)\<lparr>spawned := spawned (core \<rho>) @ [future_effects E f]\<rparr>\<rparr>)"
| packet_comes: "\<not> gone \<rho> Packet_handler_actor \<Longrightarrow>
    outer_step E \<rho> (\<rho>\<lparr>core := (core \<rho>)\<lparr>ph_mail := ph_mail (core \<rho>) @ [Recv a p], received := received (core \<rho>) @ [(a, p)]\<rparr>,
      callers := (callers \<rho>)(Packet_handler_actor := callers \<rho> Packet_handler_actor @ [None])\<rparr>)"
| application_asks: "application e \<Longrightarrow> \<not> fails \<rho> e \<Longrightarrow>
    outer_step E \<rho> (\<rho>\<lparr>core := post e (core \<rho>), callers := enlist None e (callers \<rho>)\<rparr>)"

definition runtime_step :: "externals \<Rightarrow> 'c lru \<Rightarrow> 'r chooser \<Rightarrow> nodeinfo \<Rightarrow> 'c runtime \<Rightarrow> 'c runtime \<Rightarrow> bool" where
  "runtime_step E L C N \<rho> \<rho>' \<longleftrightarrow> (\<exists>a. actor_step E L C N a \<rho> \<rho>') \<or> outer_step E \<rho> \<rho>'"

definition runtime_of :: "'c system \<Rightarrow> 'c runtime" where
  "runtime_of \<sigma> = \<lparr>core = \<sigma>, awaits = (\<lambda>_. None), serving = (\<lambda>_. None), callers = (\<lambda>_. [])\<rparr>"

subsection \<open>The node is refined\<close>

lemma fails_stopped: "fails \<rho> e \<Longrightarrow> stopped (core \<rho>) \<noteq> {}"
  by (auto simp: fails_def gone_def)

lemma actor_step_node:
  assumes "actor_step E L C N a \<rho> \<rho>'"
  shows "(node_step E L C N)\<^sup>=\<^sup>= (core \<rho>) (core \<rho>')"
  using assms
proof cases
  case (takes c cs \<tau>)
  then show ?thesis by (auto intro: node_step.activates)
next
  case (casts e es)
  then show ?thesis by (simp add: left_to_do_def node_step.carries_out)
next
  case (calls e es)
  then show ?thesis by (simp add: left_to_do_def node_step.carries_out)
next
  case (ignores e es)
  then show ?thesis by (simp add: left_to_do_def node_step.effect_lost [OF fails_stopped])
next
  case (panics e es)
  then show ?thesis by (simp add: left_to_do_def ends_def node_step.gives_up [OF fails_stopped])
next
  case (panics_without_answer e)
  then show ?thesis by (simp add: left_to_do_def ends_def node_step.gives_up [OF fails_stopped])
qed simp_all

lemma outer_step_node:
  assumes "outer_step E \<rho> \<rho>'"
  shows "node_step E L C N (core \<rho>) (core \<rho>')"
  using assms
proof cases
  case (task_goes_on ts e es us)
  then show ?thesis by (simp add: node_step.task_runs)
next
  case (task_fails ts e es us es')
  then show ?thesis by (simp add: node_step.task_lost [OF fails_stopped])
next
  case (timer_expires f)
  then show ?thesis by (simp add: node_step.timer_fires)
next
  case (packet_comes a p)
  then show ?thesis by (simp add: node_step.packet_arrives)
next
  case (application_asks e)
  then show ?thesis by (simp add: node_step.application_calls)
qed

interpretation runtime: refinement_mapping "runtime_step E L C N" "node_step E L C N" core
  for E L C N
  by unfold_locales (auto simp: runtime_step_def dest: actor_step_node outer_step_node)

subsection \<open>Who waits for whom\<close>

fun mail_count :: "'c system \<Rightarrow> actor \<Rightarrow> nat" where
  "mail_count \<sigma> Packet_handler_actor = length (ph_mail \<sigma>)"
| "mail_count \<sigma> Handshaker_actor = length (hs_mail \<sigma>)"
| "mail_count \<sigma> Peer_manager_actor = length (pm_mail \<sigma>)"

text \<open>An actor that waits is in the mailbox of the callee, or being served by it, or the callee is gone; calls go down in rank.\<close>

definition expected :: "'c runtime \<Rightarrow> actor \<Rightarrow> actor \<Rightarrow> bool" where
  "expected \<rho> a b \<longleftrightarrow> Some a \<in> set (callers \<rho> b) \<or> serving \<rho> b = Some a \<or> gone \<rho> b"

definition waits_ok :: "'c runtime \<Rightarrow> bool" where
  "waits_ok \<rho> \<longleftrightarrow> (\<forall>a e. awaits \<rho> a = Some e \<longrightarrow> (\<exists>b. callee e = Some b \<and> rank b < rank a \<and> expected \<rho> a b))"

definition runtime_inv :: "'c runtime \<Rightarrow> bool" where
  "runtime_inv \<rho> \<longleftrightarrow> (\<forall>a. length (callers \<rho> a) = mail_count (core \<rho>) a) \<and> waits_ok \<rho>"

lemma mail_count_post [simp]:
  "mail_count (post e \<sigma>) b = mail_count \<sigma> b + (if addressee e = Some b then 1 else 0)"
  by (cases e; cases b) auto

lemma mail_count_frame [simp]:
  "mail_count (left_to_do a es \<sigma>) b = mail_count \<sigma> b" "mail_count (\<sigma>\<lparr>spawned := ts\<rparr>) b = mail_count \<sigma> b"
  "mail_count (\<sigma>\<lparr>stopped := S\<rparr>) b = mail_count \<sigma> b"
  by (cases b; simp add: left_to_do_def)+

lemma length_enlist: "length (enlist c e cs b) = length (cs b) + (if addressee e = Some b then 1 else 0)"
  by (simp add: enlist_def split: option.splits)

lemma in_enlist: "x \<in> set (cs b) \<Longrightarrow> x \<in> set (enlist c e cs b)" "addressee e = Some b \<Longrightarrow> c \<in> set (enlist c e cs b)"
  by (auto simp: enlist_def split: option.splits)

lemma callee_addressee: "callee e = Some b \<Longrightarrow> addressee e = Some b"
  by (cases e) auto

lemma activation_frame:
  assumes "activation E L C N a \<sigma> \<tau>"
  shows "a \<notin> stopped \<sigma>" "mail_count \<sigma> a = Suc (mail_count \<tau> a)"
    "b \<noteq> a \<Longrightarrow> mail_count \<tau> b = mail_count \<sigma> b \<and> outbox \<tau> b = outbox \<sigma> b \<and> (b \<in> stopped \<tau> \<longleftrightarrow> b \<in> stopped \<sigma>)"
  using assms by (cases; cases b; auto simp: stops_def split: sum.splits)+

lemma post_stopped [simp]: "stopped (post e \<sigma>) = stopped \<sigma>"
  by (cases e) simp_all

lemma left_to_do_simps [simp]:
  "stopped (left_to_do a es \<sigma>) = stopped \<sigma>" "outbox (left_to_do a es \<sigma>) = (outbox \<sigma>)(a := es)"
  by (simp_all add: left_to_do_def)

text \<open>A step that starts no call, takes no message and answers none.\<close>

lemma waits_ok_mono:
  assumes "waits_ok \<rho>" and "\<And>c e. awaits \<rho>' c = Some e \<Longrightarrow> awaits \<rho> c = Some e"
    and "\<And>b. set (callers \<rho> b) \<subseteq> set (callers \<rho>' b)" and "serving \<rho>' = serving \<rho>" and "\<And>b. gone \<rho> b \<Longrightarrow> gone \<rho>' b"
  shows "waits_ok \<rho>'"
proof -
  have "expected \<rho> a b \<Longrightarrow> expected \<rho>' a b" for a b using assms(3-5) by (auto simp: expected_def)
  with assms(1,2) show ?thesis unfolding waits_ok_def by blast
qed

lemma waits_ok_takes:
  assumes "waits_ok \<rho>" and "serving \<rho> a = None" and "callers \<rho> a = c # cs" and "activation E L C N a (core \<rho>) \<tau>"
  shows "waits_ok (\<rho>\<lparr>core := \<tau>, callers := (callers \<rho>)(a := cs), serving := (serving \<rho>)(a := c)\<rparr>)"
proof -
  have "expected (\<rho>\<lparr>core := \<tau>, callers := (callers \<rho>)(a := cs), serving := (serving \<rho>)(a := c)\<rparr>) d b" if "expected \<rho> d b" for d b
    using that assms(2,3) activation_frame(1) [OF assms(4)] activation_frame(3) [OF assms(4), of b]
    by (cases "b = a") (auto simp: expected_def gone_def)
  with assms(1) show ?thesis unfolding waits_ok_def by simp blast
qed

lemma waits_ok_calls:
  assumes "waits_ok \<rho>" and "all_calls_down (core \<rho>)" and "outbox (core \<rho>) a = e # es" and "callee e \<noteq> None"
  shows "waits_ok (\<rho>\<lparr>core := post e (left_to_do a es (core \<rho>)), callers := enlist (Some a) e (callers \<rho>),
      awaits := (awaits \<rho>)(a \<mapsto> e)\<rparr>)" (is "waits_ok ?\<rho>")
  unfolding waits_ok_def
proof (intro allI impI)
  fix d x
  assume d: "awaits ?\<rho> d = Some x"
  from assms(4) obtain b where b: "callee e = Some b" by blast
  have "calls_down a e" using assms(2,3) unfolding all_calls_down_def by (metis list.set_intros(1))
  with b have rank: "rank b < rank a" by (simp add: calls_down_def)
  have new: "expected ?\<rho> a b" using in_enlist(2) [OF callee_addressee [OF b]] by (simp add: expected_def)
  have old: "expected ?\<rho> d c" if "expected \<rho> d c" for c
    using that assms(3) in_enlist(1) by (auto simp: expected_def gone_def)
  show "\<exists>b. callee x = Some b \<and> rank b < rank d \<and> expected ?\<rho> d b"
  proof (cases "d = a")
    case True
    with d b rank new show ?thesis by simp
  next
    case False
    with d have "awaits \<rho> d = Some x" by simp
    with assms(1) old show ?thesis unfolding waits_ok_def by blast
  qed
qed

lemma waits_ok_answers:
  assumes "waits_ok \<rho>" and "serving \<rho> a = Some c" and "a \<notin> stopped (core \<rho>)"
  shows "waits_ok (\<rho>\<lparr>serving := (serving \<rho>)(a := None), awaits := (awaits \<rho>)(c := None)\<rparr>)" (is "waits_ok ?\<rho>")
proof -
  have "expected ?\<rho> d b" if "expected \<rho> d b" "d \<noteq> c" for d b using that assms(2,3) by (auto simp: expected_def gone_def)
  with assms(1) show ?thesis unfolding waits_ok_def by (simp split: if_splits) blast
qed

lemma runtime_inv_actor_step:
  assumes "runtime_inv \<rho>" and "all_calls_down (core \<rho>)" and "actor_step E L C N a \<rho> \<rho>'"
  shows "runtime_inv \<rho>'"
proof -
  from assms(1) have mail: "\<And>b. length (callers \<rho> b) = mail_count (core \<rho>) b" and waits: "waits_ok \<rho>"
    by (simp_all add: runtime_inv_def)
  have "length (callers \<rho>' b) = mail_count (core \<rho>') b" for b
    using assms(3)
  proof cases
    case (takes c cs \<tau>)
    then show ?thesis
      using mail [of b] activation_frame(2) [OF takes(5)] activation_frame(3) [OF takes(5), of b] by (cases "b = a") simp_all
  qed (simp_all add: mail length_enlist ends_def)
  moreover from assms(3) have "waits_ok \<rho>'"
  proof cases
    case (takes c cs \<tau>)
    then show ?thesis using waits_ok_takes [OF waits] by blast
  next
    case (casts e es)
    show ?thesis by (rule waits_ok_mono [OF waits]) (use casts in \<open>auto simp: gone_def intro: in_enlist\<close>)
  next
    case (calls e es)
    then show ?thesis using waits_ok_calls [OF waits assms(2)] by blast
  next
    case (ignores e es)
    show ?thesis by (rule waits_ok_mono [OF waits]) (use ignores in \<open>auto simp: gone_def\<close>)
  next
    case (panics e es)
    show ?thesis by (rule waits_ok_mono [OF waits]) (use panics in \<open>auto simp: gone_def ends_def split: if_splits\<close>)
  next
    case (answers c)
    then show ?thesis using waits_ok_answers [OF waits] by blast
  next
    case (ignores_no_answer e)
    show ?thesis by (rule waits_ok_mono [OF waits]) (use ignores_no_answer in \<open>auto simp: gone_def split: if_splits\<close>)
  next
    case (panics_without_answer e)
    show ?thesis
      by (rule waits_ok_mono [OF waits]) (use panics_without_answer in \<open>auto simp: gone_def ends_def split: if_splits\<close>)
  qed
  ultimately show ?thesis by (simp add: runtime_inv_def)
qed

lemma runtime_inv_outer_step:
  assumes "runtime_inv \<rho>" and "outer_step E \<rho> \<rho>'"
  shows "runtime_inv \<rho>'"
proof -
  from assms(1) have mail: "\<And>b. length (callers \<rho> b) = mail_count (core \<rho>) b" and waits: "waits_ok \<rho>"
    by (simp_all add: runtime_inv_def)
  have count: "mail_count (\<sigma>\<lparr>ph_mail := ms, received := net\<rparr>) b =
      (if b = Packet_handler_actor then length ms else mail_count \<sigma> b)" for \<sigma> :: "'a system" and ms net b
    by (cases b) simp_all
  from assms(2) have "length (callers \<rho>' b) = mail_count (core \<rho>') b" for b
    by cases (simp_all add: mail length_enlist count)
  moreover from assms(2) have "waits_ok \<rho>'"
    by cases (auto intro!: waits_ok_mono [OF waits] intro: in_enlist simp: gone_def)
  ultimately show ?thesis by (simp add: runtime_inv_def)
qed

lemma node_invariants_step:
  assumes "node_laws E C" and "node_inv E N \<sigma> \<and> all_calls_down \<sigma>" and "(node_step E L C N)\<^sup>=\<^sup>= \<sigma> \<tau>"
  shows "node_inv E N \<tau> \<and> all_calls_down \<tau>"
  using assms node.step_inv [of E C N \<sigma> L \<tau>] by auto

interpretation running: transition_system "\<lambda>\<rho>. \<exists>notify h sock n. \<rho> = runtime_of (node_start L N notify h sock n)"
    "runtime_step E L C N" "\<lambda>\<rho>. node_laws E C \<longrightarrow> runtime_inv \<rho> \<and> node_inv E N (core \<rho>) \<and> all_calls_down (core \<rho>)"
  for E L C N
proof unfold_locales
  show "node_laws E C \<longrightarrow> runtime_inv \<rho> \<and> node_inv E N (core \<rho>) \<and> all_calls_down (core \<rho>)"
    if "\<exists>notify h sock n. \<rho> = runtime_of (node_start L N notify h sock n)" for \<rho>
  proof -
    from that obtain notify h sock n where \<rho>: "\<rho> = runtime_of (node_start L N notify h sock n)" by blast
    have "mail_count (node_start L N notify h sock n) a = 0" for a by (cases a) (simp_all add: node_start_def)
    then have "runtime_inv \<rho>" by (simp add: \<rho> runtime_of_def runtime_inv_def waits_ok_def)
    moreover have "node_inv E N (core \<rho>)" "all_calls_down (core \<rho>)"
      by (simp_all add: \<rho> runtime_of_def node_inv_start) (simp add: all_calls_down_def node_start_def)
    ultimately show ?thesis by blast
  qed
  show "node_laws E C \<longrightarrow> runtime_inv \<tau> \<and> node_inv E N (core \<tau>) \<and> all_calls_down (core \<tau>)"
    if "node_laws E C \<longrightarrow> runtime_inv \<rho> \<and> node_inv E N (core \<rho>) \<and> all_calls_down (core \<rho>)" "runtime_step E L C N \<rho> \<tau>" for \<rho> \<tau>
    using that node_invariants_step [OF _ _ runtime.step_abs [OF that(2)]] runtime_inv_actor_step runtime_inv_outer_step
    unfolding runtime_step_def by blast
qed

subsection \<open>Some actor can always go on\<close>

text \<open>An actor that has something to do: its task runs and it has messages, effects to carry out, a caller or a call.\<close>

definition busy :: "'c runtime \<Rightarrow> actor \<Rightarrow> bool" where
  "busy \<rho> a \<longleftrightarrow> \<not> gone \<rho> a \<and>
     (outbox (core \<rho>) a \<noteq> [] \<or> 0 < mail_count (core \<rho>) a \<or> awaits \<rho> a \<noteq> None \<or> serving \<rho> a \<noteq> None)"

lemma activation_enabled:
  assumes "a \<notin> stopped \<sigma>" and "outbox \<sigma> a = []" and "0 < mail_count \<sigma> a"
  shows "\<exists>\<tau>. activation E L C N a \<sigma> \<tau>"
proof -
  have laws: "draw_law sample_inputs" "order_law sample_inputs" "clock_ok (now sample_inputs)"
    by (simp_all add: clock_ok_def) (simp_all add: sample_inputs_def)
  show ?thesis
  proof (cases a)
    case Packet_handler_actor
    with assms obtain m ms where "ph_mail \<sigma> = m # ms" by (cases "ph_mail \<sigma>") simp_all
    moreover obtain es r where "ph_handle_message E L N sample_inputs m (sys_ph \<sigma>) = (es, r)" by fastforce
    ultimately show ?thesis using assms(1,2) unfolding Packet_handler_actor by (blast intro: activation.ph_handles)
  next
    case Handshaker_actor
    with assms obtain m ms where "hs_mail \<sigma> = m # ms" by (cases "hs_mail \<sigma>") simp_all
    moreover obtain es r where "hs_handle_message E N sample_inputs m (sys_hs \<sigma>) = (es, r)" by fastforce
    ultimately show ?thesis using assms(1,2) laws unfolding Handshaker_actor by (blast intro: activation.hs_handles)
  next
    case Peer_manager_actor
    with assms obtain m ms where "pm_mail \<sigma> = m # ms" by (cases "pm_mail \<sigma>") simp_all
    moreover obtain es r where "pm_handle_message C N sample_inputs m (sys_pm \<sigma>) = (es, r)" by fastforce
    ultimately show ?thesis using assms(1,2) laws unfolding Peer_manager_actor by (blast intro: activation.pm_handles)
  qed
qed

lemma unblocked_moves:
  assumes "runtime_inv \<rho>" and "busy \<rho> a" and "awaits \<rho> a = None"
  shows "\<exists>\<rho>'. actor_step E L C N a \<rho> \<rho>'"
proof (cases "outbox (core \<rho>) a")
  case (Cons e es)
  then show ?thesis using assms(3) by (meson casts calls ignores panics)
next
  case Nil
  with assms(2,3) have alive: "a \<notin> stopped (core \<rho>)" by (simp add: busy_def gone_def)
  show ?thesis
  proof (cases "serving \<rho> a")
    case (Some c)
    then show ?thesis using assms(3) Nil alive by (meson answers)
  next
    case None
    with assms(2,3) Nil have mail: "0 < mail_count (core \<rho>) a" by (simp add: busy_def)
    with assms(1) have "callers \<rho> a \<noteq> []" unfolding runtime_inv_def by (metis length_greater_0_conv)
    then obtain c cs where "callers \<rho> a = c # cs" by (cases "callers \<rho> a") simp_all
    with activation_enabled [OF alive Nil mail] assms(3) None show ?thesis by (meson takes)
  qed
qed

lemma busy_moves:
  assumes "runtime_inv \<rho>" and "busy \<rho> a"
  shows "\<exists>b \<rho>'. rank b \<le> rank a \<and> actor_step E L C N b \<rho> \<rho>'"
  using assms(2)
proof (induction "rank a" arbitrary: a rule: less_induct)
  case less
  show ?case
  proof (cases "awaits \<rho> a")
    case None
    with unblocked_moves [OF assms(1) less.prems None] show ?thesis by blast
  next
    case (Some e)
    with assms(1) obtain b where b: "callee e = Some b" "rank b < rank a" "expected \<rho> a b"
      unfolding runtime_inv_def waits_ok_def by blast
    show ?thesis
    proof (cases "gone \<rho> b")
      case True
      then have "fails \<rho> e" using callee_addressee [OF b(1)] by (auto simp: fails_def)
      with Some show ?thesis by (meson ignores_no_answer panics_without_answer order_refl)
    next
      case False
      have "0 < mail_count (core \<rho>) b" if "Some a \<in> set (callers \<rho> b)"
        using that assms(1) unfolding runtime_inv_def by (metis length_pos_if_in_set)
      with False b(3) have "busy \<rho> b" by (auto simp: busy_def expected_def)
      from less.hyps [OF b(2) this] b(2) show ?thesis by (meson less_imp_le order_trans)
    qed
  qed
qed

end
