(* ===== verification/Runtime_Props.thy ===== *)
theory Runtime_Props
  imports Runtime
begin

text \<open>
  Properties of the running node: what was proved of the node in theory \<open>System\<close> holds of it, its actors do not deadlock,
  and the failure of one actor spreads.
\<close>

subsection \<open>Refinement and progress\<close>


abbreviation sample_runtime_step :: "(nat \<times> uuid list) runtime \<Rightarrow> (nat \<times> uuid list) runtime \<Rightarrow> bool" where
  "sample_runtime_step \<equiv> runtime_step sample_E sample_lru sample_chooser node_two"

text \<open>The server's first cast to the peer manager.\<close>

lemma sample_first_cast:
  obtains \<rho> where "sample_runtime_step\<^sup>*\<^sup>* (runtime_of sample_start) \<rho>" "pm_mail (core \<rho>) = [SetNotify 9]" "stopped (core \<rho>) = {}"
proof -
  let ?e = "Cast_peer_manager (SetNotify 9)"
  obtain es where es: "spawned sample_start = [?e # es]"
    by (simp add: node_start_def start_effects_def List.map_filter_def)
  let ?\<rho> = "(runtime_of sample_start)\<lparr>core := post ?e (sample_start\<lparr>spawned := [] @ es # []\<rparr>),
    callers := enlist None ?e (callers (runtime_of sample_start))\<rparr>"
  have "outer_step sample_E (runtime_of sample_start) ?\<rho>"
    using task_goes_on [of "runtime_of sample_start" "[]" ?e es "[]" sample_E] es
    by (simp add: runtime_of_def fails_def gone_def) (simp add: node_start_def)
  then have "sample_runtime_step\<^sup>*\<^sup>* (runtime_of sample_start) ?\<rho>"
    by (auto simp: runtime_step_def)
  then show ?thesis by (rule that) (simp_all add: node_start_def)
qed




subsection \<open>Failures spread\<close>

text \<open>An actor that waits for a message.\<close>

definition at_rest :: "'c runtime \<Rightarrow> actor \<Rightarrow> bool" where
  "at_rest \<rho> a \<longleftrightarrow> a \<notin> stopped (core \<rho>) \<and> outbox (core \<rho>) a = [] \<and> awaits \<rho> a = None \<and> serving \<rho> a = None \<and> callers \<rho> a = [] \<and>
     mail_count (core \<rho>) a = 0"

text \<open>A handshake packet arrives and the packet handler is about to pass it on.\<close>

lemma handshake_comes:
  assumes "at_rest \<rho> Packet_handler_actor" and "pkt_p p = H h"
  obtains \<rho>' where "(runtime_step E L C N)\<^sup>*\<^sup>* \<rho> \<rho>'"
    "outbox (core \<rho>') = (outbox (core \<rho>))(Packet_handler_actor := [Cast_handshaker (Packet a h (pkt_id p))])"
    "stopped (core \<rho>') = stopped (core \<rho>)" "hs_mail (core \<rho>') = hs_mail (core \<rho>)" "sys_hs (core \<rho>') = sys_hs (core \<rho>)"
    "ph_mail (core \<rho>') = []" "received (core \<rho>') = received (core \<rho>) @ [(a, p)]"
    "awaits \<rho>' = awaits \<rho>" "serving \<rho>' = serving \<rho>" "callers \<rho>' = callers \<rho>"
proof -
  let ?P = Packet_handler_actor
  let ?\<sigma>1 = "(core \<rho>)\<lparr>ph_mail := ph_mail (core \<rho>) @ [Recv a p], received := received (core \<rho>) @ [(a, p)]\<rparr>"
  let ?\<rho>1 = "\<rho>\<lparr>core := ?\<sigma>1, callers := (callers \<rho>)(?P := callers \<rho> ?P @ [None])\<rparr>"
  let ?es = "[Cast_handshaker (Packet a h (pkt_id p))]"
  let ?s = "(sys_ph (core \<rho>))\<lparr>rx_sequences := (rx_sequences (sys_ph (core \<rho>)))(a \<mapsto> pkt_s p)\<rparr>"
  let ?\<sigma>2 = "?\<sigma>1\<lparr>ph_mail := [], outbox := (outbox ?\<sigma>1)(?P := ?es), sys_ph := aftermath (sys_ph ?\<sigma>1) (Inr ?s),
    stopped := stops ?P (Inr ?s) (stopped ?\<sigma>1)\<rparr>"
  let ?\<rho>2 = "?\<rho>1\<lparr>core := ?\<sigma>2, callers := (callers ?\<rho>1)(?P := []), serving := (serving ?\<rho>1)(?P := None)\<rparr>"
  from assms(1) have rest: "?P \<notin> stopped (core \<rho>)" "outbox (core \<rho>) ?P = []" "awaits \<rho> ?P = None" "serving \<rho> ?P = None"
    "callers \<rho> ?P = []" "ph_mail (core \<rho>) = []"
    by (simp_all add: at_rest_def)
  have "ph_handle_message E L N sample_inputs (Recv a p) (sys_ph ?\<sigma>1) = (?es, Inr ?s)"
    using assms(2) by (simp add: recv_def act_simps then_do_def)
  then have "activation E L C N ?P ?\<sigma>1 ?\<sigma>2"
    by (rule activation.ph_handles [rotated 3]) (use rest in simp_all)
  then have "actor_step E L C N ?P ?\<rho>1 ?\<rho>2" using rest by (intro takes) simp_all
  moreover have "outer_step E \<rho> ?\<rho>1" using rest by (intro packet_comes) (simp add: gone_def)
  ultimately have "(runtime_step E L C N)\<^sup>*\<^sup>* \<rho> ?\<rho>2"
    by (meson runtime_step_def converse_rtranclp_into_rtranclp r_into_rtranclp)
  then show ?thesis by (rule that) (use rest in \<open>simp_all add: stops_def fun_upd_idem\<close>)
qed

text \<open>The \<open>Hello\<close> with the wrong stamp arrives, and the handshaker is gone.\<close>

lemma bad_hello_comes:
  assumes "chrono_law E" and "draw_law I" and "clock_ok (now I)"
    and "at_rest \<rho> Packet_handler_actor" and "at_rest \<rho> Handshaker_actor"
    and "hashed_keys (sys_hs (core \<rho>)) = Some (hk # hks)" and "hmacs \<noteq> []" and "pkt_id p \<noteq> node_id N"
    and "pkt_p p = H \<lparr>hs_id = i, hs_step = Hello pk zone hmacs (now I + 2 ^ 63)\<rparr>"
  obtains \<rho>' where "(runtime_step E L C N)\<^sup>*\<^sup>* \<rho> \<rho>'" "received (core \<rho>') = received (core \<rho>) @ [(a, p)]"
    "gone \<rho>' Handshaker_actor" "at_rest \<rho>' Packet_handler_actor"
proof -
  let ?P = Packet_handler_actor and ?H = Handshaker_actor and ?R = "runtime_step E L C N"
  let ?hello = "Packet a \<lparr>hs_id = i, hs_step = Hello pk zone hmacs (now I + 2 ^ 63)\<rparr> (pkt_id p)"
  note rest = assms(4,5) [unfolded at_rest_def]
  obtain \<rho>1 where \<rho>1: "?R\<^sup>*\<^sup>* \<rho> \<rho>1" "outbox (core \<rho>1) = (outbox (core \<rho>))(?P := [Cast_handshaker ?hello])"
    "stopped (core \<rho>1) = stopped (core \<rho>)" "hs_mail (core \<rho>1) = hs_mail (core \<rho>)" "sys_hs (core \<rho>1) = sys_hs (core \<rho>)"
    "ph_mail (core \<rho>1) = []" "received (core \<rho>1) = received (core \<rho>) @ [(a, p)]"
    "awaits \<rho>1 = awaits \<rho>" "serving \<rho>1 = serving \<rho>" "callers \<rho>1 = callers \<rho>"
    by (rule handshake_comes [OF assms(4,9), of E L C N a]) blast
  let ?\<sigma>2 = "post (Cast_handshaker ?hello) (left_to_do ?P [] (core \<rho>1))"
  let ?\<rho>2 = "\<rho>1\<lparr>core := ?\<sigma>2, callers := enlist None (Cast_handshaker ?hello) (callers \<rho>1)\<rparr>"
  have 2: "?R \<rho>1 ?\<rho>2"
    unfolding runtime_step_def using rest
    by (intro disjI1 exI [of _ ?P] casts) (simp_all add: \<rho>1 fails_def gone_def)
  obtain x where "hs_handle_message E N I ?hello (sys_hs ?\<sigma>2) = ([], Inl x)"
    using hello_stamp_panics [OF assms(1) _ assms(8), of I "sys_hs ?\<sigma>2" hk hks hmacs] assms(3,6,7)
    by (simp add: \<rho>1 clock_ok_def left_to_do_def)
  moreover have "hs_mail ?\<sigma>2 = [?hello]" "?H \<notin> stopped ?\<sigma>2" "outbox ?\<sigma>2 ?H = []"
    using rest by (simp_all add: \<rho>1 left_to_do_def)
  ultimately obtain \<tau> where \<tau>: "activation E L C N ?H ?\<sigma>2 \<tau>" "outbox \<tau> = (outbox ?\<sigma>2)(?H := [])"
      "stopped \<tau> = insert ?H (stopped ?\<sigma>2)" "ph_mail \<tau> = ph_mail ?\<sigma>2" "received \<tau> = received ?\<sigma>2"
    using activation.hs_handles [of ?\<sigma>2 ?hello "[]" I E N "[]" "Inl x" L C] assms(2,3)
    by (fastforce simp: stops_def)
  let ?\<rho>3 = "?\<rho>2\<lparr>core := \<tau>, callers := (callers ?\<rho>2)(?H := []), serving := (serving ?\<rho>2)(?H := None)\<rparr>"
  have 3: "?R ?\<rho>2 ?\<rho>3"
    unfolding runtime_step_def using rest \<tau>(1)
    by (intro disjI1 exI [of _ ?H] takes) (simp_all add: \<rho>1 enlist_def)
  show ?thesis
  proof (rule that)
    show "?R\<^sup>*\<^sup>* \<rho> ?\<rho>3" using \<rho>1(1) 2 3 by (meson rtranclp.rtrancl_into_rtrancl)
  qed (use rest in \<open>simp_all add: gone_def at_rest_def \<tau> \<rho>1 enlist_def left_to_do_def\<close>)
qed

text \<open>
  C39. Two packets from anyone stop the node: a node whose actors are waiting for messages receives a \<open>Hello\<close> stamped \<open>2 ^ 63\<close> nanoseconds after
  its clock, and then any handshake packet. The first stops the handshaker; as the packet handler unwraps its cast to the handshaker, the
  second stops the packet handler too, which owns the socket: the node receives and sends nothing any more.
\<close>

theorem two_packets_stop_node:
  assumes "chrono_law E" and "draw_law I" and "clock_ok (now I)"
    and "at_rest \<rho> Packet_handler_actor" and "at_rest \<rho> Handshaker_actor"
    and "hashed_keys (sys_hs (core \<rho>)) = Some (hk # hks)" and "hmacs \<noteq> []" and "pkt_id p \<noteq> node_id N"
    and "pkt_p p = H \<lparr>hs_id = i, hs_step = Hello pk zone hmacs (now I + 2 ^ 63)\<rparr>" and "pkt_p q = H h"
  shows "\<exists>\<rho>'. (runtime_step E L C N)\<^sup>*\<^sup>* \<rho> \<rho>' \<and> received (core \<rho>') = received (core \<rho>) @ [(a, p), (b, q)] \<and>
    gone \<rho>' Handshaker_actor \<and> gone \<rho>' Packet_handler_actor"
proof -
  let ?P = Packet_handler_actor and ?H = Handshaker_actor and ?R = "runtime_step E L C N"
  obtain \<rho>1 where \<rho>1: "?R\<^sup>*\<^sup>* \<rho> \<rho>1" "received (core \<rho>1) = received (core \<rho>) @ [(a, p)]" "gone \<rho>1 ?H" "at_rest \<rho>1 ?P"
    by (rule bad_hello_comes [OF assms(1-9), of L C a]) blast
  obtain \<rho>2 where \<rho>2: "?R\<^sup>*\<^sup>* \<rho>1 \<rho>2" "outbox (core \<rho>2) = (outbox (core \<rho>1))(?P := [Cast_handshaker (Packet b h (pkt_id q))])"
    "stopped (core \<rho>2) = stopped (core \<rho>1)" "received (core \<rho>2) = received (core \<rho>1) @ [(b, q)]" "awaits \<rho>2 = awaits \<rho>1"
    by (rule handshake_comes [OF \<rho>1(4) assms(10), of E L C N b]) blast
  have gone: "gone \<rho>2 ?H" using \<rho>1(3) by (simp add: gone_def \<rho>2)
  have "?R \<rho>2 (ends ?P \<rho>2)"
    unfolding runtime_step_def using \<rho>1(4) gone
    by (intro disjI1 exI [of _ ?P] panics) (auto simp: \<rho>2 fails_def at_rest_def)
  with \<rho>1(1) \<rho>2(1) have "?R\<^sup>*\<^sup>* \<rho> (ends ?P \<rho>2)" by (meson rtranclp.rtrancl_into_rtrancl rtranclp_trans)
  moreover have "gone (ends ?P \<rho>2) ?H" "gone (ends ?P \<rho>2) ?P" using gone by (simp_all add: gone_def ends_def)
  moreover have "received (core (ends ?P \<rho>2)) = received (core \<rho>) @ [(a, p), (b, q)]"
    by (simp add: ends_def left_to_do_def \<rho>2 \<rho>1)
  ultimately show ?thesis by blast
qed

theorem two_packets_stop_node_witness:
  "\<exists>\<rho> \<rho>'. sample_runtime_step\<^sup>*\<^sup>* \<rho> \<rho>' \<and> stopped (core \<rho>) = {} \<and>
     gone \<rho>' Handshaker_actor \<and> gone \<rho>' Packet_handler_actor"
proof -
  let ?\<sigma> = "calm (packet_handler_new sample_lru) (handshaker_new\<lparr>hashed_keys := Some [[]]\<rparr>) peer_manager_new [] [] [] []"
  let ?h = "\<lparr>hs_id = 5, hs_step = Hello [] None [\<lparr>hmac_hash = [], hmac_message = []\<rparr>] (now sample_inputs + 2 ^ 63)\<rparr>"
  let ?p = "\<lparr>pkt_s = Seq 1, pkt_id = 7, pkt_p = H ?h\<rparr>"
  have rest: "at_rest (runtime_of ?\<sigma>) a" for a by (cases a) (simp_all add: at_rest_def runtime_of_def calm_def)
  have keys: "hashed_keys (sys_hs (core (runtime_of ?\<sigma>))) = Some ([] # [])" by (simp add: runtime_of_def calm_def)
  have clock: "clock_ok (now sample_inputs)" by (simp add: clock_ok_def) (simp add: sample_inputs_def)
  have "stopped (core (runtime_of ?\<sigma>)) = {}" by (simp add: runtime_of_def calm_def)
  moreover have "\<exists>\<rho>'. sample_runtime_step\<^sup>*\<^sup>* (runtime_of ?\<sigma>) \<rho>' \<and>
      received (core \<rho>') = received (core (runtime_of ?\<sigma>)) @ [(sample_addr, ?p), (sample_addr, ?p)] \<and>
      gone \<rho>' Handshaker_actor \<and> gone \<rho>' Packet_handler_actor"
    by (rule two_packets_stop_node [where hmacs = "[\<lparr>hmac_hash = [], hmac_message = []\<rparr>]",
          OF _ sample_draw_law clock rest rest keys]) (simp_all add: node_two_def)
  ultimately show ?thesis by blast
qed

end
