(* ===== verification/Join_Props.thy ===== *)
theory Join_Props
  imports System_Props
begin

text \<open>
  A node joins another one, through all six actors: the handshake, the reports to the peer managers, the keys they hand on to the
  packet handlers, the subscription that is asked for when the handshake has ended, and a broadcast. Every message that an
  activation handles here is an effect of an earlier one.
\<close>

subsection \<open>Messages between packet handlers\<close>

lemma u32_add_one: "a \<noteq> - 1 \<Longrightarrow> u32_add chk a 1 = Inr (a + 1)"
proof -
  assume "a \<noteq> - 1"
  then have "unat a \<noteq> unat (- 1 :: u32)" by (metis word_unat_eq_iff)
  moreover have "unat (- 1 :: u32) = 2 ^ 32 - 1" by (simp add: unsigned_minus_1_eq_mask mask_eq_exp_minus_1)
  moreover have "unat a < 2 ^ 32" using unsigned_less [of a] by simp
  ultimately show ?thesis by (simp add: u32_add_def)
qed

lemma run_first: "e \<in> set (fst (h x m s)) \<Longrightarrow> e \<in> set (fst (run h ((x, m) # ms) s))"
  by (simp add: then_do_effects)

lemma run_later: "h x m s = (es, Inr s') \<Longrightarrow> e \<in> set (fst (run h ms s')) \<Longrightarrow> e \<in> set (fst (run h ((x, m) # ms) s))"
  by (simp add: then_do_Inr)

text \<open>A request that is received for the first time is cast to the peer manager; keys and socket stay.\<close>

lemma recv_request:
  assumes "codec_law E" and "pkt_p pkt = B c n" and "decrypt E (ph_keys s) (pkt_id pkt) c n = Some m"
    and "msg_body m = PeerRequest r" and "\<not> lru_contains L (seen s) (msg_id m)"
    and "\<And>q. rx_sequences s from = Some q \<Longrightarrow> seq_deref q \<noteq> - 1"
  obtains es s' where "ph_handle_message E L N I (Recv from pkt) s = (es, Inr s')"
    "ph_keys s' = ph_keys s" "ph_socket s' = ph_socket s" "Cast_peer_manager (Request (pkt_id pkt) r) \<in> set es"
proof -
  have "\<exists>es s'. ph_handle_message E L N I (Recv from pkt) s = (es, Inr s') \<and> ph_keys s' = ph_keys s \<and>
      ph_socket s' = ph_socket s \<and> Cast_peer_manager (Request (pkt_id pkt) r) \<in> set es"
    using assms(6)
    by (cases "rx_sequences s from")
      (simp_all add: recv_def with_state_apply assms(2-5) then_do_def modify_apply recv_peer_request_def put_seen_def act_simps
        send_broadcast_to_subscribers_def send_nak_def encrypt_and_send_message_def encrypt_and_send_messages_eq [OF assms(1)] u32_add_one)
  with that show ?thesis by blast
qed

text \<open>Sending a message changes neither keys nor handler, and its id is then known.\<close>

lemma send_message:
  assumes "codec_law E" and "box_law E valid" and "valid kp" and "valid kp'"
    and "ph_socket s = Some sock" and "ph_keys s b = Some (addr, kp, public_key kp')"
  obtains q c n es s' where "ph_handle_message E L N I (SendMessage b m) s = (es, Inr s')" "Send_to sock (packet_bytes E q) addr \<in> set es"
    "packet_from_slice E (packet_bytes E q) = Some q" "pkt_p q = B c n" "pkt_id q = node_id N"
    "\<And>ks i a. ks i = Some (a, kp', public_key kp) \<Longrightarrow> decrypt E ks i c n = Some (wire_message m)"
    "ph_keys s' = ph_keys s" "broadcast_handler_async s' = broadcast_handler_async s" "seen s' = lru_put L (msg_id m) (seen s)"
proof -
  obtain q c n where q: "Send_to sock (packet_bytes E q) addr \<in> set (fst (encrypt_and_send_messages E L N I 0 [b] m s))"
    "packet_from_slice E (packet_bytes E q) = Some q" "pkt_p q = B c n" "pkt_id q = node_id N"
    and d: "\<And>ks i a. ks i = Some (a, kp', public_key kp) \<Longrightarrow> decrypt E ks i c n = Some (wire_message m)"
    by (rule sent_message_arrives [where L = L and N = N and I = I and base = 0 and m = m and ts = "[b]" and s = s and b = b, OF assms(1-5)])
      (use assms(6) in auto)
  let ?ps = "encrypt_all E I 0 (ph_keys s) [b] m"
  have h: "ph_handle_message E L N I (SendMessage b m) s =
      (sent_of E N ?ps s, Inr ((counted N ?ps s)\<lparr>seen := lru_put L (msg_id m) (seen s)\<rparr>))"
    by (simp add: encrypt_and_send_message_def encrypt_and_send_messages_eq [OF assms(1)])
  show ?thesis
    by (rule that [OF h _ q(2-4) d]) (use q(1) in \<open>simp_all add: encrypt_and_send_messages_eq [OF assms(1)]\<close>)
qed

subsection \<open>Joining\<close>

text \<open>
  The handshake between the handshakers \<open>s\<close> of the node \<open>N\<close> at address \<open>a\<close> and \<open>t\<close> of the node \<open>M\<close> at address \<open>b\<close>: each message is
  the one that the activation before it sent. \<open>esM\<close> and \<open>esN\<close> are the effects of the last activation on either side.
\<close>

definition handshake_between ::
    "externals \<Rightarrow> nodeinfo \<Rightarrow> nodeinfo \<Rightarrow> sockaddr \<Rightarrow> sockaddr \<Rightarrow> and_then option \<Rightarrow> (nat \<Rightarrow> inputs) \<Rightarrow> handshaker \<Rightarrow> handshaker \<Rightarrow>
     effect list \<Rightarrow> effect list \<Rightarrow> bool" where
  "handshake_between E N M a b aft I s t esM esN \<longleftrightarrow> (\<exists>h1 h2 h3 h4 delay s1 s2 s3 t1 t2.
     hs_handle_message E N (I 1) (SendHello b aft) s = ([Cast_packet_handler (Send b (H h1))], Inr s1) \<and>
     hs_handle_message E M (I 2) (Packet a h1 (node_id N)) t = ([Spawn_call_packet_handler delay (Send a (H h2))], Inr t1) \<and>
     hs_handle_message E N (I 3) (Packet b h2 (node_id M)) s1 = ([Call_packet_handler (Send b (H h3))], Inr s2) \<and>
     hs_handle_message E M (I 4) (Packet a h3 (node_id N)) t1 = (esM, Inr t2) \<and> Call_packet_handler (Send a (H h4)) \<in> set esM \<and>
     hs_handle_message E N (I 5) (Packet b h4 (node_id M)) s2 = (esN, Inr s3))"

text \<open>What the assumptions say of the two nodes before they meet.\<close>

definition may_meet :: "externals \<Rightarrow> nodeinfo \<Rightarrow> nodeinfo \<Rightarrow> (nat \<Rightarrow> inputs) \<Rightarrow> handshaker \<Rightarrow> handshaker \<Rightarrow> bool" where
  "may_meet E N M I s t \<longleftrightarrow> node_id N \<noteq> node_id M \<and> set (node_keys N) \<inter> set (node_keys M) \<noteq> {} \<and>
     hashed_keys s = Some (key_hashes E N) \<and> hashed_keys t = Some (key_hashes E M) \<and>
     clock_ok (now (I 1)) \<and> clock_ok (now (I 2)) \<and> clock_ok (now (I 3)) \<and>
     in_window (now (I 2)) (now (I 1)) \<and> in_window (now (I 3)) (now (I 1))"

lemma handshake_between_reports:
  fixes a b :: sockaddr
  assumes "chrono_law E" and "hash_law E" and "may_meet E N M I s t"
  defines "p \<equiv> peer_new (keypair_gen (I 2)) (Some (public_key (keypair_gen (I 1)))) a (node_id N) (Some (now (I 1))) (node_zone N)"
    and "q \<equiv> peer_new (keypair_gen (I 1)) (Some (public_key (keypair_gen (I 2)))) b (node_id M) (Some (now (I 1))) (node_zone M)"
  shows "\<exists>e. handshake_between E N M a b (Some (AndThen_start_subscription i)) I s t [peer_up M p, e]
    [peer_up N q, Cast_packet_handler (SendMessage i (peer_message (new_v4 (I 5) 0) StartSubscription))]"
proof -
  from assms(3) have meet: "node_id N \<noteq> node_id M" "set (node_keys N) \<inter> set (node_keys M) \<noteq> {}"
    "hashed_keys s = Some (key_hashes E N)" "hashed_keys t = Some (key_hashes E M)"
    "clock_ok (now (I 1))" "clock_ok (now (I 2))" "clock_ok (now (I 3))"
    "in_window (now (I 2)) (now (I 1))" "in_window (now (I 3)) (now (I 1))"
    unfolding may_meet_def by blast+
  show ?thesis
    by (rule handshake_steps [OF assms(1,2) meet, of b "Some (AndThen_start_subscription i)" a "I 4" "I 5"])
      (auto simp: handshake_between_def p_def q_def send_start_subscription_def emit_apply simp del: One_nat_def)
qed

text \<open>The request for a subscription arrives at the other peer manager.\<close>

lemma request_arrives:
  assumes "codec_law E" and "box_law E valid" and "valid kp" and "valid kp'"
    and "ph_socket s = Some sock" and "ph_socket t = Some sock'"
    and "ph_keys s (node_id N) = Some (a, kp, public_key kp')" and "ph_keys t (node_id M) = Some (b, kp', public_key kp)"
    and "\<not> lru_contains L (seen s) u" and "\<And>q. rx_sequences s a = Some q \<Longrightarrow> seq_deref q \<noteq> - 1"
  obtains bs pkt es t' es' s' where
    "ph_handle_message E L N K (SendMessage (node_id M) (peer_message u StartSubscription)) t = (es, Inr t')"
    "Send_to sock' bs b \<in> set es" "packet_from_slice E bs = Some pkt"
    "ph_keys t' = ph_keys t" "broadcast_handler_async t' = broadcast_handler_async t" "seen t' = lru_put L u (seen t)"
    "ph_handle_message E L M J (Recv a pkt) s = (es', Inr s')" "Cast_peer_manager (Request (node_id N) StartSubscription) \<in> set es'"
    "ph_keys s' = ph_keys s" "ph_socket s' = Some sock"
proof -
  let ?m = "peer_message u StartSubscription"
  obtain pkt c n es t' where ask: "ph_handle_message E L N K (SendMessage (node_id M) ?m) t = (es, Inr t')"
      "Send_to sock' (packet_bytes E pkt) b \<in> set es" "packet_from_slice E (packet_bytes E pkt) = Some pkt" "pkt_p pkt = B c n"
      "pkt_id pkt = node_id N" "ph_keys t' = ph_keys t" "broadcast_handler_async t' = broadcast_handler_async t" "seen t' = lru_put L u (seen t)"
    and dec: "\<And>ks i a. ks i = Some (a, kp, public_key kp') \<Longrightarrow> decrypt E ks i c n = Some (wire_message ?m)"
    by (rule send_message [where s = t and b = "node_id M" and L = L and N = N and I = K and m = ?m, OF assms(1,2,4,3,6,8)])
      (auto simp: peer_message_def)
  have "decrypt E (ph_keys s) (pkt_id pkt) c n = Some ?m"
    using dec [of "ph_keys s" "node_id N" a] assms(7) ask(5) by (simp add: peer_message_def)
  then obtain es' s' where "ph_handle_message E L M J (Recv a pkt) s = (es', Inr s')" "ph_keys s' = ph_keys s" "ph_socket s' = Some sock"
      "Cast_peer_manager (Request (node_id N) StartSubscription) \<in> set es'"
    using recv_request [where s = s and pkt = pkt and c = c and n = n and m = ?m and r = StartSubscription and ?from = a
        and L = L and N = M and I = J, OF assms(1) ask(4)] assms(5,9,10) ask(5) by (auto simp: peer_message_def)
  with ask show ?thesis by (intro that) auto
qed



end
