(* ===== verification/Cluster.thy ===== *)
theory Cluster
  imports Packet_Handler_Props
begin

text \<open>
  Several nodes that gossip: the packet handlers of a cluster, connected by a network that may delay, reorder, repeat and
  lose datagrams. The overlay, that is who has whose keys and who subscribes to whom, is fixed; it is what completed
  handshakes leave behind (two nodes that know each other hold matching keys). Each step is one activation of the packet
  handler of one node, on a message of its own node or on a datagram that some node of the cluster has sent.
\<close>

subsection \<open>The overlay\<close>

record overlay =
  members :: "uuid set"
  info :: "uuid \<Rightarrow> nodeinfo"
  address :: "uuid \<Rightarrow> sockaddr"
  link_keys :: "uuid \<Rightarrow> keys"
  link_subscribers :: "uuid \<Rightarrow> uuid list"
  handler_of :: "uuid \<Rightarrow> nat option"

definition matching_keys :: "(keypair \<Rightarrow> bool) \<Rightarrow> overlay \<Rightarrow> bool" where
  "matching_keys valid W \<longleftrightarrow>
     (\<forall>u \<in> members W. \<forall>b a kp pk. link_keys W u b = Some (a, kp, pk) \<longrightarrow>
        b \<in> members W \<and> a = address W b \<and> valid kp \<and>
        (\<exists>kp'. valid kp' \<and> pk = public_key kp' \<and> link_keys W b u = Some (address W u, kp', public_key kp)))"

definition overlay_ok :: "(keypair \<Rightarrow> bool) \<Rightarrow> overlay \<Rightarrow> bool" where
  "overlay_ok valid W \<longleftrightarrow>
     matching_keys valid W \<and> inj_on (address W) (members W) \<and> (\<forall>u \<in> members W. node_id (info W u) = u)"

text \<open>The directed edges along which broadcasts travel: from a node to each subscriber whose keys it has.\<close>

definition links :: "overlay \<Rightarrow> (uuid \<times> uuid) set" where
  "links W = {(u, b). u \<in> members W \<and> b \<in> set (link_subscribers W u) \<and> link_keys W u b \<noteq> None}"

subsection \<open>The cluster and its steps\<close>

text \<open>
  A datagram is the address it was sent from, its bytes, and the address it was sent to. \<open>handed\<close> is the data that each
  node's handler was given; \<open>originated\<close> records the broadcasts, by message id, and \<open>drawn\<close> the ids of all other messages.
\<close>

type_synonym datagram = "sockaddr \<times> bytes \<times> sockaddr"

record 'c cluster =
  member :: "uuid \<Rightarrow> 'c packet_handler"
  wire :: "datagram set"
  delivered :: "datagram set"
  handed :: "uuid \<Rightarrow> bytes list"
  originated :: "uuid \<rightharpoonup> uuid \<times> bytes"
  drawn :: "uuid set"

fun sent_datagram :: "externals \<Rightarrow> sockaddr \<Rightarrow> effect \<Rightarrow> datagram set" where
  "sent_datagram E a (Send_to sock bs b) = {(a, bs, b)}"
| "sent_datagram E a (Spawn_send_to w sock p b) = (case packet_to_vec E p of Some bs \<Rightarrow> {(a, bs, b)} | None \<Rightarrow> {})"
| "sent_datagram E a e = {}"

fun handed_data :: "effect \<Rightarrow> bytes list" where
  "handed_data (Handle_broadcast h data) = [data]"
| "handed_data e = []"

text \<open>What the other parts of a node make its packet handler do while the overlay does not change.\<close>

fun steady :: "packet_handler_message \<Rightarrow> bool" where
  "steady (Send a (H h)) = True"
| "steady (SendMessage t m) = (\<exists>r. msg_body m = PeerRequest r)"
| "steady (SendBroadcast data) = True"
| "steady (BroadcastPeerStatus st) = True"
| "steady RateControl = True"
| "steady m = False"

text \<open>The ids of new messages other than broadcasts in an activation, and that no id of a broadcast is drawn a second time.\<close>

fun new_ids :: "inputs \<Rightarrow> packet_handler_message \<Rightarrow> uuid set" where
  "new_ids I (SendMessage t m) = {msg_id m}"
| "new_ids I (BroadcastPeerStatus st) = {new_v4 I 0}"
| "new_ids I (Recv a p) = {new_v4 I 0}"
| "new_ids I m = {}"

definition new_broadcasts :: "uuid \<Rightarrow> inputs \<Rightarrow> packet_handler_message \<Rightarrow> (uuid \<rightharpoonup> uuid \<times> bytes)" where
  "new_broadcasts u I m = (case m of SendBroadcast data \<Rightarrow> [new_v4 I 0 \<mapsto> (u, data)] | _ \<Rightarrow> Map.empty)"

definition unique_ids :: "uuid \<Rightarrow> inputs \<Rightarrow> packet_handler_message \<Rightarrow> 'c cluster \<Rightarrow> bool" where
  "unique_ids u I m c \<longleftrightarrow>
     new_ids I m \<inter> dom (originated c) = {} \<and>
     dom (new_broadcasts u I m) \<inter> (drawn c \<union> dom (originated c)) = {}"

definition after_activation ::
    "externals \<Rightarrow> overlay \<Rightarrow> uuid \<Rightarrow> inputs \<Rightarrow> packet_handler_message \<Rightarrow> effect list \<Rightarrow> 'c packet_handler \<Rightarrow> 'c cluster \<Rightarrow> 'c cluster" where
  "after_activation E W u I m es s c = c\<lparr>
     member := (member c)(u := s),
     wire := wire c \<union> (\<Union>e \<in> set es. sent_datagram E (address W u) e),
     handed := (handed c)(u := handed c u @ concat (map handed_data es)),
     originated := originated c ++ new_broadcasts u I m,
     drawn := drawn c \<union> new_ids I m\<rparr>"

inductive cluster_step :: "externals \<Rightarrow> 'c lru \<Rightarrow> overlay \<Rightarrow> 'c cluster \<Rightarrow> 'c cluster \<Rightarrow> bool"
  for E L W where
  acts: "u \<in> members W \<Longrightarrow> steady m \<Longrightarrow> unique_ids u I m c \<Longrightarrow>
    ph_handle_message E L (info W u) I m (member c u) = (es, Inr s) \<Longrightarrow>
    cluster_step E L W c (after_activation E W u I m es s c)"
| receives: "u \<in> members W \<Longrightarrow> (a, bs, address W u) \<in> wire c \<Longrightarrow> packet_from_slice E bs = Some p \<Longrightarrow>
    unique_ids u I (Recv a p) c \<Longrightarrow>
    ph_handle_message E L (info W u) I (Recv a p) (member c u) = (es, Inr s) \<Longrightarrow>
    cluster_step E L W c ((after_activation E W u I (Recv a p) es s c)
      \<lparr>delivered := insert (a, bs, address W u) (delivered c)\<rparr>)"

text \<open>The members are configured as the overlay says.\<close>

definition configured :: "overlay \<Rightarrow> uuid \<Rightarrow> 'c packet_handler \<Rightarrow> bool" where
  "configured W u s \<longleftrightarrow>
     ph_socket s \<noteq> None \<and> ph_keys s = link_keys W u \<and> ph_subscribers s = link_subscribers W u \<and>
     broadcast_handler_async s = handler_of W u"

text \<open>A cluster before any of its nodes has sent or broadcast anything; the ids that are remembered count as drawn.\<close>

definition quiet :: "'c lru \<Rightarrow> overlay \<Rightarrow> 'c cluster \<Rightarrow> bool" where
  "quiet L W c \<longleftrightarrow>
     (\<forall>u \<in> members W. configured W u (member c u) \<and> handed c u = [] \<and>
        (\<forall>i. lru_contains L (seen (member c u)) i \<longrightarrow> i \<in> drawn c)) \<and>
     wire c = {} \<and> delivered c = {} \<and> originated c = Map.empty"

subsection \<open>What one activation sends\<close>

text \<open>A datagram of \<open>u\<close> for \<open>v\<close> that \<open>v\<close> decrypts to the message \<open>m\<close>.\<close>

definition carries :: "externals \<Rightarrow> overlay \<Rightarrow> datagram \<Rightarrow> uuid \<Rightarrow> uuid \<Rightarrow> message \<Rightarrow> bool" where
  "carries E W d u v m \<longleftrightarrow> u \<in> members W \<and> v \<in> members W \<and>
     (\<exists>q x n. d = (address W u, packet_bytes E q, address W v) \<and> pkt_id q = u \<and> pkt_p q = B x n \<and>
        decrypt E (link_keys W v) u x n = Some m)"

text \<open>A datagram that carries a handshake.\<close>

definition handshakes :: "externals \<Rightarrow> datagram \<Rightarrow> bool" where
  "handshakes E d \<longleftrightarrow> (\<exists>a b q h. d = (a, packet_bytes E q, b) \<and> pkt_p q = H h)"

lemma encrypt_all_box:
  assumes "(p, a) \<in> set (encrypt_all E I base ks ts m)"
  shows "\<exists>v \<in> set ts. \<exists>kp pk x n. ks v = Some (a, kp, pk) \<and> p = B x n \<and> encrypt E n m kp pk = Inr (Some (x, n))"
proof -
  from assms obtain k kp pk where k: "(k, a, kp, pk) \<in> set (enumerate 0 (List.map_filter ks ts))"
    and p: "(case encrypt E (nonce_gen I (base + k)) m kp pk of
       Inr (Some (x, n)) \<Rightarrow> Some (B x n, a) | _ \<Rightarrow> None) = Some (p, a)"
    by (auto simp: encrypt_all_def in_set_map_filter split: sum.splits option.splits)
  from k have "(a, kp, pk) \<in> set (List.map_filter ks ts)" by (metis enumerate_mem)
  then obtain v where "v \<in> set ts" "ks v = Some (a, kp, pk)" by (auto simp: in_set_map_filter)
  moreover from p obtain x n where "encrypt E (nonce_gen I (base + k)) m kp pk = Inr (Some (x, n))" "p = B x n"
    by (auto split: sum.splits option.splits)
  moreover from this(1) have "n = nonce_gen I (base + k)"
    by (auto simp: encrypt_def bind_result_def split: sum.splits)
  ultimately show ?thesis by blast
qed

text \<open>Between members with matching keys every box that is sent decrypts to its message.\<close>

lemma encrypted_carries:
  assumes "codec_law E" and "box_law E valid" and "overlay_ok valid W" and "u \<in> members W"
    and "(p, a) \<in> set (encrypt_all E I base (link_keys W u) ts m)" and "pkt_p q = p" and "pkt_id q = u"
  shows "\<exists>v \<in> set ts. carries E W (address W u, packet_bytes E q, a) u v (wire_message m)"
proof -
  obtain v kp pk x n where v: "v \<in> set ts" "link_keys W u v = Some (a, kp, pk)" "p = B x n"
    "encrypt E n m kp pk = Inr (Some (x, n))"
    using encrypt_all_box [OF assms(5)] by blast
  then obtain kp' where kp': "v \<in> members W" "a = address W v" "valid kp" "valid kp'" "pk = public_key kp'"
    "link_keys W v u = Some (address W u, kp', public_key kp)"
    using assms(3,4) unfolding overlay_ok_def matching_keys_def by blast
  from encrypt_decrypt [OF assms(1,2) kp'(3,4), of n m] v(4) kp'(5,6)
  have "decrypt E (link_keys W v) u x n = Some (wire_message m)" by auto
  with v(1,3) kp'(1,2) assms(4,6,7) show ?thesis unfolding carries_def by blast
qed

lemma carriesD:
  assumes "codec_law E" and "overlay_ok valid W" and "carries E W (a, bs, address W w) u v m"
    and "packet_from_slice E bs = Some p" and "w \<in> members W"
  shows "v = w \<and> a = address W u \<and> pkt_id p = u \<and> (\<exists>x n. pkt_p p = B x n \<and> decrypt E (link_keys W w) u x n = Some m)"
  using assms codec_lawD(3) [OF assms(1)]
  unfolding carries_def overlay_ok_def by (auto dest: inj_onD)

lemma carries_unique:
  assumes "codec_law E" and "overlay_ok valid W" and "carries E W d u v m" and "carries E W d u' v' m'"
  shows "u' = u \<and> v' = v \<and> m' = m"
proof -
  from assms(3) obtain q where d: "d = (address W u, packet_bytes E q, address W v)" "v \<in> members W"
    by (auto simp: carries_def)
  note D = carriesD [OF assms(1,2) _ codec_lawD(3) [OF assms(1), of q] d(2), of "address W u"]
  from D [of u v m] D [of u' v' m'] assms(3,4) show ?thesis by (auto simp: d(1))
qed

lemma handshakes_not_carries: "codec_law E \<Longrightarrow> handshakes E d \<Longrightarrow> \<not> carries E W d u v m"
  unfolding handshakes_def carries_def by (metis codec_lawD(3) option.inject payload.distinct(1) prod.inject)

text \<open>
  An effect of node \<open>u\<close> that sends only messages that satisfy \<open>M\<close> for their target, or handshakes, and gives the handler
  only data that satisfies \<open>D\<close>.
\<close>

fun spreads ::
    "externals \<Rightarrow> overlay \<Rightarrow> uuid \<Rightarrow> (uuid \<Rightarrow> message \<Rightarrow> bool) \<Rightarrow> (bytes \<Rightarrow> bool) \<Rightarrow> effect \<Rightarrow> bool" where
  "spreads E W u M D (Send_to sock bs b) = (\<exists>v m. M v m \<and> carries E W (address W u, bs, b) u v (wire_message m))"
| "spreads E W u M D (Spawn_send_to w sock p b) = (\<exists>h. pkt_p p = H h)"
| "spreads E W u M D (Handle_broadcast h data) = D data"
| "spreads E W u M D e = True"

definition see_spread ::
    "externals \<Rightarrow> overlay \<Rightarrow> uuid \<Rightarrow> (uuid \<Rightarrow> message \<Rightarrow> bool) \<Rightarrow> (bytes \<Rightarrow> bool) \<Rightarrow> effect \<Rightarrow> bool \<Rightarrow> bool" where
  "see_spread E W u M D e v \<longleftrightarrow> v \<and> spreads E W u M D e"

definition spread_rel :: "'c lru \<Rightarrow> overlay \<Rightarrow> uuid \<Rightarrow> uuid set \<Rightarrow> bool \<Rightarrow> 'c packet_handler \<Rightarrow> bool" where
  "spread_rel L W u S v s \<longleftrightarrow> v \<and> configured W u s \<and> (\<forall>i. lru_contains L (seen s) i \<longrightarrow> i \<in> S)"

lemma fold_see_spread: "fold (see_spread E W u M D) es v \<longleftrightarrow> v \<and> (\<forall>e \<in> set es. spreads E W u M D e)"
  by (induction es arbitrary: v) (auto simp: see_spread_def)

lemma keeps_spread_emit:
  "spreads E W u M D e \<Longrightarrow> keeps (see_spread E W u M D) (spread_rel L W u S) (emit e)"
  by (rule keeps_emit) (simp add: spread_rel_def see_spread_def)

lemma keeps_spread_modify:
  "(\<And>s. configured W u (f s) = configured W u s \<and> seen (f s) = seen s) \<Longrightarrow>
     keeps (see_spread E W u M D) (spread_rel L W u S) (modify f)"
  by (rule keeps_modify) (simp add: spread_rel_def)

lemma lru_contains_put: "lru_law L \<Longrightarrow> lru_contains L (lru_put L k c) i \<Longrightarrow> i = k \<or> lru_contains L c i"
  unfolding lru_law_def by blast

lemma number_packets_payload: "(q, a) \<in> set (snd (number_packets N ps txs)) \<Longrightarrow> (pkt_p q, a) \<in> set ps"
  by (induction ps arbitrary: txs) (fastforce simp: Let_def)+

lemma keeps_spread_put:
  "lru_law L \<Longrightarrow> i \<in> S \<Longrightarrow> keeps (see_spread E W u M D) (spread_rel L W u S) (put_seen L i)"
  unfolding put_seen_def
  by (rule keeps_modify) (auto simp: spread_rel_def configured_def dest: lru_contains_put)

lemmas keeps_spread = keeps_do_all keeps_then keeps_skip keeps_with_state keeps_with_result keeps_foreach
  keeps_spread_emit keeps_spread_modify keeps_spread_put

lemma configured_update [simp]:
  "configured W u (s\<lparr>rx_sequences := rx\<rparr>) = configured W u s" "configured W u (s\<lparr>tx_sequences := tx\<rparr>) = configured W u s"
  "configured W u (s\<lparr>last_tx := lt\<rparr>) = configured W u s" "configured W u (s\<lparr>tx_delay := td\<rparr>) = configured W u s"
  "configured W u (s\<lparr>nak_count := nc\<rparr>) = configured W u s" "configured W u (s\<lparr>seen := c\<rparr>) = configured W u s"
  "configured W u (counted N ps s) = configured W u s"
  by (simp_all add: configured_def)

lemma keeps_spread_messages:
  assumes "codec_law E" and "lru_law L" and "box_law E valid" and "overlay_ok valid W" and "u \<in> members W"
    and "msg_id m \<in> S" and "\<And>v. v \<in> set ts \<Longrightarrow> M v m"
  shows "keeps (see_spread E W u M D) (spread_rel L W u S) (encrypt_and_send_messages E L (info W u) I base ts m)"
  unfolding keeps_def encrypt_and_send_messages_eq [OF assms(1)]
proof (intro allI impI, clarify)
  fix v and s :: "'a packet_handler"
  assume rel: "spread_rel L W u S v s"
  let ?ps = "encrypt_all E I base (ph_keys s) ts m"
  have id: "node_id (info W u) = u" using assms(4,5) by (simp add: overlay_ok_def)
  have "spreads E W u M D e" if "e \<in> set (sent_of E (info W u) ?ps s)" for e
  proof -
    from that obtain sock q a where e: "e = Send_to sock (packet_bytes E q) a"
      and q: "(q, a) \<in> set (snd (number_packets (info W u) ?ps (tx_sequences s)))"
      by (auto simp: sent_of_def send_effects_def split: option.splits)
    from q have "(pkt_p q, a) \<in> set ?ps" by (rule number_packets_payload)
    moreover have "pkt_id q = u" using number_packets_id [OF q] id by simp
    ultimately obtain t where "t \<in> set ts" "carries E W (address W u, packet_bytes E q, a) u t (wire_message m)"
      using encrypted_carries [OF assms(1,3,4,5) _ refl, of q a I base ts m] rel
      by (auto simp: spread_rel_def configured_def)
    with e assms(7) show ?thesis by auto
  qed
  moreover have "i \<in> S" if "lru_contains L (lru_put L (msg_id m) (seen s)) i" for i
    using that rel assms(6) by (auto simp: spread_rel_def dest: lru_contains_put [OF assms(2)])
  ultimately show "spread_rel L W u S (fold (see_spread E W u M D) (sent_of E (info W u) ?ps s) v)
      ((counted (info W u) ?ps s)\<lparr>seen := lru_put L (msg_id m) (seen s)\<rparr>)"
    using rel by (simp add: spread_rel_def fold_see_spread)
qed

text \<open>
  What an activation may send to which node: a broadcast, a peer status or a received message to the subscribers, a request
  to its target, and a \<open>Nak\<close> to the sender of a packet.
\<close>

definition forwards :: "message \<Rightarrow> bool" where
  "forwards m \<longleftrightarrow> (\<exists>data. msg_body m = Broadcast data) \<or> (\<exists>r. msg_body m = PeerRequest r)"

fun may_send ::
    "externals \<Rightarrow> 'c lru \<Rightarrow> 'c packet_handler \<Rightarrow> inputs \<Rightarrow> packet_handler_message \<Rightarrow> uuid \<Rightarrow> message \<Rightarrow> bool" where
  "may_send E L s I (SendMessage t x) v m = (v = t \<and> m = x)"
| "may_send E L s I (SendBroadcast data) v m =
     (v \<in> set (ph_subscribers s) \<and> m = \<lparr>msg_id = new_v4 I 0, msg_body = Broadcast data\<rparr>)"
| "may_send E L s I (BroadcastPeerStatus st) v m =
     (v \<in> set (ph_subscribers s) \<and> m = \<lparr>msg_id = new_v4 I 0, msg_body = PeerRequest (PeerStatus st)\<rparr>)"
| "may_send E L s I (Recv a p) v m =
     ((v \<in> set (ph_subscribers s) \<and> forwards m \<and> \<not> lru_contains L (seen s) (msg_id m) \<and>
         (\<exists>x n. pkt_p p = B x n \<and> decrypt E (ph_keys s) (pkt_id p) x n = Some m)) \<or>
      (msg_id m = new_v4 I 0 \<and> (\<exists>lo hi. msg_body m = Nak lo hi)))"
| "may_send E L s I x v m = False"

fun may_hand :: "externals \<Rightarrow> 'c packet_handler \<Rightarrow> packet_handler_message \<Rightarrow> bytes \<Rightarrow> bool" where
  "may_hand E s (Recv a p) data =
     (\<exists>x n i. pkt_p p = B x n \<and> decrypt E (ph_keys s) (pkt_id p) x n = Some \<lparr>msg_id = i, msg_body = Broadcast data\<rparr>)"
| "may_hand E s m data = False"

text \<open>The ids that an activation may put into the cache.\<close>

fun may_put :: "externals \<Rightarrow> 'c packet_handler \<Rightarrow> inputs \<Rightarrow> packet_handler_message \<Rightarrow> uuid set" where
  "may_put E s I (SendMessage t x) = {msg_id x}"
| "may_put E s I (SendBroadcast data) = {new_v4 I 0}"
| "may_put E s I (BroadcastPeerStatus st) = {new_v4 I 0}"
| "may_put E s I (Recv a p) = insert (new_v4 I 0)
     {msg_id m | m x n. pkt_p p = B x n \<and> decrypt E (ph_keys s) (pkt_id p) x n = Some m \<and> forwards m}"
| "may_put E s I m = {}"

lemma keeps_spread_recv_body:
  assumes "codec_law E" and "lru_law L" and "box_law E valid" and "overlay_ok valid W" and "u \<in> members W"
    and "forwards m \<Longrightarrow> msg_id m \<in> S" and "\<And>v. forwards m \<Longrightarrow> v \<in> set subs \<Longrightarrow> M v m"
    and "\<And>data. msg_body m = Broadcast data \<Longrightarrow> D data" and "link_subscribers W u = subs"
  shows "keeps (see_spread E W u M D) (spread_rel L W u S) (recv_body E L (info W u) I a i (msg_id m) (msg_body m))"
proof -
  have forward: "keeps (see_spread E W u M D) (spread_rel L W u S) (send_broadcast_to_subscribers E L (info W u) I m)"
    if "forwards m"
    unfolding keeps_def send_broadcast_to_subscribers_def with_state_apply
  proof (intro allI impI)
    fix v s es s'
    assume rel: "spread_rel L W u S v s"
      and run: "encrypt_and_send_messages E L (info W u) I 0 (ph_subscribers s) m s = (es, Inr s')"
    from rel have "ph_subscribers s = subs" by (simp add: spread_rel_def configured_def assms(9))
    then have "keeps (see_spread E W u M D) (spread_rel L W u S)
        (encrypt_and_send_messages E L (info W u) I 0 (ph_subscribers s) m)"
      using that by (intro keeps_spread_messages [OF assms(1-5)]) (auto intro: assms(6,7))
    from keepsD [OF this rel run] show "spread_rel L W u S (fold (see_spread E W u M D) es v) s'" .
  qed
  obtain j b where m: "m = \<lparr>msg_id = j, msg_body = b\<rparr>" by (cases m) simp
  show ?thesis
  proof (cases b)
    case (Broadcast data)
    have "forwards m" by (simp add: forwards_def m Broadcast)
    with forward assms(2,6,8) show ?thesis
      by (auto simp: m Broadcast recv_broadcast_def intro!: keeps_spread split: option.splits)
  next
    case (PeerRequest r)
    have "forwards m" by (simp add: forwards_def m PeerRequest)
    with forward assms(2,6) show ?thesis
      by (auto simp: m PeerRequest recv_peer_request_def intro!: keeps_spread)
  qed (auto simp: m recv_nak_def intro!: keeps_spread)
qed

text \<open>The summary of an activation that does not change the overlay.\<close>

lemma activation_spreads:
  assumes "codec_law E" and "lru_law L" and "box_law E valid" and "overlay_ok valid W" and "u \<in> members W"
    and "configured W u s" and "steady m \<or> (\<exists>a p. m = Recv a p)"
    and "ph_handle_message E L (info W u) I m s = (es, Inr s')"
  shows "configured W u s'"
    and "\<And>e. e \<in> set es \<Longrightarrow> spreads E W u (may_send E L s I m) (may_hand E s m) e"
    and "\<And>i. lru_contains L (seen s') i \<Longrightarrow> lru_contains L (seen s) i \<or> i \<in> may_put E s I m"
proof -
  let ?S = "{i. lru_contains L (seen s) i} \<union> may_put E s I m"
  let ?see = "see_spread E W u (may_send E L s I m) (may_hand E s m)" and ?rel = "spread_rel L W u ?S"
  note messages = keeps_spread_messages [OF assms(1-5)]
  note config = assms(6) [unfolded configured_def]
  have start: "?rel True s" using assms(6) by (simp add: spread_rel_def)
  have "?rel (fold ?see es True) s'"
  proof (cases "\<exists>a p. m = Recv a p")
    case False
    with assms(7) have "steady m" by blast
    have forward: "keeps ?see ?rel (encrypt_and_send_messages E L (info W u) I 0 (ph_subscribers s) x)"
      if "msg_id x \<in> ?S" "\<And>v. v \<in> set (ph_subscribers s) \<Longrightarrow> may_send E L s I m v x" for x
      by (rule messages) (use that in auto)
    have send: "keeps ?see ?rel (send N I (H h) b)" for N h b
      by (auto simp: send_def Let_def intro!: keeps_spread split: option.splits)
    have rate: "keeps ?see ?rel (update_rate_control E I)"
      by (auto simp: update_rate_control_def rate_control_step_def intro!: keeps_spread)
    have message: "keeps ?see ?rel (encrypt_and_send_message E L (info W u) I 0 t x)" if "m = SendMessage t x" for t x
      unfolding encrypt_and_send_message_def by (rule messages) (simp_all add: that)
    note unfolds = send_broadcast_def send_peer_status_def send_broadcast_to_subscribers_def with_state_apply
    from \<open>steady m\<close> show ?thesis
    proof (cases m rule: steady.cases)
      case (1 b h)
      with assms(8) show ?thesis by (intro keepsD [OF send start]) simp
    next
      case (2 t x)
      with assms(8) show ?thesis by (intro keepsD [OF message start]) simp_all
    next
      case (3 data)
      with assms(8) show ?thesis
        by (intro keepsD [OF forward [where x = "\<lparr>msg_id = new_v4 I 0, msg_body = Broadcast data\<rparr>"] start])
          (simp_all add: unfolds)
    next
      case (4 st)
      with assms(8) show ?thesis
        by (intro keepsD [OF forward [where x = "\<lparr>msg_id = new_v4 I 0, msg_body = PeerRequest (PeerStatus st)\<rparr>"] start])
          (simp_all add: unfolds)
    next
      case 5
      with assms(8) show ?thesis by (intro keepsD [OF rate start]) simp
    qed simp_all
  next
    case True
    then obtain a p where m: "m = Recv a p" by blast
    have nak: "keeps ?see ?rel (send_nak E L (info W u) I i prev q)" for i prev q
      unfolding send_nak_def encrypt_and_send_message_def
      by (auto simp: m intro!: keeps_spread messages)
    have body: "keeps ?see ?rel (recv_body E L (info W u) I a i (msg_id x) (msg_body x))"
      if "pkt_p p = B y n" "decrypt E (ph_keys s) (pkt_id p) y n = Some x" "\<not> lru_contains L (seen s) (msg_id x)" for i x y n
    proof (rule keeps_spread_recv_body [OF assms(1-5), where subs = "ph_subscribers s"])
      show "may_hand E s m data" if "msg_body x = Broadcast data" for data
        using that \<open>pkt_p p = B y n\<close> \<open>decrypt E (ph_keys s) (pkt_id p) y n = Some x\<close>
        by (cases x) (auto simp: m)
    qed (use that config in \<open>auto simp: m\<close>)
    show ?thesis
    proof (rule keepsD [where rel = ?rel, OF _ start])
      show "keeps ?see ?rel (do_all [
         modify (\<lambda>s. s\<lparr>rx_sequences := (rx_sequences s)(a \<mapsto> pkt_s p)\<rparr>),
         case pkt_p p of
           H h \<Rightarrow> emit (Cast_handshaker (Packet a h (pkt_id p)))
         | B vecbox nonce \<Rightarrow>
             (case decrypt E (ph_keys s) (pkt_id p) vecbox nonce of
                Some x \<Rightarrow> do_all [
                  if lru_contains L (seen s) (msg_id x) then skip
                  else recv_body E L (info W u) I a (pkt_id p) (msg_id x) (msg_body x),
                  case rx_sequences s a of
                    Some prev \<Rightarrow> send_nak E L (info W u) I (pkt_id p) prev (pkt_s p)
                  | None \<Rightarrow> skip]
              | None \<Rightarrow> skip)])" (is "keeps _ _ ?act")
        by (auto intro!: keeps_spread nak body split: payload.splits option.splits)
      show "?act s = (es, Inr s')" using assms(8) by (simp add: m recv_def with_state_apply)
    qed
  qed
  then show "configured W u s'" "\<And>e. e \<in> set es \<Longrightarrow> spreads E W u (may_send E L s I m) (may_hand E s m) e"
    "\<And>i. lru_contains L (seen s') i \<Longrightarrow> lru_contains L (seen s) i \<or> i \<in> may_put E s I m"
    by (auto simp: spread_rel_def fold_see_spread)
qed

text \<open>Forwarding reaches every subscriber, whatever the activation does after it.\<close>

definition reaches :: "externals \<Rightarrow> overlay \<Rightarrow> uuid \<Rightarrow> message \<Rightarrow> datagram set \<Rightarrow> bool" where
  "reaches E W u m ds \<longleftrightarrow> (\<forall>b. (u, b) \<in> links W \<longrightarrow> (\<exists>d \<in> ds. carries E W d u b m))"

lemma reaches_mono: "reaches E W u m ds \<Longrightarrow> ds \<subseteq> ds' \<Longrightarrow> reaches E W u m ds'"
  unfolding reaches_def by blast

lemma forward_reaches:
  assumes "codec_law E" and "box_law E valid" and "overlay_ok valid W" and "u \<in> members W" and "configured W u s"
    and "set (fst (encrypt_and_send_messages E L (info W u) I base (ph_subscribers s) m s)) \<subseteq> set es"
  shows "reaches E W u (wire_message m) (\<Union>e \<in> set es. sent_datagram E (address W u) e)"
  unfolding reaches_def
proof (intro allI impI)
  fix b
  assume "(u, b) \<in> links W"
  then obtain a kp pk where b: "b \<in> set (ph_subscribers s)" "link_keys W u b = Some (a, kp, pk)"
    using assms(5) by (auto simp: links_def configured_def)
  then obtain kp' where kp': "b \<in> members W" "a = address W b" "valid kp" "valid kp'" "pk = public_key kp'"
    "link_keys W b u = Some (address W u, kp', public_key kp)"
    using assms(3,4) unfolding overlay_ok_def matching_keys_def by blast
  obtain sock where sock: "ph_socket s = Some sock" using assms(5) by (auto simp: configured_def)
  have keys: "ph_keys s b = Some (address W b, kp, public_key kp')"
    using b(2) kp'(2,5) assms(5) by (simp add: configured_def)
  obtain q x n where q: "Send_to sock (packet_bytes E q) (address W b) \<in>
      set (fst (encrypt_and_send_messages E L (info W u) I base (ph_subscribers s) m s))"
    "pkt_p q = B x n" "pkt_id q = node_id (info W u)"
    and d: "\<And>ks i a. ks i = Some (a, kp', public_key kp) \<Longrightarrow> decrypt E ks i x n = Some (wire_message m)"
    by (rule sent_message_arrives [where L = L and N = "info W u" and I = I and base = base and m = m,
          OF assms(1,2) kp'(3,4) sock b(1) keys]) blast
  have "carries E W (address W u, packet_bytes E q, address W b) u b (wire_message m)"
    using q(2,3) d [where ks = "link_keys W b", OF kp'(6)] kp'(1) assms(3,4) by (auto simp: carries_def overlay_ok_def)
  moreover have "Send_to sock (packet_bytes E q) (address W b) \<in> set es" using q(1) assms(6) by blast
  ultimately show "\<exists>d \<in> \<Union>e \<in> set es. sent_datagram E (address W u) e. carries E W d u b (wire_message m)"
    by (intro bexI [of _ "(address W u, packet_bytes E q, address W b)"]) force+
qed

lemma broadcast_reaches:
  assumes "codec_law E" and "box_law E valid" and "overlay_ok valid W" and "u \<in> members W" and "configured W u s"
    and "ph_handle_message E L (info W u) I (SendBroadcast data) s = (es, Inr s')"
  shows "reaches E W u \<lparr>msg_id = new_v4 I 0, msg_body = Broadcast data\<rparr> (\<Union>e \<in> set es. sent_datagram E (address W u) e)"
proof -
  let ?m = "\<lparr>msg_id = new_v4 I 0, msg_body = Broadcast data\<rparr>"
  have "set (fst (encrypt_and_send_messages E L (info W u) I 0 (ph_subscribers s) ?m s)) \<subseteq> set es"
    using assms(6) by (simp add: send_broadcast_def send_broadcast_to_subscribers_def with_state_apply)
  from forward_reaches [OF assms(1-5) this] show ?thesis by simp
qed

lemma reception_reaches:
  assumes "codec_law E" and "box_law E valid" and "overlay_ok valid W" and "u \<in> members W" and "configured W u s"
    and "ph_handle_message E L (info W u) I (Recv a p) s = (es, Inr s')"
    and "pkt_p p = B x n" and "decrypt E (ph_keys s) (pkt_id p) x n = Some \<lparr>msg_id = i, msg_body = Broadcast data\<rparr>"
    and "\<not> lru_contains L (seen s) i"
  shows "reaches E W u \<lparr>msg_id = i, msg_body = Broadcast data\<rparr> (\<Union>e \<in> set es. sent_datagram E (address W u) e)"
    and "handler_of W u = Some h \<Longrightarrow> Handle_broadcast h data \<in> set es"
proof -
  let ?m = "\<lparr>msg_id = i, msg_body = Broadcast data\<rparr>"
  let ?s = "s\<lparr>rx_sequences := (rx_sequences s)(a \<mapsto> pkt_s p)\<rparr>"
  have body: "set (fst (recv_broadcast E L (info W u) I i data ?s)) \<subseteq> set es"
  proof
    fix e
    assume "e \<in> set (fst (recv_broadcast E L (info W u) I i data ?s))"
    then have "e \<in> set (fst (recv E L (info W u) I p a s))"
      using assms(7-9) by (simp add: recv_def with_state_apply then_do_Inr [OF modify_apply]) (intro then_do_effects)
    then show "e \<in> set es" using assms(6) by simp
  qed
  have config: "configured W u ?s" using assms(5) by simp
  have "set (fst (encrypt_and_send_messages E L (info W u) I 0 (ph_subscribers ?s) ?m ?s)) \<subseteq>
      set (fst (recv_broadcast E L (info W u) I i data ?s))"
    by (auto simp: recv_broadcast_def act_simps then_do_def send_broadcast_to_subscribers_def split: option.splits prod.splits sum.splits)
  with body have "set (fst (encrypt_and_send_messages E L (info W u) I 0 (ph_subscribers ?s) ?m ?s)) \<subseteq> set es"
    by (rule order_trans [rotated])
  from forward_reaches [OF assms(1-4) config this]
  show "reaches E W u ?m (\<Union>e \<in> set es. sent_datagram E (address W u) e)" by simp
  show "Handle_broadcast h data \<in> set es" if "handler_of W u = Some h"
    using body that config
    by (auto simp: configured_def recv_broadcast_def act_simps then_do_def split: option.splits prod.splits sum.splits)
qed

end
