(* ===== verification/Cluster_Props.thy ===== *)
theory Cluster_Props
  imports Cluster
begin

text \<open>
  Correctness of gossip in a cluster: what a broadcast handler is given was broadcast by a node from which a path of
  subscriptions leads to it, and if the network delivers, every node at the end of such a path is given the data.
\<close>

subsection \<open>The invariant of the cluster\<close>

text \<open>A message for \<open>v\<close> that has a reason: a broadcast that was made on a path to \<open>v\<close>, or another message that was sent.\<close>

definition legit :: "overlay \<Rightarrow> 'c cluster \<Rightarrow> uuid \<Rightarrow> message \<Rightarrow> bool" where
  "legit W c v m \<longleftrightarrow>
     (case msg_body m of
        Broadcast data \<Rightarrow> \<exists>w. originated c (msg_id m) = Some (w, data) \<and> (w, v) \<in> (links W)\<^sup>+
      | _ \<Rightarrow> msg_id m \<in> drawn c)"

text \<open>A node that has done its part for a broadcast: it has sent it to its subscribers and, unless it made it, handled it.\<close>

definition informed :: "externals \<Rightarrow> overlay \<Rightarrow> 'c cluster \<Rightarrow> uuid \<Rightarrow> uuid \<Rightarrow> bool" where
  "informed E W c u i \<longleftrightarrow>
     (\<forall>w data. originated c i = Some (w, data) \<longrightarrow>
        reaches E W u \<lparr>msg_id = i, msg_body = Broadcast data\<rparr> (wire c) \<and>
        (u = w \<or> handler_of W u = None \<or> data \<in> set (handed c u)))"

text \<open>An id that is in use and for whose broadcast, if it is one, the node has done its part.\<close>

definition knows :: "externals \<Rightarrow> overlay \<Rightarrow> 'c cluster \<Rightarrow> uuid \<Rightarrow> uuid \<Rightarrow> bool" where
  "knows E W c u i \<longleftrightarrow> informed E W c u i \<and> i \<in> drawn c \<union> dom (originated c)"

definition member_ok :: "externals \<Rightarrow> 'c lru \<Rightarrow> overlay \<Rightarrow> 'c cluster \<Rightarrow> uuid \<Rightarrow> bool" where
  "member_ok E L W c u \<longleftrightarrow>
     configured W u (member c u) \<and>
     (\<forall>i. lru_contains L (seen (member c u)) i \<longrightarrow> knows E W c u i) \<and>
     (\<forall>data \<in> set (handed c u). \<exists>i w. originated c i = Some (w, data) \<and> (w, u) \<in> (links W)\<^sup>+)"

definition wire_ok :: "externals \<Rightarrow> overlay \<Rightarrow> 'c cluster \<Rightarrow> bool" where
  "wire_ok E W c \<longleftrightarrow>
     delivered c \<subseteq> wire c \<and>
     (\<forall>d \<in> wire c. handshakes E d \<or> (\<exists>u v m. carries E W d u v m \<and> legit W c v m)) \<and>
     (\<forall>d \<in> delivered c. \<forall>u v i data. carries E W d u v \<lparr>msg_id = i, msg_body = Broadcast data\<rparr> \<longrightarrow> informed E W c v i)"

definition origins_ok :: "externals \<Rightarrow> overlay \<Rightarrow> 'c cluster \<Rightarrow> bool" where
  "origins_ok E W c \<longleftrightarrow>
     drawn c \<inter> dom (originated c) = {} \<and>
     (\<forall>i w data. originated c i = Some (w, data) \<longrightarrow> w \<in> members W \<and> informed E W c w i)"

definition cluster_inv :: "externals \<Rightarrow> 'c lru \<Rightarrow> overlay \<Rightarrow> 'c cluster \<Rightarrow> bool" where
  "cluster_inv E L W c \<longleftrightarrow> (\<forall>u \<in> members W. member_ok E L W c u) \<and> wire_ok E W c \<and> origins_ok E W c"

definition cluster_laws :: "externals \<Rightarrow> 'c lru \<Rightarrow> overlay \<Rightarrow> (keypair \<Rightarrow> bool) \<Rightarrow> bool" where
  "cluster_laws E L W valid \<longleftrightarrow> codec_law E \<and> lru_law L \<and> box_law E valid \<and> overlay_ok valid W"

lemma cluster_lawsD:
  assumes "cluster_laws E L W valid"
  shows "codec_law E" "lru_law L" "box_law E valid" "overlay_ok valid W"
  using assms by (simp_all add: cluster_laws_def)

lemma quiet_inv: "quiet L W c \<Longrightarrow> cluster_inv E L W c"
  by (auto simp: quiet_def cluster_inv_def member_ok_def wire_ok_def origins_ok_def informed_def knows_def)

subsection \<open>An activation keeps the invariant\<close>

text \<open>What an activation only adds to.\<close>

definition extends :: "'c cluster \<Rightarrow> 'c cluster \<Rightarrow> bool" where
  "extends c c' \<longleftrightarrow>
     wire c \<subseteq> wire c' \<and> delivered c \<subseteq> delivered c' \<and> (\<forall>u. set (handed c u) \<subseteq> set (handed c' u)) \<and>
     originated c \<subseteq>\<^sub>m originated c' \<and> drawn c \<subseteq> drawn c'"

lemma extends_refl: "extends c c"
  by (simp add: extends_def)

lemma extends_trans: "extends a b \<Longrightarrow> extends b c \<Longrightarrow> extends a c"
  unfolding extends_def using map_le_trans by blast

lemma extends_originated: "extends c c' \<Longrightarrow> originated c i = Some x \<Longrightarrow> originated c' i = Some x"
  unfolding extends_def map_le_def by (metis domI)

lemma informed_extends:
  assumes "informed E W c u i" and "extends c c'" and "originated c' i = originated c i"
  shows "informed E W c' u i"
  using assms unfolding informed_def extends_def by (metis reaches_mono subsetD)

lemma legit_extends: "legit W c v m \<Longrightarrow> extends c c' \<Longrightarrow> legit W c' v m"
  unfolding legit_def by (auto simp: extends_def split: body.splits dest: extends_originated [rotated])

lemma activation_extends:
  "unique_ids u I m c \<Longrightarrow> extends c (after_activation E W u I m es s c)"
  unfolding extends_def unique_ids_def after_activation_def
  by (auto simp: map_le_def map_add_def split: option.splits)

lemma activation_originated:
  assumes "unique_ids u I m c" and "i \<in> drawn c \<union> dom (originated c)"
  shows "originated (after_activation E W u I m es s c) i = originated c i"
proof -
  have "i \<notin> dom (new_broadcasts u I m)" using assms unfolding unique_ids_def by blast
  then show ?thesis by (simp add: after_activation_def map_add_dom_app_simps)
qed

text \<open>The messages that the steps of the cluster are about: those of the node itself, and datagrams that were sent to it.\<close>

definition caused :: "externals \<Rightarrow> overlay \<Rightarrow> 'c cluster \<Rightarrow> uuid \<Rightarrow> packet_handler_message \<Rightarrow> bool" where
  "caused E W c u m \<longleftrightarrow>
     steady m \<or> (\<exists>a p bs. m = Recv a p \<and> (a, bs, address W u) \<in> wire c \<and> packet_from_slice E bs = Some p)"

lemma received_legit:
  assumes "cluster_laws E L W valid" and "wire_ok E W c" and "u \<in> members W" and "caused E W c u (Recv a p)"
    and "pkt_p p = B x n" and "decrypt E (link_keys W u) (pkt_id p) x n = Some m"
  shows "legit W c u m"
proof -
  note laws = cluster_lawsD [OF assms(1)]
  obtain bs where bs: "(a, bs, address W u) \<in> wire c" "packet_from_slice E bs = Some p"
    using assms(4) by (auto simp: caused_def)
  have "\<not> handshakes E (a, bs, address W u)"
    using bs(2) assms(5) codec_lawD(3) [OF laws(1)] by (auto simp: handshakes_def)
  then obtain v w m' where c: "carries E W (a, bs, address W u) v w m'" and l: "legit W c w m'"
    using assms(2) bs(1) unfolding wire_ok_def by blast
  from carriesD [OF laws(1,4) c bs(2) assms(3)] assms(5,6) have "w = u" "m' = m" by auto
  with l show ?thesis by simp
qed

lemma carries_linked:
  assumes "overlay_ok valid W" and "carries E W d u v m"
  shows "link_keys W u v \<noteq> None"
proof -
  from assms(2) obtain x n where "decrypt E (link_keys W v) u x n = Some m" "v \<in> members W" by (auto simp: carries_def)
  then obtain a kp pk where "link_keys W v u = Some (a, kp, pk)" by (auto simp: decrypt_def split: option.splits)
  with assms(1) \<open>v \<in> members W\<close> show ?thesis unfolding overlay_ok_def matching_keys_def by fastforce
qed

text \<open>Everything that is sent has a reason afterwards.\<close>

lemma may_send_legit:
  assumes "cluster_laws E L W valid" and "wire_ok E W c" and "u \<in> members W" and "configured W u (member c u)"
    and "caused E W c u m" and "unique_ids u I m c"
    and "may_send E L (member c u) I m v x" and "carries E W d u v (wire_message x)"
  shows "legit W (after_activation E W u I m es s c) v (wire_message x)"
proof -
  have link: "(u, v) \<in> links W" if "v \<in> set (ph_subscribers (member c u))"
    using that carries_linked [OF cluster_lawsD(4) [OF assms(1)] assms(8)] assms(3,4) by (simp add: links_def configured_def)
  consider (steady) "steady m" | (received) a p where "m = Recv a p" using assms(5) by (auto simp: caused_def)
  then show ?thesis
  proof cases
    case steady
    then show ?thesis using assms(7) link
      by (cases m rule: steady.cases)
        (auto simp: legit_def after_activation_def new_broadcasts_def wire_message_def split: body.splits)
  next
    case (received a p)
    show ?thesis
    proof (cases "msg_id x = new_v4 I 0 \<and> (\<exists>lo hi. msg_body x = Nak lo hi)")
      case True
      then show ?thesis by (auto simp: received legit_def after_activation_def wire_message_def)
    next
      case False
      with assms(7) obtain y n where x: "v \<in> set (ph_subscribers (member c u))" "forwards x" "pkt_p p = B y n"
        "decrypt E (link_keys W u) (pkt_id p) y n = Some x"
        using assms(4) by (auto simp: received configured_def)
      have "legit W c u x" using received_legit [OF assms(1-3) _ x(3,4)] assms(5) received by simp
      then have "legit W c v (wire_message x)"
        using x(2) link [OF x(1)]
        by (auto simp: legit_def forwards_def wire_message_def split: body.splits intro: trancl_into_trancl)
      then show ?thesis by (rule legit_extends) (rule activation_extends [OF assms(6)])
    qed
  qed
qed

lemma activation_sends:
  assumes "cluster_laws E L W valid" and "wire_ok E W c" and "u \<in> members W" and "configured W u (member c u)"
    and "caused E W c u m" and "unique_ids u I m c"
    and "ph_handle_message E L (info W u) I m (member c u) = (es, Inr s)"
    and "e \<in> set es" and "d \<in> sent_datagram E (address W u) e"
  shows "handshakes E d \<or> (\<exists>u' v x. carries E W d u' v x \<and> legit W (after_activation E W u I m es s c) v x)"
proof -
  note laws = cluster_lawsD [OF assms(1)]
  have "steady m \<or> (\<exists>a p. m = Recv a p)" using assms(5) by (auto simp: caused_def)
  from activation_spreads(2) [OF laws assms(3,4) this assms(7,8)]
  have spread: "spreads E W u (may_send E L (member c u) I m) (may_hand E (member c u) m) e" .
  show ?thesis
  proof (cases e)
    case (Send_to sock bs b)
    with spread obtain v x where "may_send E L (member c u) I m v x" "carries E W d u v (wire_message x)"
      using assms(9) by auto
    with may_send_legit [OF assms(1-6) this] show ?thesis by blast
  next
    case (Spawn_send_to w sock p b)
    with spread assms(9) show ?thesis by (auto simp: handshakes_def codec_lawD(2) [OF laws(1)])
  qed (use assms(9) in auto)
qed

lemma extends_known: "extends c c' \<Longrightarrow> i \<in> drawn c \<union> dom (originated c) \<Longrightarrow> i \<in> drawn c' \<union> dom (originated c')"
  unfolding extends_def by (blast dest: map_le_implies_dom_le)

text \<open>The node that acts knows only ids for which it has done its part: those it knew, those it drew, and those it received.\<close>

lemma knows_activation:
  assumes "knows E W c v i" and "unique_ids u I m c"
  shows "knows E W (after_activation E W u I m es s c) v i"
  using assms informed_extends [OF _ activation_extends activation_originated] extends_known [OF activation_extends]
  unfolding knows_def by metis

lemma knows_new:
  assumes "i \<in> new_ids I m" and "unique_ids u I m c"
  shows "knows E W (after_activation E W u I m es s c) v i"
proof -
  from assms(1) have "new_broadcasts u I m = Map.empty" by (cases m) (auto simp: new_broadcasts_def)
  with assms show ?thesis by (auto simp: knows_def unique_ids_def after_activation_def informed_def)
qed

lemma knows_broadcast:
  assumes "cluster_laws E L W valid" and "u \<in> members W" and "configured W u (member c u)"
    and "ph_handle_message E L (info W u) I (SendBroadcast data) (member c u) = (es, Inr s)"
  shows "knows E W (after_activation E W u I (SendBroadcast data) es s c) u (new_v4 I 0)"
proof -
  note laws = cluster_lawsD [OF assms(1)]
  have "reaches E W u \<lparr>msg_id = new_v4 I 0, msg_body = Broadcast data\<rparr>
      (wire (after_activation E W u I (SendBroadcast data) es s c))"
    using broadcast_reaches [OF laws(1,3,4) assms(2-4)] by (auto simp: after_activation_def intro: reaches_mono)
  then show ?thesis by (auto simp: knows_def informed_def after_activation_def new_broadcasts_def)
qed

lemma knows_received:
  assumes "cluster_laws E L W valid" and "cluster_inv E L W c" and "u \<in> members W"
    and "caused E W c u (Recv a p)" and "unique_ids u I (Recv a p) c"
    and "ph_handle_message E L (info W u) I (Recv a p) (member c u) = (es, Inr s)"
    and "pkt_p p = B y n" and "decrypt E (link_keys W u) (pkt_id p) y n = Some x" and "forwards x"
  shows "knows E W (after_activation E W u I (Recv a p) es s c) u (msg_id x)" (is "knows E W ?c u _")
proof -
  note laws = cluster_lawsD [OF assms(1)]
  from assms(2,3) have ok: "member_ok E L W c u" "wire_ok E W c" "origins_ok E W c" by (simp_all add: cluster_inv_def)
  then have config: "configured W u (member c u)" by (simp add: member_ok_def)
  have ext: "extends c ?c" by (rule activation_extends [OF assms(5)])
  have legit: "legit W c u x" by (rule received_legit [OF assms(1) ok(2) assms(3,4,7,8)])
  show ?thesis
  proof (cases "lru_contains L (seen (member c u)) (msg_id x)")
    case True
    with ok(1) show ?thesis by (intro knows_activation [OF _ assms(5)]) (auto simp: member_ok_def)
  next
    case new: False
    obtain j b where j: "x = \<lparr>msg_id = j, msg_body = b\<rparr>" by (cases x) simp
    show ?thesis
    proof (cases b)
      case (Broadcast data)
      with legit obtain w where w: "originated c j = Some (w, data)" by (auto simp: legit_def j)
      then have o: "originated ?c j = Some (w, data)" by (rule extends_originated [OF ext])
      have dec: "decrypt E (ph_keys (member c u)) (pkt_id p) y n = Some \<lparr>msg_id = j, msg_body = Broadcast data\<rparr>"
        using assms(8) config by (simp add: j Broadcast configured_def)
      note reception = reception_reaches [OF laws(1,3,4) assms(3) config assms(6,7) dec]
      have "reaches E W u \<lparr>msg_id = j, msg_body = Broadcast data\<rparr> (wire ?c)"
        using reception(1) new by (auto simp: j after_activation_def intro: reaches_mono)
      moreover have "data \<in> set (handed ?c u)" if "handler_of W u = Some h" for h
        using reception(2) [OF _ that] new by (force simp: j after_activation_def)
      ultimately show ?thesis using o by (cases "handler_of W u") (auto simp: knows_def informed_def j)
    next
      case (PeerRequest r)
      with legit have "j \<in> drawn c" by (simp add: legit_def j)
      with ok(3) have "knows E W c u j" by (auto simp: knows_def origins_ok_def informed_def)
      from knows_activation [OF this assms(5)] show ?thesis by (simp add: j)
    qed (use assms(9) in \<open>simp_all add: forwards_def j\<close>)
  qed
qed

lemma knows_after:
  assumes "cluster_laws E L W valid" and "cluster_inv E L W c" and "u \<in> members W"
    and "caused E W c u m" and "unique_ids u I m c"
    and "ph_handle_message E L (info W u) I m (member c u) = (es, Inr s)"
    and "lru_contains L (seen (member c u)) i \<or> i \<in> may_put E (member c u) I m"
  shows "knows E W (after_activation E W u I m es s c) u i"
proof (cases "lru_contains L (seen (member c u)) i")
  case True
  with assms(2,3) show ?thesis
    by (intro knows_activation [OF _ assms(5)]) (auto simp: cluster_inv_def member_ok_def)
next
  case False
  with assms(7) have put: "i \<in> may_put E (member c u) I m" by blast
  have config: "configured W u (member c u)" using assms(2,3) by (simp add: cluster_inv_def member_ok_def)
  show ?thesis
  proof (cases m)
    case (SendBroadcast data)
    with put knows_broadcast [OF assms(1,3) config] assms(6) show ?thesis by simp
  next
    case (Recv a p)
    with put config consider "i \<in> new_ids I m"
      | x y n where "i = msg_id x" "pkt_p p = B y n" "decrypt E (link_keys W u) (pkt_id p) y n = Some x" "forwards x"
      by (auto simp: configured_def)
    then show ?thesis
    proof cases
      case 1
      then show ?thesis by (rule knows_new) (rule assms(5))
    next
      case (2 x y n)
      with knows_received [OF assms(1-3) assms(4-6) [unfolded Recv] 2(2-4)] show ?thesis by (simp add: Recv)
    qed
  qed (use put knows_new [OF _ assms(5)] in auto)
qed

lemma activation_hands:
  assumes "cluster_laws E L W valid" and "wire_ok E W c" and "u \<in> members W" and "configured W u (member c u)"
    and "caused E W c u m" and "ph_handle_message E L (info W u) I m (member c u) = (es, Inr s)"
    and "e \<in> set es" and "data \<in> set (handed_data e)"
  shows "\<exists>i w. originated c i = Some (w, data) \<and> (w, u) \<in> (links W)\<^sup>+"
proof -
  have "steady m \<or> (\<exists>a p. m = Recv a p)" using assms(5) by (auto simp: caused_def)
  from activation_spreads(2) [OF cluster_lawsD [OF assms(1)] assms(3,4) this assms(6,7)]
  have "may_hand E (member c u) m data" using assms(8) by (cases e) auto
  then obtain a p x n i where m: "m = Recv a p" "pkt_p p = B x n"
    "decrypt E (link_keys W u) (pkt_id p) x n = Some \<lparr>msg_id = i, msg_body = Broadcast data\<rparr>"
    using assms(4) by (cases m) (auto simp: configured_def)
  have "legit W c u \<lparr>msg_id = i, msg_body = Broadcast data\<rparr>"
    by (rule received_legit [OF assms(1-3) assms(5) [unfolded m(1)] m(2,3)])
  then show ?thesis by (auto simp: legit_def)
qed

lemma activation_member_ok:
  assumes "cluster_laws E L W valid" and "cluster_inv E L W c" and "u \<in> members W"
    and "caused E W c u m" and "unique_ids u I m c"
    and "ph_handle_message E L (info W u) I m (member c u) = (es, Inr s)" and "v \<in> members W"
  shows "member_ok E L W (after_activation E W u I m es s c) v" (is "member_ok E L W ?c v")
proof -
  from assms(2,3) have ok: "member_ok E L W c u" "wire_ok E W c" by (simp_all add: cluster_inv_def)
  then have config: "configured W u (member c u)" by (simp add: member_ok_def)
  have ext: "extends c ?c" by (rule activation_extends [OF assms(5)])
  have m: "steady m \<or> (\<exists>a p. m = Recv a p)" using assms(4) by (auto simp: caused_def)
  note spreads = activation_spreads [OF cluster_lawsD [OF assms(1)] assms(3) config m assms(6)]
  show ?thesis
  proof (cases "v = u")
    case True
    have "configured W u (member ?c u)" using spreads(1) by (simp add: after_activation_def)
    moreover have "knows E W ?c u i" if "lru_contains L (seen (member ?c u)) i" for i
      by (rule knows_after [OF assms(1-6) spreads(3)]) (use that in \<open>simp add: after_activation_def\<close>)
    moreover have "\<exists>i w. originated ?c i = Some (w, data) \<and> (w, u) \<in> (links W)\<^sup>+" if "data \<in> set (handed ?c u)" for data
    proof -
      from that consider "data \<in> set (handed c u)" | e where "e \<in> set es" "data \<in> set (handed_data e)"
        by (auto simp: after_activation_def)
      then have "\<exists>i w. originated c i = Some (w, data) \<and> (w, u) \<in> (links W)\<^sup>+"
        using ok(1) activation_hands [OF assms(1) ok(2) assms(3) config assms(4,6)] by cases (auto simp: member_ok_def)
      then show ?thesis using extends_originated [OF ext] by blast
    qed
    ultimately show ?thesis unfolding member_ok_def True by blast
  next
    case False
    have "member_ok E L W c v" using assms(2,7) by (simp add: cluster_inv_def)
    moreover have "member ?c v = member c v" "handed ?c v = handed c v" using False by (simp_all add: after_activation_def)
    ultimately show ?thesis
      unfolding member_ok_def using knows_activation [OF _ assms(5)] extends_originated [OF ext] by metis
  qed
qed

lemma delivered_known:
  assumes "cluster_laws E L W valid" and "wire_ok E W c" and "d \<in> wire c"
    and "carries E W d v w \<lparr>msg_id = i, msg_body = Broadcast data\<rparr>"
  shows "\<exists>u. originated c i = Some (u, data) \<and> (u, w) \<in> (links W)\<^sup>+"
proof -
  note laws = cluster_lawsD [OF assms(1)]
  from assms(2-4) handshakes_not_carries [OF laws(1)]
  obtain v' w' m' where c: "carries E W d v' w' m'" "legit W c w' m'" unfolding wire_ok_def by blast
  from carries_unique [OF laws(1,4) assms(4) c(1)] c(2) show ?thesis by (auto simp: legit_def)
qed

lemma activation_wire_ok:
  assumes "cluster_laws E L W valid" and "cluster_inv E L W c" and "u \<in> members W"
    and "caused E W c u m" and "unique_ids u I m c"
    and "ph_handle_message E L (info W u) I m (member c u) = (es, Inr s)"
  shows "wire_ok E W (after_activation E W u I m es s c)" (is "wire_ok E W ?c")
  unfolding wire_ok_def
proof (intro conjI ballI allI impI)
  from assms(2,3) have ok: "wire_ok E W c" and config: "configured W u (member c u)"
    by (simp_all add: cluster_inv_def member_ok_def)
  have ext: "extends c ?c" by (rule activation_extends [OF assms(5)])
  show "delivered ?c \<subseteq> wire ?c" using ok by (auto simp: wire_ok_def after_activation_def)
  show "handshakes E d \<or> (\<exists>u v m. carries E W d u v m \<and> legit W ?c v m)" if "d \<in> wire ?c" for d
  proof (cases "d \<in> wire c")
    case True
    with ok show ?thesis unfolding wire_ok_def using legit_extends [OF _ ext] by blast
  next
    case False
    with that obtain e where "e \<in> set es" "d \<in> sent_datagram E (address W u) e" by (auto simp: after_activation_def)
    from activation_sends [OF assms(1) ok assms(3) config assms(4-6) this] show ?thesis .
  qed
  show "informed E W ?c w i" if "d \<in> delivered ?c" "carries E W d v w \<lparr>msg_id = i, msg_body = Broadcast data\<rparr>" for d v w i data
  proof -
    have d: "d \<in> delivered c" "d \<in> wire c" using that(1) ok by (auto simp: after_activation_def wire_ok_def)
    with ok that(2) have "informed E W c w i" unfolding wire_ok_def by blast
    moreover have "i \<in> drawn c \<union> dom (originated c)" using delivered_known [OF assms(1) ok d(2) that(2)] by blast
    ultimately show ?thesis by (intro informed_extends [OF _ ext activation_originated [OF assms(5)]])
  qed
qed

lemma activation_origins_ok:
  assumes "cluster_laws E L W valid" and "cluster_inv E L W c" and "u \<in> members W"
    and "caused E W c u m" and "unique_ids u I m c"
    and "ph_handle_message E L (info W u) I m (member c u) = (es, Inr s)"
  shows "origins_ok E W (after_activation E W u I m es s c)" (is "origins_ok E W ?c")
proof -
  from assms(2) have ok: "origins_ok E W c" by (simp add: cluster_inv_def)
  have ext: "extends c ?c" by (rule activation_extends [OF assms(5)])
  have "drawn ?c \<inter> dom (originated ?c) = {}"
    using ok assms(5) by (cases m) (auto simp: origins_ok_def unique_ids_def after_activation_def new_broadcasts_def)
  moreover have "w \<in> members W \<and> informed E W ?c w i" if i: "originated ?c i = Some (w, data)" for i w data
  proof (cases "originated c i")
    case None
    with i have m: "m = SendBroadcast data" "i = new_v4 I 0" "w = u"
      by (auto simp: after_activation_def new_broadcasts_def split: packet_handler_message.splits if_splits)
    then have "i \<in> may_put E (member c u) I m" by simp
    with knows_after [OF assms] m(3) assms(3) show ?thesis by (auto simp: knows_def)
  next
    case (Some x)
    with i extends_originated [OF ext Some] have o: "originated c i = Some (w, data)" by simp
    then have "i \<in> drawn c \<union> dom (originated c)" by blast
    with o ok show ?thesis
      using informed_extends [OF _ ext activation_originated [OF assms(5)], of E W w i] unfolding origins_ok_def by blast
  qed
  ultimately show ?thesis unfolding origins_ok_def by blast
qed

lemma activation_inv:
  assumes "cluster_laws E L W valid" and "cluster_inv E L W c" and "u \<in> members W"
    and "caused E W c u m" and "unique_ids u I m c"
    and "ph_handle_message E L (info W u) I m (member c u) = (es, Inr s)"
  shows "cluster_inv E L W (after_activation E W u I m es s c)"
  using activation_member_ok [OF assms] activation_wire_ok [OF assms] activation_origins_ok [OF assms]
  by (simp add: cluster_inv_def)

text \<open>Recording a delivery to a node that knows what it carried keeps the invariant.\<close>

lemma delivered_update [simp]:
  "informed E W (c\<lparr>delivered := D\<rparr>) u i = informed E W c u i" "knows E W (c\<lparr>delivered := D\<rparr>) u i = knows E W c u i"
  "legit W (c\<lparr>delivered := D\<rparr>) v m = legit W c v m" "member_ok E L W (c\<lparr>delivered := D\<rparr>) u = member_ok E L W c u"
  "origins_ok E W (c\<lparr>delivered := D\<rparr>) = origins_ok E W c"
  by (simp_all add: informed_def knows_def legit_def member_ok_def origins_ok_def split: body.split)

lemma delivery_inv:
  assumes "cluster_inv E L W c" and "d \<in> wire c"
    and "\<And>u v i data. carries E W d u v \<lparr>msg_id = i, msg_body = Broadcast data\<rparr> \<Longrightarrow> informed E W c v i"
  shows "cluster_inv E L W (c\<lparr>delivered := insert d (delivered c)\<rparr>)"
  using assms by (auto simp: cluster_inv_def wire_ok_def)

lemma cluster_step_inv:
  assumes "cluster_laws E L W valid" and "cluster_inv E L W c" and "cluster_step E L W c c'"
  shows "cluster_inv E L W c'"
  using assms(3)
proof cases
  case (acts u m I es s)
  have "caused E W c u m" using acts(3) by (simp add: caused_def)
  from activation_inv [OF assms(1,2) acts(2) this acts(4,5)] show ?thesis unfolding acts(1) .
next
  case (receives u a bs p I es s)
  let ?c = "after_activation E W u I (Recv a p) es s c" and ?d = "(a, bs, address W u)"
  note laws = cluster_lawsD [OF assms(1)]
  have caused: "caused E W c u (Recv a p)" using receives(3,4) by (auto simp: caused_def)
  have "cluster_inv E L W (?c\<lparr>delivered := insert ?d (delivered ?c)\<rparr>)"
  proof (rule delivery_inv)
    show "cluster_inv E L W ?c" by (rule activation_inv [OF assms(1,2) receives(2) caused receives(5,6)])
    show "?d \<in> wire ?c" using receives(3) by (simp add: after_activation_def)
    show "informed E W ?c v i" if "carries E W ?d w v \<lparr>msg_id = i, msg_body = Broadcast data\<rparr>" for w v i data
    proof -
      from carriesD [OF laws(1,4) that receives(4,2)] obtain x n where v: "v = u" "pkt_id p = w" "pkt_p p = B x n"
        "decrypt E (link_keys W u) w x n = Some \<lparr>msg_id = i, msg_body = Broadcast data\<rparr>"
        by blast
      have "knows E W ?c u (msg_id \<lparr>msg_id = i, msg_body = Broadcast data\<rparr>)"
        by (rule knows_received [OF assms(1,2) receives(2) caused receives(5,6) v(3)]) (simp_all add: v forwards_def)
      then show ?thesis by (simp add: knows_def v(1))
    qed
  qed
  moreover have "delivered ?c = delivered c" by (simp add: after_activation_def)
  ultimately show ?thesis unfolding receives(1) by simp
qed

interpretation cluster: transition_system "\<lambda>c. quiet L W c \<and> cluster_laws E L W valid" "cluster_step E L W"
    "\<lambda>c. cluster_inv E L W c \<and> cluster_laws E L W valid"
  for E L W valid
  by unfold_locales (auto intro: quiet_inv cluster_step_inv)

lemma cluster_step_extends:
  assumes "cluster_step E L W c c'"
  shows "extends c c'"
  using assms
proof cases
  case (acts u m I es s)
  then show ?thesis by (simp add: activation_extends)
next
  case (receives u a bs p I es s)
  from activation_extends [OF receives(5), of E W es s] show ?thesis unfolding receives(1) by (auto simp: extends_def)
qed

subsection \<open>A sample cluster\<close>

text \<open>Two nodes, of which the second subscribes to the first.\<close>

definition sample_address :: "uuid \<Rightarrow> sockaddr" where
  "sample_address u = (if u = 1 then sample_addr else V4 1 1)"

definition sample_overlay :: overlay where
  "sample_overlay =
     \<lparr>members = {1, 2}, info = (\<lambda>u. (sample_node Uniform)\<lparr>node_id := u\<rparr>), address = sample_address,
      link_keys = (\<lambda>u. [3 - u \<mapsto> (sample_address (3 - u), sample_keypair, public_key sample_keypair)]),
      link_subscribers = (\<lambda>u. if u = 1 then [2] else []), handler_of = (\<lambda>_. Some 5)\<rparr>"

definition sample_member :: "uuid \<Rightarrow> (nat \<times> uuid list) packet_handler" where
  "sample_member u = (packet_handler_new sample_lru)\<lparr>ph_socket := Some 0, ph_keys := link_keys sample_overlay u,
     ph_subscribers := link_subscribers sample_overlay u, broadcast_handler_async := Some 5\<rparr>"

definition sample_cluster :: "(nat \<times> uuid list) cluster" where
  "sample_cluster =
     \<lparr>member = sample_member, wire = {}, delivered = {}, handed = (\<lambda>_. []), originated = Map.empty, drawn = {}\<rparr>"

abbreviation (input) "sample_lib \<equiv> sample_externals False"

lemma sample_overlay_simps [simp]:
  "members sample_overlay = {1, 2}" "address sample_overlay = sample_address" "handler_of sample_overlay u = Some 5"
  "link_subscribers sample_overlay 1 = [2]" "link_subscribers sample_overlay 2 = []"
  "node_id (info sample_overlay u) = u" "sample_address 1 \<noteq> sample_address 2" "sample_address 2 \<noteq> sample_address 1"
  "link_keys sample_overlay 1 2 = Some (sample_address 2, sample_keypair, public_key sample_keypair)"
  "link_keys sample_overlay 2 1 = Some (sample_address 1, sample_keypair, public_key sample_keypair)"
  by (simp_all add: sample_overlay_def sample_address_def sample_addr_def)

lemma sample_member_simps [simp]:
  "ph_socket (sample_member u) = Some 0" "ph_keys (sample_member u) = link_keys sample_overlay u"
  "ph_subscribers (sample_member u) = link_subscribers sample_overlay u" "rx_sequences (sample_member u) = Map.empty"
  "broadcast_handler_async (sample_member u) = Some 5" "\<not> lru_contains sample_lru (seen (sample_member u)) k"
  by (simp_all add: sample_member_def packet_handler_new_def sample_lru_def)

lemma sample_configured: "configured sample_overlay u (sample_member u)"
  by (simp add: configured_def)

lemma sample_cluster_laws: "cluster_laws sample_lib sample_lru sample_overlay sample_valid"
proof -
  have "matching_keys sample_valid sample_overlay"
    unfolding matching_keys_def by (auto simp: sample_overlay_def split: if_splits)
  moreover have "inj_on sample_address {1, 2}" by (simp add: inj_on_def)
  ultimately show ?thesis by (simp add: cluster_laws_def overlay_ok_def)
qed

lemma sample_quiet: "quiet sample_lru sample_overlay sample_cluster"
  by (simp add: quiet_def sample_cluster_def sample_configured)

lemma sample_link: "(1, 2) \<in> (links sample_overlay)\<^sup>+"
  by (rule r_into_trancl) (simp add: links_def)

lemma sample_broadcast:
  "\<exists>bs s. ph_handle_message sample_lib sample_lru (info sample_overlay 1) sample_inputs (SendBroadcast [42]) (sample_member 1) =
     ([Send_to 0 bs (sample_address 2)], Inr s)"
proof -
  let ?m = "\<lparr>msg_id = new_v4 sample_inputs 0, msg_body = Broadcast [42]\<rparr>"
  obtain p where p: "encrypt_all sample_lib sample_inputs 0 (link_keys sample_overlay 1) [2] ?m = [(p, sample_address 2)]"
    by (simp add: encrypt_all_def map_filter_simps encrypt_def bind_result_def unwrap_def sample_externals_def)
  show ?thesis
    by (simp add: send_broadcast_def send_broadcast_to_subscribers_def with_state_apply encrypt_and_send_messages_eq
        sent_of_def send_effects_def Let_def p)
qed

lemma sample_reception:
  assumes "pkt_p p = B x n"
    and "decrypt sample_lib (link_keys sample_overlay 2) (pkt_id p) x n = Some \<lparr>msg_id = i, msg_body = Broadcast data\<rparr>"
  shows "\<exists>s. ph_handle_message sample_lib sample_lru (info sample_overlay 2) I (Recv a p) (sample_member 2) =
     ([Handle_broadcast 5 data], Inr s)"
  using assms
  by (simp add: recv_def act_simps then_do_def recv_broadcast_def send_broadcast_to_subscribers_def put_seen_def
      encrypt_and_send_messages_eq encrypt_all_def map_filter_simps sent_of_def send_effects_def)

subsection \<open>Only broadcasts are delivered, and all are\<close>

text \<open>
  C5. The application of a node is given nothing but broadcasts: whatever the network loses, delays, repeats or reorders, all data that the
  handler of a node has been given was broadcast by a node of the cluster from which a chain of subscribers leads to it.
\<close>

theorem cluster_delivers_only_broadcasts:
  assumes "cluster_laws E L W valid" and "quiet L W c" and "(cluster_step E L W)\<^sup>*\<^sup>* c c'"
    and "v \<in> members W" and "data \<in> set (handed c' v)"
  shows "\<exists>i u. originated c' i = Some (u, data) \<and> (u, v) \<in> (links W)\<^sup>+"
proof -
  have "cluster_inv E L W c'" using cluster.reachable_inv [OF assms(3)] assms(1,2) by blast
  with assms(4,5) show ?thesis unfolding cluster_inv_def member_ok_def by blast
qed

text \<open>The second node receives what the first one broadcasts.\<close>

lemma sample_cluster_run:
  obtains c c' bs where "cluster_step sample_lib sample_lru sample_overlay sample_cluster c"
    "cluster_step sample_lib sample_lru sample_overlay c c'"
    "wire c = {(sample_address 1, bs, sample_address 2)}" "wire c' = wire c" "delivered c' = wire c"
    "originated c' (new_v4 sample_inputs 0) = Some (1, [42])" "handed c' 2 = [[42]]"
proof -
  let ?E = "sample_lib" and ?W = sample_overlay and ?I = sample_inputs and ?m = "SendBroadcast [42]"
  let ?J = "sample_inputs\<lparr>new_v4 := \<lambda>_. 7\<rparr>"
  note laws = cluster_lawsD [OF sample_cluster_laws]
  obtain bs s where s: "ph_handle_message ?E sample_lru (info ?W 1) ?I ?m (sample_member 1) =
      ([Send_to 0 bs (sample_address 2)], Inr s)"
    using sample_broadcast by blast
  define c where "c = after_activation ?E ?W 1 ?I ?m [Send_to 0 bs (sample_address 2)] s sample_cluster"
  have step: "cluster_step ?E sample_lru ?W sample_cluster c"
    unfolding c_def by (rule acts) (use s in \<open>simp_all add: sample_cluster_def unique_ids_def new_broadcasts_def\<close>)
  have wire: "wire c = {(sample_address 1, bs, sample_address 2)}"
    by (simp add: c_def after_activation_def sample_cluster_def)
  have "reaches ?E ?W 1 \<lparr>msg_id = new_v4 ?I 0, msg_body = Broadcast [42]\<rparr> {(sample_address 1, bs, sample_address 2)}"
    using broadcast_reaches [OF laws(1,3,4) _ sample_configured s] by simp
  then have "carries ?E ?W (sample_address 1, bs, sample_address 2) 1 2 \<lparr>msg_id = new_v4 ?I 0, msg_body = Broadcast [42]\<rparr>"
    unfolding reaches_def by (simp add: links_def)
  then obtain p x n where p: "bs = packet_bytes ?E p" "pkt_p p = B x n"
    "decrypt ?E (link_keys ?W 2) (pkt_id p) x n = Some \<lparr>msg_id = new_v4 ?I 0, msg_body = Broadcast [42]\<rparr>"
    unfolding carries_def by auto
  obtain t where t: "ph_handle_message ?E sample_lru (info ?W 2) ?J (Recv (sample_address 1) p) (sample_member 2) =
      ([Handle_broadcast 5 [42]], Inr t)"
    using sample_reception [OF p(2,3)] by blast
  let ?c = "(after_activation ?E ?W 2 ?J (Recv (sample_address 1) p) [Handle_broadcast 5 [42]] t c)
    \<lparr>delivered := insert (sample_address 1, bs, address ?W 2) (delivered c)\<rparr>"
  have "member c 2 = sample_member 2" by (simp add: c_def after_activation_def sample_cluster_def)
  then have step': "cluster_step ?E sample_lru ?W c ?c"
    by (intro receives) (use t wire codec_lawD(3) [OF laws(1)] in
      \<open>simp_all add: p(1) unique_ids_def new_broadcasts_def c_def after_activation_def sample_cluster_def sample_inputs_def\<close>)
  show ?thesis
    by (rule that [OF step step' wire])
      (simp_all add: wire, simp_all add: c_def after_activation_def new_broadcasts_def sample_cluster_def)
qed

theorem cluster_delivers_only_broadcasts_witness:
  "\<exists>c. (cluster_step sample_lib sample_lru sample_overlay)\<^sup>*\<^sup>* sample_cluster c \<and> handed c 2 = [[42]] \<and>
     (\<exists>i u. originated c i = Some (u, [42]) \<and> (u, 2) \<in> (links sample_overlay)\<^sup>+)"
proof -
  obtain c c' where c: "cluster_step sample_lib sample_lru sample_overlay sample_cluster c"
    "cluster_step sample_lib sample_lru sample_overlay c c'" "handed c' 2 = [[42]]"
    by (rule sample_cluster_run) blast
  then have run: "(cluster_step sample_lib sample_lru sample_overlay)\<^sup>*\<^sup>* sample_cluster c'" by auto
  from cluster_delivers_only_broadcasts [OF sample_cluster_laws sample_quiet run, of 2 "[42]"] c(3) run
  show ?thesis by auto
qed

text \<open>In builds that do not check for overflow no node ever fails, so every datagram to a node can be delivered.\<close>

lemma delivery_enabled:
  assumes "codec_law E" and "\<not> overflow_checks E" and "u \<in> members W" and "(a, bs, address W u) \<in> wire c"
    and "packet_from_slice E bs = Some p" and "unique_ids u I (Recv a p) c"
  shows "\<exists>c'. cluster_step E L W c c' \<and> (a, bs, address W u) \<in> delivered c'"
proof -
  let ?r = "ph_handle_message E L (info W u) I (Recv a p) (member c u)"
  have "snd ?r \<noteq> Inl q" for q
    using within_handle [OF assms(1), of L "info W u" I "Recv a p"] assms(2) unfolding acts_within_def ph_panic_def by blast
  then obtain s where "?r = (fst ?r, Inr s)" by (metis obj_sumE prod.collapse)
  from receives [OF assms(3-6) this] show ?thesis by (intro exI conjI) auto
qed

text \<open>A network that delivers: every datagram to a node of the cluster arrives at some time.\<close>

definition delivers :: "overlay \<Rightarrow> (nat \<Rightarrow> 'c cluster) \<Rightarrow> bool" where
  "delivers W r \<longleftrightarrow>
     (\<forall>k a bs u. u \<in> members W \<longrightarrow> (a, bs, address W u) \<in> wire (r k) \<longrightarrow> (\<exists>k'. (a, bs, address W u) \<in> delivered (r k')))"

lemma informed_spreads:
  assumes "cluster_laws E L W valid" and "quiet L W (r 0)" and "execution (cluster_step E L W) r" and "delivers W r"
    and "originated (r k) i = Some (u, data)" and "informed E W (r k) v i" and "(v, b) \<in> links W"
  shows "\<exists>k'. originated (r k') i = Some (u, data) \<and> informed E W (r k') b i"
proof -
  have inv: "cluster_inv E L W (r n)" for n using cluster.execution_inv [OF assms(3)] assms(1,2) by blast
  have mono: "extends (r m) (r n)" if "m \<le> n" for m n
    by (rule cluster.execution_mono [OF assms(3) _ _ _ that]) (blast intro: cluster_step_extends extends_refl extends_trans)+
  from assms(5-7) obtain d where d: "d \<in> wire (r k)" "carries E W d v b \<lparr>msg_id = i, msg_body = Broadcast data\<rparr>"
    unfolding informed_def reaches_def by blast
  from d(2) obtain a bs where ab: "d = (a, bs, address W b)" "b \<in> members W" by (auto simp: carries_def)
  with d(1) assms(4) obtain k' where k': "d \<in> delivered (r k')" unfolding delivers_def by blast
  let ?n = "max k k'"
  have "d \<in> delivered (r ?n)" using k' mono [of k' ?n] by (auto simp: extends_def)
  with inv [of ?n] d(2) have "informed E W (r ?n) b i" unfolding cluster_inv_def wire_ok_def by blast
  moreover have "originated (r ?n) i = Some (u, data)" by (rule extends_originated [OF mono assms(5)]) simp
  ultimately show ?thesis by blast
qed

text \<open>
  C4. A broadcast floods the cluster: if the network delivers every datagram at least once, in whatever order, while all nodes
  do whatever else they do, then the data of a broadcast is given, at some time, to the handler of every node that a chain of
  subscribers connects to the one that made it.
\<close>

theorem broadcast_floods_cluster:
  assumes "cluster_laws E L W valid" and "quiet L W (r 0)" and "execution (cluster_step E L W) r" and "delivers W r"
    and "originated (r k) i = Some (u, data)" and "(u, v) \<in> (links W)\<^sup>+" and "v \<noteq> u" and "handler_of W v = Some h"
  shows "\<exists>k'. data \<in> set (handed (r k') v)"
proof -
  have "cluster_inv E L W (r k)" using cluster.execution_inv [OF assms(3)] assms(1,2) by blast
  with assms(5) have start: "informed E W (r k) u i" unfolding cluster_inv_def origins_ok_def by blast
  from assms(6) have "\<exists>k'. originated (r k') i = Some (u, data) \<and> informed E W (r k') v i"
  proof (induction rule: trancl_induct)
    case (base v)
    from informed_spreads [OF assms(1-5) start base] show ?case .
  next
    case (step v b)
    then show ?case using informed_spreads [OF assms(1-4) _ _ step.hyps(2)] by blast
  qed
  with assms(7,8) show ?thesis unfolding informed_def by fastforce
qed

theorem broadcast_floods_cluster_witness:
  "\<exists>r k. r 0 = sample_cluster \<and> execution (cluster_step sample_lib sample_lru sample_overlay) r \<and>
     originated (r 2) (new_v4 sample_inputs 0) = Some (1, [42]) \<and> [42] \<in> set (handed (r k) 2)"
proof -
  obtain c c' bs where c: "cluster_step sample_lib sample_lru sample_overlay sample_cluster c"
    "cluster_step sample_lib sample_lru sample_overlay c c'"
    "wire c = {(sample_address 1, bs, sample_address 2)}" "wire c' = wire c" "delivered c' = wire c"
    "originated c' (new_v4 sample_inputs 0) = Some (1, [42])"
    by (rule sample_cluster_run) blast
  define r where "r n = (if n = 0 then sample_cluster else if n = 1 then c else c')" for n :: nat
  have r: "r 0 = sample_cluster" "r 2 = c'" by (simp_all add: r_def)
  have exec: "execution (cluster_step sample_lib sample_lru sample_overlay) r"
    unfolding execution_def r_def using c(1,2) by auto
  have wire: "wire (r n) \<subseteq> delivered (r 2)" for n using c(3-5) by (simp add: r_def sample_cluster_def)
  have "delivers sample_overlay r" unfolding delivers_def using wire by blast
  from broadcast_floods_cluster [where v = 2, OF sample_cluster_laws _ exec this _ sample_link] sample_quiet c(6) r
  have "\<exists>k. [42] \<in> set (handed (r k) 2)" by fastforce
  with exec r c(6) show ?thesis by blast
qed

end
