(* ===== verification/Timing.thy ===== *)
theory Timing
  imports Peer_Manager_Props
begin

text \<open>
  The peer manager in time. The instants of the heartbeat timer and of the watchdogs (\<^verbatim>\<open>interval.rs\<close>, \<^verbatim>\<open>delayed.rs\<close>), which
  the other theories leave open, are made explicit: a step relation \<open>timed_step\<close> in which a clock advances, messages
  arrive and are handled, watchdogs fire at the earliest when they are due, and the heartbeat ticks. \<open>L\<close> bounds the latency
  in nanoseconds: a message is handled, a due watchdog runs and a due tick happens at most \<open>L\<close> later. Timers that are not
  about heartbeats, the network and the application may put any message into the mailbox at any time.
\<close>

subsection \<open>State\<close>

text \<open>
  Messages wait with the instant of their arrival. \<open>fired\<close> are the watchdogs that have run, \<open>next_tick\<close> is the deadline of the
  heartbeat's interval. The last three fields are history: the instants at which signs of life of a peer were handled (the
  latest first), the latest instant at which one arrived, and all effects with their instants.
\<close>

record timed =
  clock :: nat
  manager :: peer_manager
  inbox :: "(nat \<times> peer_manager_request) list"
  fired :: "delayed set"
  next_tick :: "nat option"
  heard :: "uuid \<Rightarrow> nat list"
  arrived :: "uuid \<Rightarrow> nat"
  sent :: "(nat \<times> effect) list"

definition timed_start :: "nat \<Rightarrow> timed" where
  "timed_start t = \<lparr>clock = t, manager = peer_manager_new, inbox = [], fired = {}, next_tick = None,
     heard = (\<lambda>_. []), arrived = (\<lambda>_. t), sent = []\<rparr>"

text \<open>A message that resets the watchdog for \<open>i\<close>, an effect that sends one to \<open>i\<close>, and a message that reports \<open>i\<close> down.\<close>

definition sign_of_life :: "uuid \<Rightarrow> peer_manager_request \<Rightarrow> bool" where
  "sign_of_life i m \<longleftrightarrow> m = Request i Heartbeat \<or> m = Request i SubscriptionStarted"

fun sends_life :: "uuid \<Rightarrow> effect \<Rightarrow> bool" where
  "sends_life i (Cast_packet_handler (SendMessage j m)) \<longleftrightarrow>
     i = j \<and> msg_body m \<in> {PeerRequest Heartbeat, PeerRequest SubscriptionStarted}"
| "sends_life i e \<longleftrightarrow> False"

fun reports_down :: "uuid \<Rightarrow> peer_manager_request \<Rightarrow> bool" where
  "reports_down i (Request j (PeerStatus st)) \<longleftrightarrow> status_state st = Down \<and> peer_id (status_peer st) = i"
| "reports_down i m \<longleftrightarrow> False"

definition due :: "delayed \<Rightarrow> nat" where
  "due d = delayed_spawned d + delayed_millis d * 1000000"

subsection \<open>Steps\<close>

definition receive :: "peer_manager_request \<Rightarrow> timed \<Rightarrow> timed" where
  "receive m \<sigma> = \<sigma>\<lparr>inbox := inbox \<sigma> @ [(clock \<sigma>, m)],
     arrived := (\<lambda>i. if sign_of_life i m then clock \<sigma> else arrived \<sigma> i)\<rparr>"

text \<open>The state after the first message has been handled with the given effects and result.\<close>

definition handled :: "peer_manager_request \<Rightarrow> effect list \<Rightarrow> peer_manager \<Rightarrow> timed \<Rightarrow> timed" where
  "handled m es s' \<sigma> = \<sigma>\<lparr>manager := s', inbox := tl (inbox \<sigma>),
     next_tick := (if heartbeat (manager \<sigma>) = None \<and> heartbeat s' \<noteq> None then Some (clock \<sigma>) else next_tick \<sigma>),
     heard := (\<lambda>i. if sign_of_life i m then clock \<sigma> # heard \<sigma> i else heard \<sigma> i),
     sent := sent \<sigma> @ map (Pair (clock \<sigma>)) es\<rparr>"

text \<open>Time may pass until \<open>t\<close> if nothing is then overdue by more than the latency.\<close>

definition in_time :: "nat \<Rightarrow> nat \<Rightarrow> timed \<Rightarrow> bool" where
  "in_time L t \<sigma> \<longleftrightarrow> (\<forall>(a, m) \<in> set (inbox \<sigma>). t \<le> a + L) \<and>
     (\<forall>d \<in> ran (heartbeat_watchdogs (manager \<sigma>)) - fired \<sigma>. t \<le> due d + L) \<and>
     (\<forall>n. next_tick \<sigma> = Some n \<longrightarrow> t \<le> n + L)"

text \<open>
  An interval ticks at once when it is created. The next deadline is one period after the last one, or after the
  tick if that was late (\<open>MissedTickBehavior::Delay\<close>).
\<close>

inductive timed_step :: "'r chooser \<Rightarrow> nodeinfo \<Rightarrow> nat \<Rightarrow> timed \<Rightarrow> timed \<Rightarrow> bool"
  for C N L where
  passes: "clock \<sigma> \<le> t \<Longrightarrow> in_time L t \<sigma> \<Longrightarrow> timed_step C N L \<sigma> (\<sigma>\<lparr>clock := t\<rparr>)"
| arrives: "timed_step C N L \<sigma> (receive m \<sigma>)"
| watchdog_fires: "heartbeat_watchdogs (manager \<sigma>) i = Some d \<Longrightarrow> d \<notin> fired \<sigma> \<Longrightarrow> due d \<le> clock \<sigma> \<Longrightarrow>
    delayed_future d = Future_cast_peer_manager m \<Longrightarrow>
    timed_step C N L \<sigma> (receive m (\<sigma>\<lparr>fired := insert d (fired \<sigma>)\<rparr>))"
| ticks: "heartbeat (manager \<sigma>) = Some h \<Longrightarrow> interval_future h = Future_cast_peer_manager m \<Longrightarrow>
    next_tick \<sigma> = Some n \<Longrightarrow> n \<le> clock \<sigma> \<Longrightarrow>
    n + interval_millis h * 1000000 \<le> n' \<Longrightarrow> n' \<le> clock \<sigma> + interval_millis h * 1000000 \<Longrightarrow>
    timed_step C N L \<sigma> (receive m (\<sigma>\<lparr>next_tick := Some n'\<rparr>))"
| handles: "inbox \<sigma> = (a, m) # ms \<Longrightarrow> instant_now I = clock \<sigma> \<Longrightarrow> order_law I \<Longrightarrow> draw_law I \<Longrightarrow>
    pm_handle_message C N I m (manager \<sigma>) = (es, Inr s') \<Longrightarrow>
    timed_step C N L \<sigma> (handled m es s' \<sigma>)"

inductive_cases timed_stepE: "timed_step C N L \<sigma> \<tau>"

lemma receive_simps [simp]:
  "clock (receive m \<sigma>) = clock \<sigma>" "manager (receive m \<sigma>) = manager \<sigma>" "fired (receive m \<sigma>) = fired \<sigma>"
  "inbox (receive m \<sigma>) = inbox \<sigma> @ [(clock \<sigma>, m)]" "next_tick (receive m \<sigma>) = next_tick \<sigma>"
  "heard (receive m \<sigma>) = heard \<sigma>" "sent (receive m \<sigma>) = sent \<sigma>"
  "arrived (receive m \<sigma>) i = (if sign_of_life i m then clock \<sigma> else arrived \<sigma> i)"
  by (simp_all add: receive_def)

lemma handled_simps [simp]:
  "clock (handled m es s' \<sigma>) = clock \<sigma>" "manager (handled m es s' \<sigma>) = s'" "fired (handled m es s' \<sigma>) = fired \<sigma>"
  "inbox (handled m es s' \<sigma>) = tl (inbox \<sigma>)" "arrived (handled m es s' \<sigma>) = arrived \<sigma>"
  "sent (handled m es s' \<sigma>) = sent \<sigma> @ map (Pair (clock \<sigma>)) es"
  "heard (handled m es s' \<sigma>) i = (if sign_of_life i m then clock \<sigma> # heard \<sigma> i else heard \<sigma> i)"
  "next_tick (handled m es s' \<sigma>) =
     (if heartbeat (manager \<sigma>) = None \<and> heartbeat s' \<noteq> None then Some (clock \<sigma>) else next_tick \<sigma>)"
  by (simp_all add: handled_def)

lemma sign_of_life_simps [simp]:
  "sign_of_life i (Request j Heartbeat) \<longleftrightarrow> i = j" "sign_of_life i (Request j SubscriptionStarted) \<longleftrightarrow> i = j"
  "\<not> sign_of_life i SendHeartbeat" "\<not> sign_of_life i (Request j (PeerStatus st))"
  "\<not> sign_of_life i (Request j StartSubscription)"
  by (auto simp: sign_of_life_def)

lemma watchdog_for_simps [simp]:
  "delayed_spawned (watchdog_for N t p) = t" "due (watchdog_for N t p) = t + 15000000000"
  "delayed_future (watchdog_for N t p) =
     Future_cast_peer_manager (Request (node_id N) (PeerStatus \<lparr>status_peer = p, status_state = Down\<rparr>))"
  by (simp_all add: watchdog_for_def delayed_new_def due_def HEARTBEAT_MISSED_INTERVAL_MILLIS_def
      HEARTBEAT_INTERVAL_MILLIS_def)

subsection \<open>What one activation does to watchdogs, subscriptions and heartbeats\<close>

lemma status_after:
  assumes "order_law I" and "known_ok (known s)" and "pm_handle_message C N I (Request j (PeerStatus st)) s = (es, Inr s')"
  shows "subscribers s' \<subseteq> subscribers s \<and> heartbeat s' = heartbeat s \<and>
    (status_state st = Up \<longrightarrow> subscribed_to s' = subscribed_to s \<and> heartbeat_watchdogs s' = heartbeat_watchdogs s) \<and>
    (status_state st = Down \<longrightarrow> subscribed_to s' = subscribed_to s - {peer_id (status_peer st)} \<and>
       heartbeat_watchdogs s' = (heartbeat_watchdogs s)(peer_id (status_peer st) := None))"
proof (cases "status_state st")
  case Up
  with assms have "\<exists>m. s' = arm_reassign N I (s\<lparr>known := m\<rparr>)"
    by (auto simp: act_simps then_do_def add_peer_eq split: if_splits)
  with Up show ?thesis by auto
next
  case Down
  with assms have "s' = arm_reassign N I (s\<lparr>heartbeat_watchdogs := (heartbeat_watchdogs s)(peer_id (status_peer st) := None),
      subscribed_to := subscribed_to s - {peer_id (status_peer st)}, subscribers := subscribers s - {peer_id (status_peer st)},
      known := (known s)(peer_id (status_peer st) := None)\<rparr>)"
    by (auto simp: act_simps then_do_def remove_peer_eq split: if_splits)
  with Down show ?thesis by auto
qed

lemma heartbeat_signs:
  assumes "order_law I" and "pm_handle_message C N I SendHeartbeat s = (es, r)" and "i \<in> subscribers s"
  shows "\<exists>e \<in> set es. sends_life i e"
proof -
  from assms obtain u where "Cast_packet_handler (SendMessage i (peer_message u Heartbeat)) \<in> set es"
    using send_heartbeat_reaches_subscribers [OF assms(1), of C N s] by auto
  then show ?thesis by (rule bexI [rotated]) (simp add: peer_message_def)
qed

lemma pm_message_cases:
  assumes "pm_inv N s" and "order_law I" and "pm_handle_message C N I m s = (es, Inr s')"
  obtains
    (Sign) i where "sign_of_life i m" and "subscribed_to s' \<subseteq> insert i (subscribed_to s)" and "subscribers s' = subscribers s"
      and "heartbeat s' = heartbeat s"
      and "heartbeat_watchdogs s' = (heartbeat_watchdogs s)(i := (if i \<in> subscribed_to s'
        then map_option (watchdog_for N (instant_now I)) (known s i) else None))"
  | (Status) j st where "m = Request j (PeerStatus st)" and "subscribers s' \<subseteq> subscribers s" and "heartbeat s' = heartbeat s"
      and "status_state st = Up \<Longrightarrow> subscribed_to s' = subscribed_to s \<and> heartbeat_watchdogs s' = heartbeat_watchdogs s"
      and "status_state st = Down \<Longrightarrow> subscribed_to s' = subscribed_to s - {peer_id (status_peer st)} \<and>
        heartbeat_watchdogs s' = (heartbeat_watchdogs s)(peer_id (status_peer st) := None)"
  | (Subscription) j where "m = Request j StartSubscription" and "subscribed_to s' = subscribed_to s"
      and "heartbeat_watchdogs s' = heartbeat_watchdogs s" and "subscribers s' \<subseteq> insert j (subscribers s)"
      and "\<exists>e \<in> set es. sends_life j e" and "heartbeat s' = Some (heartbeat_of s)"
  | (Dropped) R where "m = Reassign" and "subscribed_to s' = subscribed_to s - R"
      and "heartbeat_watchdogs s' = heartbeat_watchdogs s |` (- R)" and "subscribers s' = subscribers s" and "heartbeat s' = heartbeat s"
  | (Other) "\<And>i. \<not> sign_of_life i m" and "\<And>i. \<not> reports_down i m" and "subscribed_to s' \<subseteq> subscribed_to s"
      and "heartbeat_watchdogs s' = heartbeat_watchdogs s" and "subscribers s' \<subseteq> subscribers s"
      and "heartbeat s' = heartbeat s \<or> heartbeat s' = Some (heartbeat_of s)"
      and "m = SendHeartbeat \<Longrightarrow> s' = s \<and> (\<forall>i \<in> subscribers s. \<exists>e \<in> set es. sends_life i e)"
proof (cases m)
  case (Request j r)
  note m = this
  show ?thesis
  proof (cases r)
    case (PeerStatus st)
    from assms(1) have "known_ok (known s)" by (simp add: pm_inv_def)
    from status_after [OF assms(2) this assms(3) [unfolded m PeerStatus]] show ?thesis
      by (intro Status [of j st]) (simp_all add: m PeerStatus)
  next
    case SubscriptionStarted
    show ?thesis
      by (rule Sign [of j]) (use assms(3) in \<open>auto simp: m SubscriptionStarted act_simps then_do_def subscription_started_def reset_heartbeat_watchdog_eq split: option.splits\<close>)
  next
    case Heartbeat
    show ?thesis
      by (rule Sign [of j]) (use assms(3) in \<open>auto simp: m Heartbeat reset_heartbeat_watchdog_eq\<close>)
  next
    case StartSubscription
    show ?thesis
      by (rule Subscription [of j]) (use assms(3) in \<open>auto simp: m StartSubscription start_subscription_eq Let_def peer_message_def split: if_splits\<close>)
  next
    case (Peers ps)
    show ?thesis
      by (rule Other) (use assms(3) in \<open>auto simp: m Peers update_peers_eq sign_of_life_def split: prod.splits if_splits\<close>)
  next
    case EndSubscription
    show ?thesis
      by (rule Other) (use assms(3) in \<open>auto simp: m EndSubscription act_simps then_do_def end_subscription_def
            update_subscribers_def sign_of_life_def\<close>)
  next
    case PeerList
    show ?thesis
      by (rule Other) (use assms(3) in \<open>auto simp: m PeerList act_simps send_peerlist_def sign_of_life_def\<close>)
  qed
next
  case Reassign
  with assms(3) obtain X where "trigger_reassignment I (X - subscribed_to s) (subscribed_to s - X) s = (es, Inr s')"
    by (auto simp: reassign_def act_simps with_result_def split: sum.splits)
  then show ?thesis
    by (intro Dropped [of "subscribed_to s - X"]) (auto simp: Reassign trigger_reassignment_eq assms(2) drop_subscriptions_def)
next
  case SendHeartbeat
  with assms have "\<exists>e \<in> set es. sends_life i e" if "i \<in> subscribers s" for i using that by (auto intro: heartbeat_signs)
  with assms(3) show ?thesis
    by (intro Other) (auto simp: SendHeartbeat send_heartbeat_eq)
next
  case StartHeartbeats
  show ?thesis
    by (rule Other) (use assms(3) in \<open>auto simp: StartHeartbeats start_heartbeats_eq sign_of_life_def\<close>)
next
  case Shutdown
  show ?thesis
    by (rule Other) (use assms(3) in \<open>auto simp: Shutdown shutdown_eq sign_of_life_def\<close>)
next
  case (SetNotify n)
  show ?thesis
    by (rule Other) (use assms(3) in \<open>auto simp: SetNotify act_simps sign_of_life_def\<close>)
next
  case GetSubscriberCount
  show ?thesis
    by (rule Other) (use assms(3) in \<open>auto simp: GetSubscriberCount act_simps sign_of_life_def\<close>)
qed

lemma watchdog_after:
  assumes "pm_inv N s" and "order_law I" and "pm_handle_message C N I m s = (es, Inr s')" and "heartbeat_watchdogs s' i = Some d"
  shows "if sign_of_life i m then delayed_spawned d = instant_now I \<and> instant_now I < due d
    else heartbeat_watchdogs s i = Some d \<and> \<not> reports_down i m"
  using assms(1-3)
proof (cases rule: pm_message_cases)
  case (Sign j)
  with assms(4) show ?thesis by (auto simp: sign_of_life_def split: if_splits)
next
  case (Status j st)
  with assms(4) show ?thesis by (cases "status_state st") (auto split: if_splits)
next
  case (Dropped R)
  with assms(4) show ?thesis by (auto simp: sign_of_life_def restrict_map_def split: if_splits)
qed (use assms(4) in auto)

text \<open>A subscription that is watched stays watched as long as it lasts and nothing is heard.\<close>

lemma subscription_after:
  assumes "pm_inv N s" and "order_law I" and "pm_handle_message C N I m s = (es, Inr s')"
    and "\<not> sign_of_life i m" and "i \<in> subscribed_to s \<Longrightarrow> heartbeat_watchdogs s i = Some d" and "i \<in> subscribed_to s'"
  shows "heartbeat_watchdogs s' i = Some d"
  using assms(1-3)
proof (cases rule: pm_message_cases)
  case (Sign j)
  with assms(4-6) show ?thesis by (auto simp: sign_of_life_def)
next
  case (Status j st)
  with assms(4-6) show ?thesis by (cases "status_state st") auto
qed (use assms(4-6) in \<open>auto simp: restrict_map_def\<close>)

lemma subscriber_after:
  assumes "pm_inv N s" and "order_law I" and "pm_handle_message C N I m s = (es, Inr s')" and "i \<in> subscribers s'"
  shows "i \<in> subscribers s \<and> m \<noteq> SendHeartbeat \<or> (\<exists>e \<in> set es. sends_life i e)"
  using assms(1-3)
proof (cases rule: pm_message_cases)
  case (Sign j)
  with assms(4) show ?thesis by (auto simp: sign_of_life_def)
qed (use assms(4) in auto)

lemma heartbeat_after:
  assumes "pm_inv N s" and "order_law I" and "pm_handle_message C N I m s = (es, Inr s')"
  shows "heartbeat s = Some h \<Longrightarrow> heartbeat s' = Some h"
    and "subscribers s \<noteq> {} \<Longrightarrow> heartbeat s \<noteq> None \<Longrightarrow> subscribers s' \<noteq> {} \<Longrightarrow> heartbeat s' \<noteq> None"
    and "subscribers s = {} \<Longrightarrow> subscribers s' \<noteq> {} \<Longrightarrow> heartbeat s' \<noteq> None"
proof -
  have *: "heartbeat_of s = h" if "heartbeat s = Some h" for h using that by (simp add: heartbeat_of_def)
  from assms show keep: "heartbeat s' = Some h" if "heartbeat s = Some h" for h
    by (cases rule: pm_message_cases) (use that * in auto)
  show "heartbeat s' \<noteq> None" if "heartbeat s \<noteq> None" using that keep by auto
  from assms show "heartbeat s' \<noteq> None" if "subscribers s = {}" "subscribers s' \<noteq> {}"
    by (cases rule: pm_message_cases) (use that in auto)
qed

subsection \<open>Invariant\<close>

text \<open>
  A watchdog was spawned when its peer was last heard of; once it has fired, its report waits in the mailbox. The next
  tick is at most a period away, and a subscriber was sent a sign of life at most a period before the next tick, or before
  a tick that waits in the mailbox.
\<close>

definition watched :: "nat \<Rightarrow> timed \<Rightarrow> uuid \<Rightarrow> delayed \<Rightarrow> bool" where
  "watched L \<sigma> i d \<longleftrightarrow> (\<exists>ts. heard \<sigma> i = delayed_spawned d # ts) \<and> delayed_spawned d \<le> clock \<sigma> \<and>
     (if d \<in> fired \<sigma> then \<exists>(a, m) \<in> set (inbox \<sigma>). reports_down i m \<and> a \<le> due d + L else clock \<sigma> \<le> due d + L)"

definition watchdog_inv :: "nat \<Rightarrow> timed \<Rightarrow> bool" where
  "watchdog_inv L \<sigma> \<longleftrightarrow> (\<forall>i d. heartbeat_watchdogs (manager \<sigma>) i = Some d \<longrightarrow> watched L \<sigma> i d)"

definition tick_inv :: "nat \<Rightarrow> timed \<Rightarrow> bool" where
  "tick_inv L \<sigma> \<longleftrightarrow> (next_tick \<sigma> = None \<longleftrightarrow> heartbeat (manager \<sigma>) = None) \<and>
     (subscribers (manager \<sigma>) \<noteq> {} \<longrightarrow> heartbeat (manager \<sigma>) \<noteq> None) \<and>
     (\<forall>n. next_tick \<sigma> = Some n \<longrightarrow> n \<le> clock \<sigma> + 5000000000 \<and> clock \<sigma> \<le> n + L)"

definition beat_due :: "nat \<Rightarrow> timed \<Rightarrow> nat \<Rightarrow> bool" where
  "beat_due L \<sigma> a \<longleftrightarrow> (\<exists>b. (b, SendHeartbeat) \<in> set (inbox \<sigma>) \<and> b \<le> a + 5000000000 + L) \<or>
     (\<exists>n. next_tick \<sigma> = Some n \<and> n \<le> a + 5000000000)"

definition beat_inv :: "nat \<Rightarrow> timed \<Rightarrow> bool" where
  "beat_inv L \<sigma> \<longleftrightarrow> (\<forall>i \<in> subscribers (manager \<sigma>). \<exists>(a, e) \<in> set (sent \<sigma>). sends_life i e \<and> beat_due L \<sigma> a)"

definition timed_inv :: "nodeinfo \<Rightarrow> nat \<Rightarrow> timed \<Rightarrow> bool" where
  "timed_inv N L \<sigma> \<longleftrightarrow> pm_inv N (manager \<sigma>) \<and>
     (\<forall>(a, m) \<in> set (inbox \<sigma>). a \<le> clock \<sigma> \<and> clock \<sigma> \<le> a + L) \<and>
     (\<forall>d \<in> fired \<sigma>. due d \<le> clock \<sigma>) \<and> (\<forall>(a, e) \<in> set (sent \<sigma>). a \<le> clock \<sigma>) \<and>
     (\<forall>i. arrived \<sigma> i \<le> clock \<sigma>) \<and>
     watchdog_inv L \<sigma> \<and> tick_inv L \<sigma> \<and> beat_inv L \<sigma>"

lemma watchdog_inv_receive:
  assumes "watchdog_inv L \<sigma>"
  shows "watchdog_inv L (receive m \<sigma>)"
proof -
  have "watched L (receive m \<sigma>) i d" if "watched L \<sigma> i d" for i d using that by (auto simp: watched_def)
  with assms show ?thesis by (simp add: watchdog_inv_def)
qed

lemma watchdog_inv_fires:
  assumes "watchdog_inv L \<sigma>" and "pm_inv N (manager \<sigma>)" and "heartbeat_watchdogs (manager \<sigma>) i = Some d" and "d \<notin> fired \<sigma>"
    and "delayed_future d = Future_cast_peer_manager m"
  shows "watchdog_inv L (receive m (\<sigma>\<lparr>fired := insert d (fired \<sigma>)\<rparr>))"
proof -
  have reports: "reports_down j m" if "heartbeat_watchdogs (manager \<sigma>) j = Some d" for j
  proof -
    from that assms(2) obtain t p where "peer_id p = j" "d = watchdog_for N t p" unfolding pm_inv_def by blast
    with assms(5) show ?thesis by auto
  qed
  have "clock \<sigma> \<le> due d + L" using assms(1,3,4) by (simp add: watchdog_inv_def watched_def)
  then have "watched L (receive m (\<sigma>\<lparr>fired := insert d (fired \<sigma>)\<rparr>)) j d'"
    if "watched L \<sigma> j d'" "heartbeat_watchdogs (manager \<sigma>) j = Some d'" for j d'
    using that reports by (cases "d' = d") (auto simp: watched_def)
  with assms(1) show ?thesis by (simp add: watchdog_inv_def)
qed

lemma watchdog_inv_handled:
  assumes "timed_inv N L \<sigma>" and "inbox \<sigma> = (a, m) # ms" and "instant_now I = clock \<sigma>" and "order_law I"
    and "pm_handle_message C N I m (manager \<sigma>) = (es, Inr s')"
  shows "watchdog_inv L (handled m es s' \<sigma>)"
  unfolding watchdog_inv_def
proof (intro allI impI)
  fix i d
  assume d: "heartbeat_watchdogs (manager (handled m es s' \<sigma>)) i = Some d"
  from assms(1) have inv: "pm_inv N (manager \<sigma>)" and fired: "\<forall>d \<in> fired \<sigma>. due d \<le> clock \<sigma>" and watch: "watchdog_inv L \<sigma>"
    by (simp_all add: timed_inv_def)
  have after: "if sign_of_life i m then delayed_spawned d = clock \<sigma> \<and> clock \<sigma> < due d
      else heartbeat_watchdogs (manager \<sigma>) i = Some d \<and> \<not> reports_down i m"
    using watchdog_after [OF inv assms(4,5), of i d] d assms(3) by (simp split: if_splits)
  show "watched L (handled m es s' \<sigma>) i d"
  proof (cases "sign_of_life i m")
    case True
    with after fired show ?thesis by (auto simp: watched_def)
  next
    case False
    with after have "heartbeat_watchdogs (manager \<sigma>) i = Some d" by simp
    with watch have "watched L \<sigma> i d" by (simp add: watchdog_inv_def)
    with False after show ?thesis by (auto simp: watched_def assms(2))
  qed
qed

lemma tick_inv_handled:
  assumes "timed_inv N L \<sigma>" and "order_law I" and "pm_handle_message C N I m (manager \<sigma>) = (es, Inr s')"
  shows "tick_inv L (handled m es s' \<sigma>)"
proof -
  from assms(1) have inv: "pm_inv N (manager \<sigma>)" and tick: "tick_inv L \<sigma>" by (simp_all add: timed_inv_def)
  note after = heartbeat_after [OF inv assms(2,3)]
  show ?thesis
  proof (cases "heartbeat (manager \<sigma>)")
    case None
    with tick have "subscribers (manager \<sigma>) = {}" "next_tick \<sigma> = None" by (auto simp: tick_inv_def)
    with None after(3) show ?thesis by (auto simp: tick_inv_def)
  next
    case (Some h)
    with after(1) [OF Some] tick show ?thesis by (auto simp: tick_inv_def)
  qed
qed

lemma beat_invI:
  "(\<And>i. i \<in> subscribers (manager \<sigma>) \<Longrightarrow> \<exists>a e. (a, e) \<in> set (sent \<sigma>) \<and> sends_life i e \<and> beat_due L \<sigma> a) \<Longrightarrow> beat_inv L \<sigma>"
  unfolding beat_inv_def by fast

lemma beat_invE:
  assumes "beat_inv L \<sigma>" and "i \<in> subscribers (manager \<sigma>)"
  obtains a e where "(a, e) \<in> set (sent \<sigma>)" and "sends_life i e" and "beat_due L \<sigma> a"
  using assms unfolding beat_inv_def by fast

lemma beat_inv_mono:
  assumes "beat_inv L \<sigma>" and "subscribers (manager \<tau>) = subscribers (manager \<sigma>)" and "sent \<tau> = sent \<sigma>"
    and "\<And>a. beat_due L \<sigma> a \<Longrightarrow> beat_due L \<tau> a"
  shows "beat_inv L \<tau>"
proof (rule beat_invI)
  fix i
  assume "i \<in> subscribers (manager \<tau>)"
  with assms(1,2) obtain a e where "(a, e) \<in> set (sent \<sigma>)" "sends_life i e" "beat_due L \<sigma> a"
    by (auto elim: beat_invE)
  with assms(3,4) show "\<exists>a e. (a, e) \<in> set (sent \<tau>) \<and> sends_life i e \<and> beat_due L \<tau> a" by auto
qed

lemma beat_inv_receive: "beat_inv L \<sigma> \<Longrightarrow> beat_inv L (receive m \<sigma>)"
  by (erule beat_inv_mono) (auto simp: beat_due_def)

lemma beat_inv_ticks:
  assumes "beat_inv L \<sigma>" and "next_tick \<sigma> = Some n" and "clock \<sigma> \<le> n + L"
  shows "beat_inv L (receive SendHeartbeat (\<sigma>\<lparr>next_tick := Some n'\<rparr>))"
  by (rule beat_inv_mono [OF assms(1)]) (use assms(2,3) in \<open>auto simp: beat_due_def\<close>)

lemma beat_inv_handled:
  assumes "timed_inv N L \<sigma>" and "inbox \<sigma> = (a, m) # ms" and "order_law I"
    and "pm_handle_message C N I m (manager \<sigma>) = (es, Inr s')"
  shows "beat_inv L (handled m es s' \<sigma>)"
proof (rule beat_invI)
  let ?\<tau> = "handled m es s' \<sigma>"
  fix i
  assume i: "i \<in> subscribers (manager ?\<tau>)"
  from assms(1) have inv: "pm_inv N (manager \<sigma>)" and beat: "beat_inv L \<sigma>" by (simp_all add: timed_inv_def)
  have tick: "tick_inv L ?\<tau>" by (rule tick_inv_handled [OF assms(1,3,4)])
  from subscriber_after [OF inv assms(3,4), of i] i
  have "i \<in> subscribers (manager \<sigma>) \<and> m \<noteq> SendHeartbeat \<or> (\<exists>e \<in> set es. sends_life i e)" by simp
  then show "\<exists>a e. (a, e) \<in> set (sent ?\<tau>) \<and> sends_life i e \<and> beat_due L ?\<tau> a"
  proof
    assume *: "i \<in> subscribers (manager \<sigma>) \<and> m \<noteq> SendHeartbeat"
    with beat obtain c e where "(c, e) \<in> set (sent \<sigma>)" "sends_life i e" "beat_due L \<sigma> c" by (auto elim: beat_invE)
    moreover have "next_tick ?\<tau> = Some n" if "next_tick \<sigma> = Some n" for n
      using that assms(1) by (auto simp: timed_inv_def tick_inv_def)
    ultimately show ?thesis
      using * by (intro exI [of _ c] exI [of _ e]) (auto simp: beat_due_def assms(2))
  next
    assume "\<exists>e \<in> set es. sends_life i e"
    moreover from tick i obtain n where "next_tick ?\<tau> = Some n" "n \<le> clock \<sigma> + 5000000000"
      unfolding tick_inv_def by fastforce
    ultimately show ?thesis by (intro exI [of _ "clock \<sigma>"]) (auto simp: beat_due_def)
  qed
qed

lemma timed_inv_passes:
  assumes "timed_inv N L \<sigma>" and "clock \<sigma> \<le> t" and "in_time L t \<sigma>"
  shows "timed_inv N L (\<sigma>\<lparr>clock := t\<rparr>)"
proof -
  have "watchdog_inv L (\<sigma>\<lparr>clock := t\<rparr>)"
    unfolding watchdog_inv_def
  proof (intro allI impI)
    fix i d
    assume "heartbeat_watchdogs (manager (\<sigma>\<lparr>clock := t\<rparr>)) i = Some d"
    then have d: "heartbeat_watchdogs (manager \<sigma>) i = Some d" by simp
    with assms(3) have "d \<notin> fired \<sigma> \<Longrightarrow> t \<le> due d + L" by (auto simp: in_time_def ran_def)
    moreover from d assms(1) have "watched L \<sigma> i d" by (simp add: timed_inv_def watchdog_inv_def)
    ultimately show "watched L (\<sigma>\<lparr>clock := t\<rparr>) i d" using assms(2) by (simp add: watched_def)
  qed
  moreover have "tick_inv L (\<sigma>\<lparr>clock := t\<rparr>)"
    using assms by (auto simp: timed_inv_def tick_inv_def in_time_def)
  moreover have "beat_inv L (\<sigma>\<lparr>clock := t\<rparr>)"
    using assms(1) by (simp add: timed_inv_def beat_inv_def beat_due_def)
  moreover have "\<forall>(a, m) \<in> set (inbox \<sigma>). a \<le> t \<and> t \<le> a + L"
    using assms by (auto simp: timed_inv_def in_time_def)
  moreover have "\<forall>d \<in> fired \<sigma>. due d \<le> t" "\<forall>i. arrived \<sigma> i \<le> t"
    using assms(1,2) by (auto simp: timed_inv_def intro: order_trans)
  moreover have "\<forall>(a, e) \<in> set (sent \<sigma>). a \<le> t"
  proof -
    from assms(1) have "\<forall>x \<in> set (sent \<sigma>). fst x \<le> clock \<sigma>" by (simp add: timed_inv_def split_def)
    with assms(2) show ?thesis by (auto simp: split_def intro: order_trans)
  qed
  ultimately show ?thesis using assms(1) by (simp add: timed_inv_def)
qed

lemma timed_inv_step:
  assumes "chooser_law C" and "timed_inv N L \<sigma>" and "timed_step C N L \<sigma> \<tau>"
  shows "timed_inv N L \<tau>"
  using assms(3)
proof cases
  case (passes t)
  with assms(2) show ?thesis by (simp add: timed_inv_passes)
next
  case (arrives m)
  with assms(2) show ?thesis
    by (auto simp: timed_inv_def tick_inv_def intro: watchdog_inv_receive beat_inv_receive)
next
  case (watchdog_fires i d m)
  let ?\<rho> = "\<sigma>\<lparr>fired := insert d (fired \<sigma>)\<rparr>"
  have "watchdog_inv L (receive m ?\<rho>)"
    by (rule watchdog_inv_fires [where N = N]) (use assms(2) watchdog_fires in \<open>simp_all add: timed_inv_def\<close>)
  moreover have "beat_inv L (receive m ?\<rho>)"
    using assms(2) by (intro beat_inv_receive) (simp add: timed_inv_def beat_inv_def beat_due_def)
  ultimately show ?thesis using assms(2) watchdog_fires by (auto simp: timed_inv_def tick_inv_def)
next
  case (ticks h m n n')
  from assms(2) ticks have h: "m = SendHeartbeat" "interval_millis h = 5000"
    by (auto simp: timed_inv_def pm_inv_def interval_new_def HEARTBEAT_INTERVAL_MILLIS_def)
  from assms(2) ticks have n: "clock \<sigma> \<le> n + L" by (simp add: timed_inv_def tick_inv_def)
  let ?\<tau> = "receive m (\<sigma>\<lparr>next_tick := Some n'\<rparr>)"
  have "watchdog_inv L ?\<tau>"
    using assms(2) by (intro watchdog_inv_receive) (simp add: timed_inv_def watchdog_inv_def watched_def)
  moreover have "beat_inv L ?\<tau>"
    using assms(2) ticks n by (simp add: h beat_inv_ticks timed_inv_def)
  moreover have "tick_inv L ?\<tau>" using assms(2) ticks n h by (auto simp: timed_inv_def tick_inv_def)
  ultimately show ?thesis using assms(2) ticks(1) by (auto simp: timed_inv_def)
next
  case (handles a m ms I es s')
  have "pm_inv N s'"
    using wp_InrD(1) [OF pm_inv_handle_message [OF assms(1) handles(4,5)] handles(6)] assms(2) by (simp add: timed_inv_def)
  moreover have "watchdog_inv L \<tau>" "tick_inv L \<tau>" "beat_inv L \<tau>"
    unfolding handles(1)
    by (rule watchdog_inv_handled [OF assms(2) handles(2,3,4,6)] tick_inv_handled [OF assms(2) handles(4,6)]
        beat_inv_handled [OF assms(2) handles(2,4,6)])+
  ultimately show ?thesis using assms(2) handles(1,2) by (auto simp: timed_inv_def)
qed

lemma timed_inv_start: "timed_inv N L (timed_start t)"
  by (simp add: timed_inv_def timed_start_def pm_inv_init watchdog_inv_def tick_inv_def beat_inv_def)
    (simp add: peer_manager_new_def)

interpretation timed: transition_system "\<lambda>\<sigma>. \<exists>t. \<sigma> = timed_start t" "timed_step C N L" "\<lambda>\<sigma>. chooser_law C \<longrightarrow> timed_inv N L \<sigma>"
  for C N L
  by unfold_locales (auto intro: timed_inv_start timed_inv_step)

lemma timed_reachable: "(timed_step C N L)\<^sup>*\<^sup>* (timed_start t) \<sigma> \<Longrightarrow> chooser_law C \<Longrightarrow> timed_inv N L \<sigma>"
  using timed.reachable_inv by blast

lemma timed_inv_steps:
  assumes "(timed_step C N L)\<^sup>*\<^sup>* \<sigma> \<tau>" and "chooser_law C" and "timed_inv N L \<sigma>"
  shows "timed_inv N L \<tau>"
  using assms by induction (auto intro: timed_inv_step)

lemma clock_mono: "timed_step C N L \<sigma> \<tau> \<Longrightarrow> clock \<sigma> \<le> clock \<tau>"
  by (cases rule: timed_step.cases) auto

lemma life_sent:
  assumes "timed_inv N L \<sigma>" and "i \<in> subscribers (manager \<sigma>)"
  shows "\<exists>(a, e) \<in> set (sent \<sigma>). sends_life i e \<and> clock \<sigma> \<le> a + 5000000000 + 2 * L"
proof -
  from assms obtain a e where e: "(a, e) \<in> set (sent \<sigma>)" "sends_life i e" and beat: "beat_due L \<sigma> a"
    by (auto simp: timed_inv_def elim: beat_invE)
  from beat have "clock \<sigma> \<le> a + 5000000000 + 2 * L"
    unfolding beat_due_def
  proof (elim disjE exE conjE)
    fix b assume "(b, SendHeartbeat) \<in> set (inbox \<sigma>)" "b \<le> a + 5000000000 + L"
    with assms(1) show ?thesis by (fastforce simp: timed_inv_def)
  next
    fix n assume "next_tick \<sigma> = Some n" "n \<le> a + 5000000000"
    with assms(1) show ?thesis by (fastforce simp: timed_inv_def tick_inv_def)
  qed
  with e show ?thesis by (intro bexI [of _ "(a, e)"]) simp_all
qed

subsection \<open>Time can always pass\<close>

text \<open>The peer manager can empty its mailbox at once.\<close>

lemma inbox_drains:
  assumes "chooser_law C" and "timed_inv N L \<sigma>"
  shows "\<exists>\<tau>. (timed_step C N L)\<^sup>*\<^sup>* \<sigma> \<tau> \<and> inbox \<tau> = [] \<and> clock \<tau> = clock \<sigma>"
  using assms(2)
proof (induction "inbox \<sigma>" arbitrary: \<sigma>)
  case Nil
  then show ?case by (intro exI [of _ \<sigma>]) simp
next
  case (Cons x ms)
  obtain a m where x: "x = (a, m)" by (cases x)
  define I where "I = sample_inputs\<lparr>instant_now := clock \<sigma>\<rparr>"
  have laws: "order_law I" "draw_law I" "instant_now I = clock \<sigma>"
    using sample_order_law sample_draw_law by (simp_all add: I_def order_law_def draw_law_def)
  from Cons.prems have "pm_inv N (manager \<sigma>)" by (simp add: timed_inv_def)
  from wp_total [OF pm_inv_handle_message [OF assms(1) laws(1,2) this, of m]]
  obtain es s' where "pm_handle_message C N I m (manager \<sigma>) = (es, Inr s')" by blast
  with laws Cons.hyps(2) x have step: "timed_step C N L \<sigma> (handled m es s' \<sigma>)"
    by (intro handles [of \<sigma> a m ms I]) simp_all
  have "ms = inbox (handled m es s' \<sigma>)" using Cons.hyps(2) by simp (metis list.sel(3))
  from Cons.hyps(1) [OF this timed_inv_step [OF assms(1) Cons.prems step]]
  obtain \<tau> where "(timed_step C N L)\<^sup>*\<^sup>* (handled m es s' \<sigma>) \<tau>" "inbox \<tau> = []" "clock \<tau> = clock \<sigma>" by auto
  with step show ?case by (meson converse_rtranclp_into_rtranclp)
qed

definition overdue :: "timed \<Rightarrow> delayed set" where
  "overdue \<sigma> = {d \<in> ran (heartbeat_watchdogs (manager \<sigma>)) - fired \<sigma>. due d \<le> clock \<sigma>}"

lemma finite_overdue: "finite (overdue \<sigma>)"
proof -
  have "finite (ran (heartbeat_watchdogs (manager \<sigma>)))" by (rule finite_ran) simp
  then show ?thesis by (simp add: overdue_def)
qed

lemma watchdogs_fire:
  assumes "timed_inv N L \<sigma>" and "chooser_law C" and "\<forall>(a, m) \<in> set (inbox \<sigma>). a = clock \<sigma>"
  shows "\<exists>\<tau>. (timed_step C N L)\<^sup>*\<^sup>* \<sigma> \<tau> \<and> overdue \<tau> = {} \<and> clock \<tau> = clock \<sigma> \<and> (\<forall>(a, m) \<in> set (inbox \<tau>). a = clock \<tau>)"
  using assms(1,3)
proof (induction "card (overdue \<sigma>)" arbitrary: \<sigma>)
  case 0
  then show ?case by (intro exI [of _ \<sigma>]) (simp add: finite_overdue)
next
  case (Suc n)
  then have "overdue \<sigma> \<noteq> {}" by auto
  then obtain i d where d: "heartbeat_watchdogs (manager \<sigma>) i = Some d" "d \<notin> fired \<sigma>" "due d \<le> clock \<sigma>"
    unfolding overdue_def ran_def by auto
  with Suc.prems(1) obtain t p where "d = watchdog_for N t p" unfolding timed_inv_def pm_inv_def by blast
  then obtain m where m: "delayed_future d = Future_cast_peer_manager m" by simp
  let ?\<rho> = "receive m (\<sigma>\<lparr>fired := insert d (fired \<sigma>)\<rparr>)"
  have step: "timed_step C N L \<sigma> ?\<rho>" by (rule watchdog_fires [OF d m])
  have "overdue ?\<rho> = overdue \<sigma> - {d}" by (auto simp: overdue_def)
  moreover have "d \<in> overdue \<sigma>" using d by (auto simp: overdue_def ran_def)
  ultimately have "n = card (overdue ?\<rho>)" using Suc.hyps(2) finite_overdue by (simp add: card_Diff_singleton)
  from Suc.hyps(1) [OF this timed_inv_step [OF assms(2) Suc.prems(1) step]] Suc.prems(2)
  obtain \<tau> where "(timed_step C N L)\<^sup>*\<^sup>* ?\<rho> \<tau>" "overdue \<tau> = {}" "clock \<tau> = clock \<sigma>" "\<forall>(a, m) \<in> set (inbox \<tau>). a = clock \<tau>"
    by auto
  with step show ?case by (meson converse_rtranclp_into_rtranclp)
qed

text \<open>
  The latency bounds never block time: from every reachable state the peer manager can act such that the clock advances.
\<close>

theorem time_progresses:
  assumes "(timed_step C N L)\<^sup>*\<^sup>* (timed_start t) \<sigma>" and "chooser_law C" and "0 < L"
  shows "\<exists>\<tau>. (timed_step C N L)\<^sup>*\<^sup>* \<sigma> \<tau> \<and> clock \<tau> = Suc (clock \<sigma>)"
proof -
  let ?to = "(timed_step C N L)\<^sup>*\<^sup>*"
  have "timed_inv N L \<sigma>" by (rule timed_reachable [OF assms(1,2)])
  from inbox_drains [OF assms(2) this] obtain \<sigma>1 where 1: "?to \<sigma> \<sigma>1" "inbox \<sigma>1 = []" "clock \<sigma>1 = clock \<sigma>" by blast
  have inv1: "timed_inv N L \<sigma>1" by (rule timed_inv_steps [OF 1(1) assms(2)]) fact
  from watchdogs_fire [OF inv1 assms(2)] 1 obtain \<sigma>2
    where 2: "?to \<sigma>1 \<sigma>2" "overdue \<sigma>2 = {}" "clock \<sigma>2 = clock \<sigma>" "\<forall>(a, m) \<in> set (inbox \<sigma>2). a = clock \<sigma>2" by auto
  have inv2: "timed_inv N L \<sigma>2" by (rule timed_inv_steps [OF 2(1) assms(2) inv1])
  have "\<exists>\<sigma>3. ?to \<sigma>2 \<sigma>3 \<and> in_time L (Suc (clock \<sigma>)) \<sigma>3 \<and> clock \<sigma>3 = clock \<sigma>"
  proof (cases "\<exists>n. next_tick \<sigma>2 = Some n \<and> n \<le> clock \<sigma>")
    case True
    then obtain n where n: "next_tick \<sigma>2 = Some n" "n \<le> clock \<sigma>" by blast
    with inv2 obtain h where h: "heartbeat (manager \<sigma>2) = Some h" by (auto simp: timed_inv_def tick_inv_def)
    with inv2 have hb: "interval_future h = Future_cast_peer_manager SendHeartbeat" "interval_millis h = 5000"
      by (simp_all add: timed_inv_def pm_inv_def interval_new_def HEARTBEAT_INTERVAL_MILLIS_def)
    let ?\<sigma>3 = "receive SendHeartbeat (\<sigma>2\<lparr>next_tick := Some (clock \<sigma>2 + 5000000000)\<rparr>)"
    have "timed_step C N L \<sigma>2 ?\<sigma>3"
      by (rule ticks [OF h hb(1) n(1)]) (use n hb 2 in simp_all)
    moreover have "in_time L (Suc (clock \<sigma>)) ?\<sigma>3"
      using 2 assms(3) by (auto simp: in_time_def overdue_def)
    ultimately show ?thesis using 2(3) by (intro exI [of _ ?\<sigma>3]) auto
  next
    case False
    with 2 assms(3) have "in_time L (Suc (clock \<sigma>)) \<sigma>2" by (auto simp: in_time_def overdue_def)
    with 2(3) show ?thesis by blast
  qed
  then obtain \<sigma>3 where 3: "?to \<sigma>2 \<sigma>3" "in_time L (Suc (clock \<sigma>)) \<sigma>3" "clock \<sigma>3 = clock \<sigma>" by blast
  then have "timed_step C N L \<sigma>3 (\<sigma>3\<lparr>clock := Suc (clock \<sigma>)\<rparr>)" by (intro passes) simp_all
  moreover have "?to \<sigma> \<sigma>3" using 1(1) 2(1) 3(1) by (blast intro: rtranclp_trans)
  ultimately have "?to \<sigma> (\<sigma>3\<lparr>clock := Suc (clock \<sigma>)\<rparr>)" by (rule rtranclp.rtrancl_into_rtrancl [rotated])
  then show ?thesis by (intro exI [of _ "\<sigma>3\<lparr>clock := Suc (clock \<sigma>)\<rparr>"]) simp
qed

end
