(* ===== verification/Timing_Props.thy ===== *)
theory Timing_Props
  imports Timing
begin

text \<open>
  The heartbeat protocol as a failure detector: a peer that falls silent is dropped in bounded time, subscribers are sent
  heartbeats regularly, and together, over a network with bounded delays, a node that keeps its subscriber is never
  reported down.
\<close>

subsection \<open>Sample runs\<close>

text \<open>
  A node hears of another one from a third, and then either is subscribed to by it (it is the publisher) or learns that its own
  subscription has begun (it is the subscriber).
\<close>

definition sample_up :: "uuid \<Rightarrow> peer_manager_request" where
  "sample_up i = Request 7 (PeerStatus \<lparr>status_peer = sample_peer i, status_state = Up\<rparr>)"

definition sample_knows :: "nodeinfo \<Rightarrow> uuid \<Rightarrow> peer_manager" where
  "sample_knows N i = arm_reassign N sample_inputs (peer_manager_new\<lparr>known := [i \<mapsto> sample_peer i]\<rparr>)"

definition sample_publisher :: "nodeinfo \<Rightarrow> uuid \<Rightarrow> peer_manager" where
  "sample_publisher N i = (sample_knows N i)\<lparr>subscribers := {i},
     heartbeat := Some (interval_new 5000 (Future_cast_peer_manager SendHeartbeat))\<rparr>"

definition sample_subscriber :: "nodeinfo \<Rightarrow> uuid \<Rightarrow> peer_manager" where
  "sample_subscriber N i = (sample_knows N i)\<lparr>subscribed_to := {i}, heartbeat_watchdogs := [i \<mapsto> watchdog_for N 1000 (sample_peer i)]\<rparr>"

definition knows_at :: "nodeinfo \<Rightarrow> uuid \<Rightarrow> timed" where
  "knows_at N i = handled (sample_up i) [Call_packet_handler (KeysUpdated (keys_of [i \<mapsto> sample_peer i]))] (sample_knows N i)
     (receive (sample_up i) (timed_start 1000))"

definition publisher_at :: "nodeinfo \<Rightarrow> uuid \<Rightarrow> timed" where
  "publisher_at N i = handled (Request i StartSubscription) [Cast_packet_handler (SubscribersUpdated [i]),
     Cast_packet_handler (SendMessage i (peer_message 1000 SubscriptionStarted))] (sample_publisher N i)
     (receive (Request i StartSubscription) (knows_at N i))"

definition subscriber_at :: "nodeinfo \<Rightarrow> uuid \<Rightarrow> timed" where
  "subscriber_at N i = handled (Request i SubscriptionStarted) [] (sample_subscriber N i)
     (receive (Request i SubscriptionStarted) (knows_at N i))"

lemma timed_start_simps [simp]:
  "clock (timed_start t) = t" "manager (timed_start t) = peer_manager_new" "inbox (timed_start t) = []"
  "fired (timed_start t) = {}" "next_tick (timed_start t) = None" "heard (timed_start t) i = []" "sent (timed_start t) = []"
  "arrived (timed_start t) i = t"
  by (simp_all add: timed_start_def)

lemma sample_instant [simp]: "instant_now sample_inputs = 1000" "new_v4 sample_inputs 0 = 1000"
  by (simp_all add: sample_inputs_def)

lemma knows_at_simps [simp]:
  "clock (knows_at N i) = 1000" "manager (knows_at N i) = sample_knows N i" "inbox (knows_at N i) = []"
  "fired (knows_at N i) = {}" "heard (knows_at N i) j = []" "next_tick (knows_at N i) = None"
  by (simp_all add: knows_at_def sample_up_def) (simp add: peer_manager_new_def sample_knows_def)

lemma sample_knows_simps [simp]:
  "known (sample_knows N i) = [i \<mapsto> sample_peer i]" "subscribers (sample_knows N i) = {}"
  "subscribed_to (sample_knows N i) = {}" "heartbeat (sample_knows N i) = None" "notify_ready (sample_knows N i) = None"
  "heartbeat_watchdogs (sample_knows N i) = Map.empty"
  by (simp_all add: sample_knows_def peer_manager_new_def)

lemma sample_steps:
  assumes "node_id N \<noteq> 7"
  shows "timed_step C N L (receive (sample_up i) (timed_start 1000)) (knows_at N i)"
    and "timed_step C N L (receive (Request i StartSubscription) (knows_at N i)) (publisher_at N i)"
    and "timed_step C N L (receive (Request i SubscriptionStarted) (knows_at N i)) (subscriber_at N i)"
proof -
  show "timed_step C N L (receive (sample_up i) (timed_start 1000)) (knows_at N i)"
    unfolding knows_at_def
    by (rule handles [where I = sample_inputs]) (use assms in \<open>auto simp: sample_up_def sample_knows_def act_simps
        then_do_def add_peer_eq peer_manager_new_def last_write_def known_ok_def\<close>)
  show "timed_step C N L (receive (Request i StartSubscription) (knows_at N i)) (publisher_at N i)"
    unfolding publisher_at_def
    by (rule handles [where I = sample_inputs]) (auto simp: sample_publisher_def start_subscription_eq heartbeat_of_def
        HEARTBEAT_INTERVAL_MILLIS_def)
  show "timed_step C N L (receive (Request i SubscriptionStarted) (knows_at N i)) (subscriber_at N i)"
    unfolding subscriber_at_def
    by (rule handles [where I = sample_inputs]) (auto simp: sample_subscriber_def subscription_started_def
        reset_heartbeat_watchdog_eq act_simps then_do_def)
qed

lemma sample_reachable:
  assumes "node_id N \<noteq> 7"
  shows "(timed_step C N L)\<^sup>*\<^sup>* (timed_start 1000) (publisher_at N i)" "(timed_step C N L)\<^sup>*\<^sup>* (timed_start 1000) (subscriber_at N i)"
  using sample_steps [OF assms, of C L i] by (meson arrives converse_rtranclp_into_rtranclp r_into_rtranclp)+

subsection \<open>A silent peer is dropped\<close>

lemma watched_bound:
  assumes "timed_inv N L \<sigma>" and "heartbeat_watchdogs (manager \<sigma>) i = Some d"
  shows "heard \<sigma> i \<noteq> []" and "due d = hd (heard \<sigma> i) + 15000000000" and "clock \<sigma> \<le> hd (heard \<sigma> i) + 15000000000 + 2 * L"
proof -
  from assms have w: "watched L \<sigma> i d" by (simp add: timed_inv_def watchdog_inv_def)
  from assms obtain t p where d: "d = watchdog_for N t p" unfolding timed_inv_def pm_inv_def by blast
  from w d show due: "due d = hd (heard \<sigma> i) + 15000000000" and "heard \<sigma> i \<noteq> []" by (auto simp: watched_def)
  show "clock \<sigma> \<le> hd (heard \<sigma> i) + 15000000000 + 2 * L"
  proof (cases "d \<in> fired \<sigma>")
    case True
    with w obtain a m where "(a, m) \<in> set (inbox \<sigma>)" "a \<le> due d + L" by (auto simp: watched_def)
    moreover from this assms(1) have "clock \<sigma> \<le> a + L" by (auto simp: timed_inv_def)
    ultimately show ?thesis by (simp add: due)
  next
    case False
    with w show ?thesis by (simp add: watched_def due)
  qed
qed

lemma heard_grows: "timed_step C N L \<sigma> \<tau> \<Longrightarrow> \<exists>ts. heard \<tau> i = ts @ heard \<sigma> i"
  by (cases rule: timed_step.cases) auto

lemma heard_grows_steps: "(timed_step C N L)\<^sup>*\<^sup>* \<sigma> \<tau> \<Longrightarrow> \<exists>ts. heard \<tau> i = ts @ heard \<sigma> i"
proof (induction rule: rtranclp_induct)
  case (step \<tau> \<rho>)
  with heard_grows [OF step.hyps(2), of i] show ?case by (metis append.assoc)
qed simp

text \<open>As long as nothing is heard, the watchdog stays or the subscription ends.\<close>

lemma silent_step:
  assumes "timed_inv N L \<sigma>" and "timed_step C N L \<sigma> \<tau>" and "heard \<tau> i = heard \<sigma> i"
    and "i \<in> subscribed_to (manager \<sigma>) \<Longrightarrow> heartbeat_watchdogs (manager \<sigma>) i = Some d"
    and "i \<in> subscribed_to (manager \<tau>)"
  shows "heartbeat_watchdogs (manager \<tau>) i = Some d"
  using assms(2)
proof cases
  case (handles a m ms I es s')
  with assms(3) have "\<not> sign_of_life i m" by auto
  moreover have inv: "pm_inv N (manager \<sigma>)" using assms(1) by (simp add: timed_inv_def)
  ultimately show ?thesis
    using subscription_after [OF inv handles(4,6)] assms(4,5) handles(1) by simp
qed (use assms(4,5) in auto)

lemma silent_steps:
  assumes "(timed_step C N L)\<^sup>*\<^sup>* \<sigma> \<tau>" and "chooser_law C" and "timed_inv N L \<sigma>" and "heard \<tau> i = heard \<sigma> i"
    and "heartbeat_watchdogs (manager \<sigma>) i = Some d"
  shows "i \<in> subscribed_to (manager \<tau>) \<Longrightarrow> heartbeat_watchdogs (manager \<tau>) i = Some d"
  using assms(1,4)
proof (induction rule: rtranclp_induct)
  case base
  with assms(5) show ?case by simp
next
  case (step \<tau> \<rho>)
  from heard_grows_steps [OF step.hyps(1), of i] obtain ts where ts: "heard \<tau> i = ts @ heard \<sigma> i" by blast
  from heard_grows [OF step.hyps(2), of i] obtain ts' where ts': "heard \<rho> i = ts' @ heard \<tau> i" by blast
  from ts ts' step.prems(2) have "ts' @ ts @ heard \<sigma> i = heard \<sigma> i" by simp
  then have "ts' = []" "ts = []" by (metis append.assoc append_is_Nil_conv append_self_conv2)+
  with ts ts' have heard: "heard \<tau> i = heard \<sigma> i" "heard \<rho> i = heard \<tau> i" by simp_all
  have "timed_inv N L \<tau>" by (rule timed_inv_steps [OF step.hyps(1) assms(2,3)])
  from silent_step [OF this step.hyps(2) heard(2) step.IH [OF _ heard(1)] step.prems(1)] show ?case .
qed

text \<open>
  C8. A peer that falls silent is dropped in bounded time. If a node is subscribed to a known peer (a watchdog runs for it) and
  no further \<open>Heartbeat\<close> or \<open>SubscriptionStarted\<close> of the peer is handled, then 15 seconds and twice the latency after the last
  one the node is no longer subscribed to it, whatever else happens and in whichever order: it has been removed by the watchdog,
  or the subscription had been given up before.
\<close>

theorem silent_peer_dropped:
  assumes "chooser_law C" and "(timed_step C N L)\<^sup>*\<^sup>* (timed_start t) \<sigma>" and "heartbeat_watchdogs (manager \<sigma>) i \<noteq> None"
    and "(timed_step C N L)\<^sup>*\<^sup>* \<sigma> \<tau>" and "heard \<tau> i = heard \<sigma> i" and "hd (heard \<sigma> i) + 15000000000 + 2 * L < clock \<tau>"
  shows "i \<notin> subscribed_to (manager \<tau>)"
proof
  assume "i \<in> subscribed_to (manager \<tau>)"
  from assms(3) obtain d where d: "heartbeat_watchdogs (manager \<sigma>) i = Some d" by auto
  have inv: "timed_inv N L \<sigma>" by (rule timed_reachable [OF assms(2,1)])
  have "heartbeat_watchdogs (manager \<tau>) i = Some d" by (rule silent_steps [OF assms(4,1) inv assms(5) d]) fact
  from watched_bound(3) [OF timed_inv_steps [OF assms(4,1) inv] this] show False using assms(5,6) by simp
qed

theorem silent_peer_dropped_witness:
  "\<exists>\<tau>. (timed_step sample_chooser (sample_node Uniform) 1)\<^sup>*\<^sup>* (subscriber_at (sample_node Uniform) 2) \<tau> \<and>
     clock \<tau> = 15000001003 \<and> 2 \<notin> subscribed_to (manager \<tau>)"
proof -
  let ?N = "sample_node Uniform" and ?t = "15000001000" and ?\<sigma> = "subscriber_at (sample_node Uniform) 2"
  let ?to = "timed_step sample_chooser ?N 1" and ?d = "watchdog_for ?N 1000 (sample_peer 2)"
  let ?m = "Request (node_id ?N) (PeerStatus \<lparr>status_peer = sample_peer 2, status_state = Down\<rparr>)"
  define I where "I = sample_inputs\<lparr>instant_now := ?t\<rparr>"
  have laws: "order_law I" "draw_law I" "instant_now I = ?t"
    using sample_order_law sample_draw_law by (simp_all add: I_def order_law_def draw_law_def)
  let ?\<sigma>1 = "?\<sigma>\<lparr>clock := ?t\<rparr>"
  let ?\<sigma>2 = "receive ?m (?\<sigma>1\<lparr>fired := insert ?d (fired ?\<sigma>1)\<rparr>)"
  have s: "clock ?\<sigma> = 1000" "manager ?\<sigma> = sample_subscriber ?N 2" "inbox ?\<sigma> = []" "fired ?\<sigma> = {}" "next_tick ?\<sigma> = None" "heard ?\<sigma> 2 = [1000]"
    by (simp_all add: subscriber_at_def sample_subscriber_def)
  have 1: "?to ?\<sigma> ?\<sigma>1"
    by (rule passes) (simp_all add: s in_time_def, simp add: sample_subscriber_def)
  have 2: "?to ?\<sigma>1 ?\<sigma>2"
    by (rule watchdog_fires [where i = 2]) (simp_all add: s, simp add: sample_subscriber_def)
  have inv: "pm_inv ?N (manager ?\<sigma>2)"
    using timed_reachable [OF sample_reachable(2) [of ?N sample_chooser 1 2] sample_chooser_law] by (simp add: timed_inv_def sample_node_def)
  from wp_total [OF pm_inv_handle_message [OF sample_chooser_law laws(1,2) inv, of ?m]]
  obtain es s' where h: "pm_handle_message sample_chooser ?N I ?m (manager ?\<sigma>2) = (es, Inr s')" by blast
  let ?\<sigma>3 = "handled ?m es s' ?\<sigma>2"
  have 3: "?to ?\<sigma>2 ?\<sigma>3"
    by (rule handles [OF _ _ laws(1,2) h, where a = ?t and ms = "[]"]) (simp_all add: s laws)
  have s': "heartbeat_watchdogs s' = Map.empty" "heartbeat s' = None"
    using h laws(1) by (auto simp: s sample_subscriber_def act_simps then_do_def remove_peer_eq known_ok_def split: if_splits)
  have 4: "?to ?\<sigma>3 (?\<sigma>3\<lparr>clock := 15000001003\<rparr>)"
    by (rule passes) (simp_all add: s s' in_time_def)
  from 1 2 3 4 have steps: "?to\<^sup>*\<^sup>* ?\<sigma> (?\<sigma>3\<lparr>clock := 15000001003\<rparr>)"
    by (meson converse_rtranclp_into_rtranclp rtranclp.rtrancl_refl)
  have "2 \<notin> subscribed_to (manager (?\<sigma>3\<lparr>clock := 15000001003\<rparr>))"
    by (rule silent_peer_dropped [OF sample_chooser_law sample_reachable(2) [of ?N sample_chooser 1 2] _ steps])
      (simp_all add: s, simp_all add: sample_subscriber_def sample_node_def)
  with steps show ?thesis by (intro exI [of _ "?\<sigma>3\<lparr>clock := 15000001003\<rparr>"]) simp
qed

subsection \<open>Subscribers are sent heartbeats\<close>

text \<open>
  C33. Every subscriber is sent a sign of life at least every 5 seconds plus twice the latency: in every reachable state a
  \<open>Heartbeat\<close>, or the \<open>SubscriptionStarted\<close> that acknowledges it, has been sent to each subscriber no longer ago than that.
\<close>

theorem subscribers_kept_alive:
  assumes "chooser_law C" and "(timed_step C N L)\<^sup>*\<^sup>* (timed_start t) \<sigma>" and "i \<in> subscribers (manager \<sigma>)"
  shows "\<exists>(a, e) \<in> set (sent \<sigma>). sends_life i e \<and> clock \<sigma> \<le> a + 5000000000 + 2 * L"
  using timed_reachable [OF assms(2,1)] assms(3) by (rule life_sent)

theorem subscribers_kept_alive_witness:
  "\<exists>(a, e) \<in> set (sent (publisher_at (sample_node Uniform) 2)). sends_life 2 e \<and> 1000 \<le> a + 5000000000 + 2 * 1"
  using subscribers_kept_alive [OF sample_chooser_law sample_reachable(1) [of "sample_node Uniform" sample_chooser 1 2], of 2]
  by (simp add: publisher_at_def sample_publisher_def sample_node_def)

subsection \<open>A subscription that is not watched\<close>

text \<open>
  If \<open>SubscriptionStarted\<close> of a peer is handled after the peer has been removed, and the peer becomes known again, the node
  believes to be subscribed to it, but no watchdog runs, and reassignments do not subscribe to it again: if the peer has
  forgotten the subscription, nothing repairs it.
\<close>

theorem unwatched_subscription:
  assumes "order_law I" and "order_law J" and "pm_inv N s" and "known s (peer_id p) = None"
  shows "\<exists>es s'. run (\<lambda>x. pm_handle_message (fst x) N (snd x)) [((C, I), Request (peer_id p) SubscriptionStarted),
      ((C, J), Request j (PeerStatus \<lparr>status_peer = p, status_state = Up\<rparr>))] s = (es, Inr s') \<and>
    peer_id p \<in> subscribed_to s' \<and> known s' (peer_id p) = Some p \<and> heartbeat_watchdogs s' (peer_id p) = None \<and>
    (\<forall>C K t u. order_law K \<longrightarrow>
       Cast_packet_handler (SendMessage (peer_id p) (peer_message u StartSubscription)) \<notin> set (fst (pm_handle_message C N K Reassign s')))"
proof -
  have no_request: "Cast_packet_handler (SendMessage i (peer_message u StartSubscription)) \<notin> set (fst (pm_handle_message C N K Reassign s'))"
    if "order_law K" "i \<in> subscribed_to s'" for C :: "'b chooser" and K s' u i
    using that order_lawD(1) [OF that(1)]
    by (auto simp: reassign_def act_simps with_result_def trigger_reassignment_eq subscribe_effect_def unsubscribe_effect_def
        peer_message_def in_set_enumerate_eq split: sum.splits option.splits if_splits dest!: nth_mem)
  from assms(3) have ok: "known_ok (known s)" by (simp add: pm_inv_def)
  show ?thesis
    using assms(1,2,4) ok no_request
    by (cases "notify_ready s")
      (simp_all add: act_simps then_do_def subscription_started_def reset_heartbeat_watchdog_eq add_peer_eq last_write_def)
qed

end
