(* ===== verification/Heartbeat_Link.thy ===== *)
theory Heartbeat_Link
  imports Timing_Props
begin

text \<open>
  The heartbeat protocol between two nodes: the timed peer managers of a publisher and of its subscriber on one clock, and the
  signs of life that the first sends to the second, each of which takes at most \<open>D\<close> nanoseconds. \<open>D\<close> covers the packet handlers of
  both nodes and the network between them; the signs of life may be delivered in any order, and further messages, also
  repeated signs of life, may arrive at both nodes at any time.
\<close>

subsection \<open>A subscriber that hears regularly\<close>

definition watches :: "uuid \<Rightarrow> delayed \<Rightarrow> bool" where
  "watches i d \<longleftrightarrow> (case delayed_future d of Future_cast_peer_manager m \<Rightarrow> reports_down i m | _ \<Rightarrow> False)"

text \<open>The signs of life of \<open>i\<close> that wait in the mailbox, by their instants.\<close>

definition waiting :: "uuid \<Rightarrow> timed \<Rightarrow> nat list" where
  "waiting i \<sigma> = map fst (filter (\<lambda>(a, m). sign_of_life i m) (inbox \<sigma>))"

definition punctual_step :: "'r chooser \<Rightarrow> nodeinfo \<Rightarrow> nat \<Rightarrow> uuid \<Rightarrow> nat \<Rightarrow> timed \<Rightarrow> timed \<Rightarrow> bool" where
  "punctual_step C N L i G \<sigma> \<tau> \<longleftrightarrow> timed_step C N L \<sigma> \<tau> \<and> clock \<tau> \<le> arrived \<tau> i + G"

definition punctual :: "uuid \<Rightarrow> nat \<Rightarrow> timed \<Rightarrow> bool" where
  "punctual i G \<sigma> \<longleftrightarrow> clock \<sigma> \<le> arrived \<sigma> i + G \<and> heard \<sigma> i \<noteq> [] \<and> successively (\<lambda>a b. b \<le> a + G) (waiting i \<sigma>) \<and>
     (if waiting i \<sigma> = [] then arrived \<sigma> i \<le> hd (heard \<sigma> i)
      else hd (waiting i \<sigma>) \<le> hd (heard \<sigma> i) + G \<and> last (waiting i \<sigma>) = arrived \<sigma> i)"

lemma waiting_frame [simp]:
  "waiting i (\<sigma>\<lparr>clock := t\<rparr>) = waiting i \<sigma>" "waiting i (\<sigma>\<lparr>fired := F\<rparr>) = waiting i \<sigma>"
  "waiting i (\<sigma>\<lparr>next_tick := n\<rparr>) = waiting i \<sigma>"
  by (simp_all add: waiting_def)

lemma waiting_receive: "waiting i (receive m \<sigma>) = waiting i \<sigma> @ (if sign_of_life i m then [clock \<sigma>] else [])"
  by (simp add: waiting_def)

lemma punctual_receive: "punctual i G \<sigma> \<Longrightarrow> punctual i G (receive m \<sigma>)"
  by (cases "waiting i \<sigma> = []") (auto simp: punctual_def waiting_receive successively_append_iff)

lemma punctual_handled:
  assumes "punctual i G \<sigma>" and "inbox \<sigma> = (a, m) # ms" and "a \<le> clock \<sigma>"
  shows "punctual i G (handled m es s' \<sigma>)"
proof (cases "sign_of_life i m")
  case True
  then have w: "waiting i \<sigma> = a # waiting i (handled m es s' \<sigma>)" by (simp add: waiting_def assms(2))
  show ?thesis
    using assms(1,3) True by (cases "waiting i (handled m es s' \<sigma>)") (auto simp: punctual_def w)
next
  case False
  then have "waiting i (handled m es s' \<sigma>) = waiting i \<sigma>" by (simp add: waiting_def assms(2))
  with assms(1) False show ?thesis by (simp add: punctual_def)
qed

lemma punctual_heard:
  assumes "punctual i G \<sigma>" and "timed_inv N L \<sigma>"
  shows "clock \<sigma> \<le> hd (heard \<sigma> i) + G + L"
proof (cases "waiting i \<sigma>")
  case Nil
  with assms(1) show ?thesis by (simp add: punctual_def)
next
  case (Cons a as)
  then have "a \<in> set (waiting i \<sigma>)" by simp
  with assms(2) have "clock \<sigma> \<le> a + L" by (auto simp: waiting_def timed_inv_def)
  with assms(1) Cons show ?thesis by (simp add: punctual_def)
qed

lemma punctual_step_inv:
  assumes "punctual_step C N L i G \<sigma> \<tau>" and "timed_inv N L \<sigma>" and "punctual i G \<sigma>" and "G + L < 15000000000"
  shows "punctual i G \<tau> \<and> {d \<in> fired \<tau>. watches i d} = {d \<in> fired \<sigma>. watches i d}"
proof -
  from assms(1) have step: "timed_step C N L \<sigma> \<tau>" and arrived: "clock \<tau> \<le> arrived \<tau> i + G"
    by (simp_all add: punctual_step_def)
  from step show ?thesis
  proof cases
    case (passes t)
    with assms(3) arrived show ?thesis by (simp add: punctual_def)
  next
    case (arrives m)
    with assms(3) show ?thesis by (simp add: punctual_receive)
  next
    case (watchdog_fires j d m)
    have "\<not> watches i d"
    proof
      assume "watches i d"
      from assms(2) watchdog_fires(2) obtain t p where "peer_id p = j" "d = watchdog_for N t p"
        unfolding timed_inv_def pm_inv_def by blast
      with \<open>watches i d\<close> have "j = i" by (simp add: watches_def)
      with watched_bound(2) [OF assms(2), of i d] watchdog_fires(2,4) have "hd (heard \<sigma> i) + 15000000000 \<le> clock \<sigma>" by simp
      with punctual_heard [OF assms(3,2)] assms(4) show False by simp
    qed
    moreover have "punctual i G (\<sigma>\<lparr>fired := insert d (fired \<sigma>)\<rparr>)" using assms(3) by (simp add: punctual_def)
    ultimately show ?thesis using watchdog_fires(1) by (auto intro: punctual_receive)
  next
    case (ticks h m n n')
    have "punctual i G (\<sigma>\<lparr>next_tick := Some n'\<rparr>)" using assms(3) by (simp add: punctual_def)
    with ticks(1) show ?thesis by (simp add: punctual_receive)
  next
    case (handles a m ms I es s')
    with assms(2) have "a \<le> clock \<sigma>" by (simp add: timed_inv_def)
    with assms(3) handles(1,2) show ?thesis by (simp add: punctual_handled)
  qed
qed

lemma punctual_steps_inv:
  assumes "(punctual_step C N L i G)\<^sup>*\<^sup>* \<sigma> \<tau>" and "chooser_law C" and "timed_inv N L \<sigma>" and "punctual i G \<sigma>"
    and "G + L < 15000000000"
  shows "punctual i G \<tau> \<and> timed_inv N L \<tau> \<and> {d \<in> fired \<tau>. watches i d} = {d \<in> fired \<sigma>. watches i d}"
  using assms(1)
proof (induction rule: rtranclp_induct)
  case base
  with assms(3,4) show ?case by simp
next
  case (step \<tau> \<rho>)
  then have "timed_inv N L \<rho>" using assms(2) by (auto simp: punctual_step_def intro: timed_inv_step)
  with step.IH punctual_step_inv [OF step.hyps(2) _ _ assms(5)] show ?case by simp
qed

subsection \<open>Publisher, subscriber and the way between them\<close>

record link =
  publisher :: timed
  subscriber :: timed
  wire :: "(nat \<times> peer_request) list"

definition link_start :: "nat \<Rightarrow> link" where
  "link_start t = \<lparr>publisher = timed_start t, subscriber = timed_start t, wire = []\<rparr>"

text \<open>The sign of life for \<open>i\<close> that an effect sends.\<close>

definition sign_to :: "uuid \<Rightarrow> nat \<times> effect \<Rightarrow> (nat \<times> peer_request) option" where
  "sign_to i ae = (case snd ae of
     Cast_packet_handler (SendMessage j m) \<Rightarrow>
       (case msg_body m of PeerRequest r \<Rightarrow> if sends_life i (snd ae) then Some (fst ae, r) else None | _ \<Rightarrow> None)
   | _ \<Rightarrow> None)"

inductive link_step :: "'r chooser \<Rightarrow> nodeinfo \<Rightarrow> nodeinfo \<Rightarrow> nat \<Rightarrow> nat \<Rightarrow> link \<Rightarrow> link \<Rightarrow> bool"
  for C N M L D where
  publisher_moves: "timed_step C N L (publisher \<kappa>) p \<Longrightarrow> clock p = clock (publisher \<kappa>) \<Longrightarrow> sent p = sent (publisher \<kappa>) @ new \<Longrightarrow>
    link_step C N M L D \<kappa> (\<kappa>\<lparr>publisher := p, wire := wire \<kappa> @ List.map_filter (sign_to (node_id M)) new\<rparr>)"
| subscriber_moves: "timed_step C M L (subscriber \<kappa>) s \<Longrightarrow> clock s = clock (subscriber \<kappa>) \<Longrightarrow>
    link_step C N M L D \<kappa> (\<kappa>\<lparr>subscriber := s\<rparr>)"
| delivers: "wire \<kappa> = ws @ (a, r) # ws' \<Longrightarrow>
    link_step C N M L D \<kappa> (\<kappa>\<lparr>subscriber := receive (Request (node_id N) r) (subscriber \<kappa>), wire := ws @ ws'\<rparr>)"
| time_passes: "clock (publisher \<kappa>) \<le> t \<Longrightarrow> in_time L t (publisher \<kappa>) \<Longrightarrow> in_time L t (subscriber \<kappa>) \<Longrightarrow>
    (\<forall>(a, r) \<in> set (wire \<kappa>). t \<le> a + D) \<Longrightarrow>
    link_step C N M L D \<kappa> (\<kappa>\<lparr>publisher := (publisher \<kappa>)\<lparr>clock := t\<rparr>, subscriber := (subscriber \<kappa>)\<lparr>clock := t\<rparr>\<rparr>)"

text \<open>
  What holds in every reachable state: the clocks agree, nothing is on its way for more than \<open>D\<close>, every sign of life
  that was sent is still on its way or a sign of life has arrived since, and the subscriber handles what arrives in order.
\<close>

definition wire_inv :: "nat \<Rightarrow> link \<Rightarrow> bool" where
  "wire_inv D \<kappa> \<longleftrightarrow> (\<forall>(a, r) \<in> set (wire \<kappa>). a \<le> clock (subscriber \<kappa>) \<and> clock (subscriber \<kappa>) \<le> a + D \<and>
     r \<in> {Heartbeat, SubscriptionStarted})"

definition delivered_inv :: "nodeinfo \<Rightarrow> nodeinfo \<Rightarrow> link \<Rightarrow> bool" where
  "delivered_inv N M \<kappa> \<longleftrightarrow> (\<forall>(a, e) \<in> set (sent (publisher \<kappa>)). sends_life (node_id M) e \<longrightarrow>
     a \<in> fst ` set (wire \<kappa>) \<or> a \<le> arrived (subscriber \<kappa>) (node_id N))"

definition arrival_inv :: "uuid \<Rightarrow> timed \<Rightarrow> bool" where
  "arrival_inv i \<sigma> \<longleftrightarrow> (if waiting i \<sigma> = [] then heard \<sigma> i \<noteq> [] \<longrightarrow> arrived \<sigma> i \<le> hd (heard \<sigma> i) else last (waiting i \<sigma>) = arrived \<sigma> i)"

definition link_inv :: "nodeinfo \<Rightarrow> nodeinfo \<Rightarrow> nat \<Rightarrow> nat \<Rightarrow> link \<Rightarrow> bool" where
  "link_inv N M L D \<kappa> \<longleftrightarrow> timed_inv N L (publisher \<kappa>) \<and> timed_inv M L (subscriber \<kappa>) \<and>
     clock (publisher \<kappa>) = clock (subscriber \<kappa>) \<and> wire_inv D \<kappa> \<and> delivered_inv N M \<kappa> \<and> arrival_inv (node_id N) (subscriber \<kappa>)"

lemma sign_to_Some: "sign_to i (a, e) = Some (b, r) \<Longrightarrow> b = a \<and> sends_life i e \<and> r \<in> {Heartbeat, SubscriptionStarted}"
  by (auto simp: sign_to_def split: effect.splits packet_handler_message.splits body.splits if_splits)

lemma sign_to_sends: "sends_life i e \<Longrightarrow> \<exists>r. sign_to i (a, e) = Some (a, r)"
  by (cases "(i, e)" rule: sends_life.cases) (auto simp: sign_to_def)

lemma new_signs:
  assumes "\<forall>(a, e) \<in> set new. a = t" and "(b, r) \<in> set (List.map_filter (sign_to i) new)"
  shows "b = t \<and> r \<in> {Heartbeat, SubscriptionStarted}"
proof -
  from assms(2) obtain a e where ae: "(a, e) \<in> set new" "sign_to i (a, e) = Some (b, r)"
    by (auto simp: in_set_map_filter)
  with assms(1) sign_to_Some [OF ae(2)] show ?thesis by auto
qed

lemma new_signs_sent:
  assumes "(a, e) \<in> set new" and "sends_life i e"
  shows "a \<in> fst ` set (List.map_filter (sign_to i) new)"
proof -
  from sign_to_sends [OF assms(2), of a] obtain r where "sign_to i (a, e) = Some (a, r)" by blast
  with assms(1) have "(a, r) \<in> set (List.map_filter (sign_to i) new)" by (auto simp: in_set_map_filter)
  then show ?thesis by force
qed

lemma sent_now: "timed_step C N L \<sigma> \<tau> \<Longrightarrow> sent \<tau> = sent \<sigma> @ new \<Longrightarrow> \<forall>(a, e) \<in> set new. a = clock \<sigma>"
  by (erule timed_step.cases) auto

lemma arrived_mono: "timed_step C N L \<sigma> \<tau> \<Longrightarrow> timed_inv N L \<sigma> \<Longrightarrow> arrived \<sigma> i \<le> arrived \<tau> i"
  by (erule timed_step.cases) (auto simp: timed_inv_def)

lemma arrival_inv_step:
  assumes "timed_step C N L \<sigma> \<tau>" and "timed_inv N L \<sigma>" and "arrival_inv i \<sigma>"
  shows "arrival_inv i \<tau>"
  using assms(1)
proof cases
  case (handles a m ms I es s')
  with assms(2) have a: "a \<le> clock \<sigma>" by (simp add: timed_inv_def)
  have w: "waiting i \<sigma> = (if sign_of_life i m then [a] else []) @ waiting i \<tau>"
    using handles(1,2) by (simp add: waiting_def)
  show ?thesis
    using assms(3) w a handles(1) by (cases "sign_of_life i m"; cases "waiting i \<tau>") (auto simp: arrival_inv_def)
qed (use assms(3) in \<open>auto simp: arrival_inv_def waiting_receive\<close>)

lemma link_inv_publisher:
  assumes "link_inv N M L D \<kappa>" and "chooser_law C" and "timed_step C N L (publisher \<kappa>) p" and "clock p = clock (publisher \<kappa>)"
    and "sent p = sent (publisher \<kappa>) @ new"
  shows "link_inv N M L D (\<kappa>\<lparr>publisher := p, wire := wire \<kappa> @ List.map_filter (sign_to (node_id M)) new\<rparr>)"
proof -
  let ?\<kappa>' = "\<kappa>\<lparr>publisher := p, wire := wire \<kappa> @ List.map_filter (sign_to (node_id M)) new\<rparr>"
  note new = sent_now [OF assms(3,5)]
  have clocks: "clock (publisher \<kappa>) = clock (subscriber \<kappa>)" using assms(1) by (simp add: link_inv_def)
  have "wire_inv D ?\<kappa>'"
    using assms(1) new_signs [OF new] clocks unfolding link_inv_def wire_inv_def by fastforce
  moreover have "delivered_inv N M ?\<kappa>'"
    using assms(1) new_signs_sent [of _ _ new "node_id M"] unfolding link_inv_def delivered_inv_def
    by (auto simp: assms(5) split_def image_Un)
  moreover have "timed_inv N L p" using assms(1-3) by (auto simp: link_inv_def intro: timed_inv_step)
  ultimately show ?thesis using assms(1,4) by (simp add: link_inv_def)
qed

lemma link_inv_step:
  assumes "link_inv N M L D \<kappa>" and "chooser_law C" and "link_step C N M L D \<kappa> \<kappa>'"
  shows "link_inv N M L D \<kappa>'"
  using assms(3)
proof cases
  case (publisher_moves p new)
  with link_inv_publisher [OF assms(1,2)] show ?thesis by simp
next
  case (subscriber_moves s)
  from assms(1) have inv: "timed_inv M L (subscriber \<kappa>)" by (simp add: link_inv_def)
  have "arrived (subscriber \<kappa>) (node_id N) \<le> arrived s (node_id N)" by (rule arrived_mono [OF subscriber_moves(2) inv])
  then have "delivered_inv N M \<kappa>'"
    using assms(1) subscriber_moves(1) by (fastforce simp: link_inv_def delivered_inv_def)
  moreover have "timed_inv M L s" by (rule timed_inv_step [OF assms(2) inv subscriber_moves(2)])
  moreover have "arrival_inv (node_id N) s"
    by (rule arrival_inv_step [OF subscriber_moves(2) inv]) (use assms(1) in \<open>simp add: link_inv_def\<close>)
  ultimately show ?thesis using assms(1) subscriber_moves by (simp add: link_inv_def wire_inv_def)
next
  case (delivers ws a r ws')
  let ?s = "receive (Request (node_id N) r) (subscriber \<kappa>)"
  from assms(1) have inv: "timed_inv M L (subscriber \<kappa>)" by (simp add: link_inv_def)
  have step: "timed_step C M L (subscriber \<kappa>) ?s" by (rule arrives)
  from assms(1) delivers(2) have sign: "sign_of_life (node_id N) (Request (node_id N) r)"
    by (auto simp: link_inv_def wire_inv_def)
  have "\<forall>(b, e) \<in> set (sent (publisher \<kappa>)). b \<le> clock (subscriber \<kappa>)"
    using assms(1) by (auto simp: link_inv_def timed_inv_def)
  then have "delivered_inv N M \<kappa>'" using delivers(1) sign by (auto simp: delivered_inv_def)
  moreover have "timed_inv M L ?s" by (rule timed_inv_step [OF assms(2) inv step])
  moreover have "arrival_inv (node_id N) ?s"
    by (rule arrival_inv_step [OF step inv]) (use assms(1) in \<open>simp add: link_inv_def\<close>)
  ultimately show ?thesis using assms(1) delivers by (auto simp: link_inv_def wire_inv_def)
next
  case (time_passes t)
  have "timed_inv N L ((publisher \<kappa>)\<lparr>clock := t\<rparr>)" "timed_inv M L ((subscriber \<kappa>)\<lparr>clock := t\<rparr>)"
    by (rule timed_inv_passes; use assms(1) time_passes in \<open>simp add: link_inv_def\<close>)+
  with assms(1) time_passes show ?thesis
    by (auto simp: link_inv_def wire_inv_def delivered_inv_def arrival_inv_def intro: order_trans)
qed

lemma link_inv_start: "link_inv N M L D (link_start t)"
  by (simp add: link_inv_def link_start_def timed_inv_start wire_inv_def delivered_inv_def arrival_inv_def waiting_def)

interpretation link: transition_system "\<lambda>\<kappa>. \<exists>t. \<kappa> = link_start t" "link_step C N M L D"
    "\<lambda>\<kappa>. chooser_law C \<longrightarrow> link_inv N M L D \<kappa>"
  for C N M L D
  by unfold_locales (auto intro: link_inv_start link_inv_step)

subsection \<open>A publisher that keeps its subscriber is not reported down\<close>

text \<open>The oldest sign of life on its way was sent not too long after the last arrival.\<close>

definition recent :: "nodeinfo \<Rightarrow> nat \<Rightarrow> link \<Rightarrow> bool" where
  "recent N K \<kappa> \<longleftrightarrow> wire \<kappa> \<noteq> [] \<longrightarrow> (\<exists>(a, r) \<in> set (wire \<kappa>). a \<le> arrived (subscriber \<kappa>) (node_id N) + K)"

definition subscribed :: "nodeinfo \<Rightarrow> link \<Rightarrow> bool" where
  "subscribed M \<kappa> \<longleftrightarrow> node_id M \<in> subscribers (manager (publisher \<kappa>))"

text \<open>The subscription has begun: the subscriber has heard of the publisher, and no sign of life is on its way or waiting.\<close>

definition established :: "nodeinfo \<Rightarrow> nodeinfo \<Rightarrow> link \<Rightarrow> bool" where
  "established N M \<kappa> \<longleftrightarrow> subscribed M \<kappa> \<and> wire \<kappa> = [] \<and> waiting (node_id N) (subscriber \<kappa>) = [] \<and>
     heard (subscriber \<kappa>) (node_id N) \<noteq> []"

definition kept_step :: "'r chooser \<Rightarrow> nodeinfo \<Rightarrow> nodeinfo \<Rightarrow> nat \<Rightarrow> nat \<Rightarrow> link \<Rightarrow> link \<Rightarrow> bool" where
  "kept_step C N M L D \<kappa> \<kappa>' \<longleftrightarrow> link_step C N M L D \<kappa> \<kappa>' \<and> subscribed M \<kappa> \<and> subscribed M \<kappa>'"

lemma sent_or_arrived:
  assumes "link_inv N M L D \<kappa>" and "subscribed M \<kappa>" and "wire \<kappa> = []"
  shows "clock (subscriber \<kappa>) \<le> arrived (subscriber \<kappa>) (node_id N) + (5000000000 + 2 * L)"
proof -
  from life_sent [of N L "publisher \<kappa>" "node_id M"] assms(1,2)
  obtain a e where "(a, e) \<in> set (sent (publisher \<kappa>))" "sends_life (node_id M) e" "clock (publisher \<kappa>) \<le> a + 5000000000 + 2 * L"
    by (auto simp: link_inv_def subscribed_def)
  with assms(1,3) show ?thesis by (fastforce simp: link_inv_def delivered_inv_def)
qed

lemma arrival_bound:
  assumes "link_inv N M L D \<kappa>" and "subscribed M \<kappa>" and "recent N (5000000000 + 2 * L) \<kappa>"
  shows "clock (subscriber \<kappa>) \<le> arrived (subscriber \<kappa>) (node_id N) + (5000000000 + 2 * L + D)"
proof (cases "wire \<kappa> = []")
  case True
  with sent_or_arrived [OF assms(1,2)] show ?thesis by simp
next
  case False
  with assms(3) obtain a r where "(a, r) \<in> set (wire \<kappa>)" "a \<le> arrived (subscriber \<kappa>) (node_id N) + (5000000000 + 2 * L)"
    by (auto simp: recent_def)
  moreover from this assms(1) have "clock (subscriber \<kappa>) \<le> a + D" by (auto simp: link_inv_def wire_inv_def)
  ultimately show ?thesis by simp
qed

lemma recent_step:
  assumes "link_inv N M L D \<kappa>" and "subscribed M \<kappa>" and "recent N (5000000000 + 2 * L) \<kappa>" and "link_step C N M L D \<kappa> \<kappa>'"
  shows "recent N (5000000000 + 2 * L) \<kappa>'"
  using assms(4)
proof cases
  case (publisher_moves p new)
  show ?thesis
  proof (cases "wire \<kappa> = []")
    case True
    note early = sent_or_arrived [OF assms(1,2) True]
    have "clock (publisher \<kappa>) = clock (subscriber \<kappa>)" using assms(1) by (simp add: link_inv_def)
    with new_signs [OF sent_now [OF publisher_moves(2,4)]] early
    have "a \<le> arrived (subscriber \<kappa>) (node_id N) + (5000000000 + 2 * L)"
      if "(a, r) \<in> set (List.map_filter (sign_to (node_id M)) new)" for a r
      using that by fastforce
    then show ?thesis
      unfolding recent_def publisher_moves(1) using True by (cases "List.map_filter (sign_to (node_id M)) new") force+
  next
    case False
    with assms(3) show ?thesis unfolding recent_def publisher_moves(1) by auto
  qed
next
  case (subscriber_moves s)
  have "arrived (subscriber \<kappa>) (node_id N) \<le> arrived s (node_id N)"
    by (rule arrived_mono [OF subscriber_moves(2)]) (use assms(1) in \<open>simp add: link_inv_def\<close>)
  then have "a \<le> arrived s (node_id N) + K" if "a \<le> arrived (subscriber \<kappa>) (node_id N) + K" for a K using that by simp
  with assms(3) show ?thesis unfolding recent_def subscriber_moves(1) by (simp add: split_def) blast
next
  case (delivers ws a r ws')
  from assms(1) delivers(2) have "sign_of_life (node_id N) (Request (node_id N) r)" by (auto simp: link_inv_def wire_inv_def)
  moreover from assms(1) delivers(2) have "\<forall>(b, q) \<in> set (ws @ ws'). b \<le> clock (subscriber \<kappa>)"
    by (auto simp: link_inv_def wire_inv_def)
  ultimately show ?thesis
    unfolding recent_def delivers(1) by (cases "ws @ ws'") fastforce+
next
  case (time_passes t)
  with assms(3) show ?thesis by (simp add: recent_def)
qed

lemma link_subscriber_step:
  assumes "link_step C N M L D \<kappa> \<kappa>'" and "link_inv N M L D \<kappa>"
  shows "timed_step C M L (subscriber \<kappa>) (subscriber \<kappa>') \<or> subscriber \<kappa>' = subscriber \<kappa>"
  using assms(1)
proof cases
  case (time_passes t)
  with assms(2) show ?thesis by (auto simp: link_inv_def intro!: passes)
qed (auto intro: arrives)

lemma kept_steps_punctual:
  assumes "(kept_step C N M L D)\<^sup>*\<^sup>* \<kappa> \<kappa>'" and "chooser_law C" and "link_inv N M L D \<kappa>" and "recent N (5000000000 + 2 * L) \<kappa>"
  shows "link_inv N M L D \<kappa>' \<and> recent N (5000000000 + 2 * L) \<kappa>' \<and>
    (punctual_step C M L (node_id N) (5000000000 + 2 * L + D))\<^sup>*\<^sup>* (subscriber \<kappa>) (subscriber \<kappa>')"
  using assms(1)
proof (induction rule: rtranclp_induct)
  case base
  with assms(3,4) show ?case by simp
next
  case (step \<kappa>' \<kappa>'')
  from step.hyps(2) have link: "link_step C N M L D \<kappa>' \<kappa>''" and kept: "subscribed M \<kappa>'" "subscribed M \<kappa>''"
    by (simp_all add: kept_step_def)
  from step.IH have inv: "link_inv N M L D \<kappa>'" and rec: "recent N (5000000000 + 2 * L) \<kappa>'" by simp_all
  have inv': "link_inv N M L D \<kappa>''" by (rule link_inv_step [OF inv assms(2) link])
  have rec': "recent N (5000000000 + 2 * L) \<kappa>''" by (rule recent_step [OF inv kept(1) rec link])
  from link_subscriber_step [OF link inv] arrival_bound [OF inv' kept(2) rec']
  have "punctual_step C M L (node_id N) (5000000000 + 2 * L + D) (subscriber \<kappa>') (subscriber \<kappa>'') \<or> subscriber \<kappa>'' = subscriber \<kappa>'"
    by (auto simp: punctual_step_def)
  with step.IH have "(punctual_step C M L (node_id N) (5000000000 + 2 * L + D))\<^sup>*\<^sup>* (subscriber \<kappa>) (subscriber \<kappa>'')"
    by (auto intro: rtranclp.rtrancl_into_rtrancl)
  with inv' rec' show ?case by blast
qed

text \<open>A concrete link: node 2 subscribes to node 1, and time passes.\<close>

definition subscriber_node :: nodeinfo where
  "subscriber_node = (sample_node Uniform)\<lparr>node_id := 2\<rparr>"

definition linked :: link where
  "linked = \<lparr>publisher = publisher_at (sample_node Uniform) 2, subscriber = subscriber_at subscriber_node 1, wire = []\<rparr>"

lemma link_node_ids [simp]: "node_id (sample_node st) = 1" "node_id subscriber_node = 2"
  by (simp_all add: sample_node_def subscriber_node_def)

lemma link_publisher_quiet:
  "timed_step C N L p p' \<Longrightarrow> clock p' = clock p \<Longrightarrow> sent p' = sent p \<Longrightarrow>
    link_step C N M L D \<lparr>publisher = p, subscriber = s, wire = w\<rparr> \<lparr>publisher = p', subscriber = s, wire = w\<rparr>"
  using publisher_moves [of C N L "\<lparr>publisher = p, subscriber = s, wire = w\<rparr>" p' "[]" M D] by (simp add: List.map_filter_def)

lemma link_publisher_sends:
  "timed_step C N L p p' \<Longrightarrow> clock p' = clock p \<Longrightarrow> sent p' = sent p @ new \<Longrightarrow>
    List.map_filter (sign_to (node_id M)) new = v \<Longrightarrow>
    link_step C N M L D \<lparr>publisher = p, subscriber = s, wire = w\<rparr> \<lparr>publisher = p', subscriber = s, wire = w @ v\<rparr>"
  using publisher_moves [of C N L "\<lparr>publisher = p, subscriber = s, wire = w\<rparr>" p' new M D] by simp

lemma link_subscriber:
  "timed_step C M L s s' \<Longrightarrow> clock s' = clock s \<Longrightarrow>
    link_step C N M L D \<lparr>publisher = p, subscriber = s, wire = w\<rparr> \<lparr>publisher = p, subscriber = s', wire = w\<rparr>"
  using subscriber_moves [of C M L "\<lparr>publisher = p, subscriber = s, wire = w\<rparr>" s' N D] by simp

lemma linked_reachable: "(link_step C (sample_node Uniform) subscriber_node L D)\<^sup>*\<^sup>* (link_start 1000) linked"
proof -
  let ?to = "(link_step C (sample_node Uniform) subscriber_node L D)\<^sup>*\<^sup>*" and ?N = "sample_node Uniform"
  let ?s = "\<lambda>p s w. \<lparr>publisher = p, subscriber = s, wire = w\<rparr>"
  have ids: "node_id ?N \<noteq> 7" "node_id subscriber_node \<noteq> 7" by simp_all
  note pub = sample_steps [OF ids(1), of C L 2] and sub = sample_steps [OF ids(2), of C L 1]
  have "?to (?s (timed_start 1000) (timed_start 1000) []) (?s (receive (sample_up 2) (timed_start 1000)) (timed_start 1000) [])"
    by (rule r_into_rtranclp, rule link_publisher_quiet [OF arrives]) simp_all
  also have "?to \<dots> (?s (knows_at ?N 2) (timed_start 1000) [])"
  proof (rule r_into_rtranclp)
    show "link_step C ?N subscriber_node L D (?s (receive (sample_up 2) (timed_start 1000)) (timed_start 1000) [])
        (?s (knows_at ?N 2) (timed_start 1000) [])"
      using link_publisher_sends [OF pub(1), of _ subscriber_node "[]" D "timed_start 1000" "[]"]
      by (simp add: knows_at_def sign_to_def List.map_filter_def)
  qed
  also have "?to \<dots> (?s (receive (Request 2 StartSubscription) (knows_at ?N 2)) (timed_start 1000) [])"
    by (rule r_into_rtranclp, rule link_publisher_quiet [OF arrives]) simp_all
  also have "?to \<dots> (?s (publisher_at ?N 2) (timed_start 1000) [(1000, SubscriptionStarted)])"
  proof (rule r_into_rtranclp)
    show "link_step C ?N subscriber_node L D (?s (receive (Request 2 StartSubscription) (knows_at ?N 2)) (timed_start 1000) [])
        (?s (publisher_at ?N 2) (timed_start 1000) [(1000, SubscriptionStarted)])"
      using link_publisher_sends [OF pub(2), of _ subscriber_node "[(1000, SubscriptionStarted)]" D "timed_start 1000" "[]"]
      by (simp add: publisher_at_def sign_to_def List.map_filter_def peer_message_def)
  qed
  also have "?to \<dots> (?s (publisher_at ?N 2) (receive (sample_up 1) (timed_start 1000)) [(1000, SubscriptionStarted)])"
    by (rule r_into_rtranclp, rule link_subscriber [OF arrives]) simp
  also have "?to \<dots> (?s (publisher_at ?N 2) (knows_at subscriber_node 1) [(1000, SubscriptionStarted)])"
    by (rule r_into_rtranclp, rule link_subscriber [OF sub(1)]) simp
  also have "?to \<dots> (?s (publisher_at ?N 2) (receive (Request 1 SubscriptionStarted) (knows_at subscriber_node 1)) [])"
    using delivers [of "?s (publisher_at ?N 2) (knows_at subscriber_node 1) [(1000, SubscriptionStarted)]" "[]" 1000
        SubscriptionStarted "[]" C ?N subscriber_node L D] by auto
  also have "?to \<dots> linked"
    unfolding linked_def by (rule r_into_rtranclp, rule link_subscriber [OF sub(3)]) (simp add: subscriber_at_def)
  finally show ?thesis by (simp add: link_start_def)
qed

text \<open>
  C7. Heartbeats keep a subscription alive. Two nodes, each with a latency of at most \<open>L\<close>, and a way between them that takes at
  most \<open>D\<close>, where \<open>3 L + D\<close> is less than 10 seconds: once the subscription is established and as long as the publisher keeps its
  subscriber, the subscriber's watchdog for the publisher never fires, whatever other messages the two handle and in which order
  the heartbeats arrive.
\<close>

theorem heartbeats_keep_subscription:
  assumes "chooser_law C" and "(link_step C N M L D)\<^sup>*\<^sup>* (link_start t) \<kappa>" and "established N M \<kappa>"
    and "(kept_step C N M L D)\<^sup>*\<^sup>* \<kappa> \<kappa>'" and "3 * L + D < 10000000000"
  shows "{d \<in> fired (subscriber \<kappa>'). watches (node_id N) d} = {d \<in> fired (subscriber \<kappa>). watches (node_id N) d}"
proof -
  have inv: "link_inv N M L D \<kappa>" using link.reachable_inv [OF assms(2)] assms(1) by blast
  from assms(3) have est: "subscribed M \<kappa>" "wire \<kappa> = []" "waiting (node_id N) (subscriber \<kappa>) = []"
      "heard (subscriber \<kappa>) (node_id N) \<noteq> []"
    by (simp_all add: established_def)
  then have rec: "recent N (5000000000 + 2 * L) \<kappa>" by (simp add: recent_def)
  have "punctual (node_id N) (5000000000 + 2 * L + D) (subscriber \<kappa>)"
    using arrival_bound [OF inv est(1) rec] inv est(3,4) by (simp add: punctual_def link_inv_def arrival_inv_def)
  moreover have "timed_inv M L (subscriber \<kappa>)" using inv by (simp add: link_inv_def)
  ultimately show ?thesis
    using punctual_steps_inv [where C = C and N = M and i = "node_id N" and L = L and G = "5000000000 + 2 * L + D"]
      kept_steps_punctual [OF assms(4,1) inv rec] assms(1,5) by simp
qed

theorem heartbeats_keep_subscription_witness:
  "\<exists>\<kappa>'. (kept_step sample_chooser (sample_node Uniform) subscriber_node 1 1)\<^sup>*\<^sup>* linked \<kappa>' \<and> clock (subscriber \<kappa>') = 1001 \<and>
     {d \<in> fired (subscriber \<kappa>'). watches 1 d} = {}"
proof -
  let ?N = "sample_node Uniform" and ?\<kappa> = "linked\<lparr>publisher := (publisher linked)\<lparr>clock := 1001\<rparr>, subscriber := (subscriber linked)\<lparr>clock := 1001\<rparr>\<rparr>"
  have est: "established ?N subscriber_node linked"
    by (simp add: established_def subscribed_def waiting_def linked_def publisher_at_def subscriber_at_def sample_publisher_def)
  have "link_step sample_chooser ?N subscriber_node 1 1 linked ?\<kappa>"
    by (rule time_passes) (simp_all add: linked_def in_time_def publisher_at_def subscriber_at_def sample_publisher_def sample_subscriber_def)
  then have "kept_step sample_chooser ?N subscriber_node 1 1 linked ?\<kappa>"
    using est by (simp add: kept_step_def subscribed_def established_def)
  then have kept: "(kept_step sample_chooser ?N subscriber_node 1 1)\<^sup>*\<^sup>* linked ?\<kappa>" by (rule r_into_rtranclp)
  from heartbeats_keep_subscription [OF sample_chooser_law linked_reachable est kept]
  have "{d \<in> fired (subscriber ?\<kappa>). watches 1 d} = {d \<in> fired (subscriber linked). watches 1 d}" by simp
  also have "\<dots> = {}" by (simp add: linked_def subscriber_at_def)
  finally show ?thesis using kept by (intro exI [of _ ?\<kappa>]) (simp add: linked_def subscriber_at_def)
qed

end
