(* ===== verification/Spec2Isabelle.thy ===== *)
theory Spec2Isabelle
  imports Runtime_Props Join_Props Cluster_Props Heartbeat_Link
begin

text \<open>
  \<^bold>\<open>A verification of gwyh.\<close> gwyh is a gossip library: nodes find each other, authenticate each other by a handshake with
  pre-shared keys, subscribe to each other, and forward broadcasts over encrypted UDP. This development models the code of
  a node, proves properties of each of its actors, and composes them.

  \<^bold>\<open>The program and its parts.\<close> A node is three actors (\<open>genserver\<close>) that exchange messages through a registry
  (\<^verbatim>\<open>src/src/registry.rs\<close>) and handle them one at a time:
    \<^item> the packet handler (\<^verbatim>\<open>packet_handler.rs\<close>) owns the socket; it numbers, encrypts, sends, receives, decrypts and
      deduplicates, hands broadcasts to the application and forwards them, and adapts its pace to reported losses;
    \<^item> the handshaker (\<^verbatim>\<open>handshake.rs\<close>) runs the four-step handshake and reports authenticated peers;
    \<^item> the peer manager (\<^verbatim>\<open>peer_manager.rs\<close>) keeps the known peers and the subscriptions in both directions, tells the packet
      handler the keys and the subscribers, reassigns subscriptions and watches heartbeats.
  \<^verbatim>\<open>lib.rs\<close> and \<^verbatim>\<open>server.rs\<close> build, start, use and stop a node; \<^verbatim>\<open>nodeinfo.rs\<close>, \<^verbatim>\<open>peer.rs\<close>, \<^verbatim>\<open>message.rs\<close>, \<^verbatim>\<open>packet.rs\<close>,
  \<^verbatim>\<open>sequence.rs\<close>, \<^verbatim>\<open>error.rs\<close> are its data, \<^verbatim>\<open>delayed.rs\<close>, \<^verbatim>\<open>interval.rs\<close>, \<^verbatim>\<open>and_then.rs\<close> its timers and deferred actions.

  \<^bold>\<open>How code becomes definitions.\<close> A method of an actor is an \<open>operation\<close>: it takes the actor's record and returns the effects it
  performs, in order, and the new record or the panic that stopped it (theory \<open>Prelude\<close>). Its body is built from the
  combinators \<open>do_all\<close>, \<open>foreach\<close>, \<open>with_state\<close>, \<open>modify\<close>, \<open>emit\<close>, \<open>with_result\<close> in the order of the source, one definition per
  method, under the source's name (with a prefix where two methods or a HOL constant share it, as in \<open>hs_handle_message\<close>).
  Every \<open>unwrap\<close>, \<open>expect\<close>, \<open>assert\<close> and checked arithmetic operation on data is a branch that panics. Effects are casts and calls
  to actors, sends, spawned tasks, notifications and calls of the application's handler. Machine integers are words;
  the build profile (\<open>overflow_checks\<close>) decides whether they wrap or panic. Floating point numbers are rationals that are rounded
  to the nearest double after each operation. Clock readings, random draws and the iteration orders of hash tables are
  the fields of a record \<open>inputs\<close>, one for each activation.

  \<^bold>\<open>Code that is not in the repository\<close> (dryoc, rmp-serde, chrono, uuid, rand, lru, tokio's \<open>Notify\<close>, name resolution) is given by the
  records \<open>externals\<close>, \<open>chooser\<close>, \<open>lru\<close> and \<open>notify_ops\<close>, which the definitions take as arguments. What is assumed of it are the
  laws of theory \<open>Externals\<close> and \<open>notify_law\<close>, each the documented behaviour (hashes of 64 bytes exist, a box opens with
  the matching keys, decoding inverts encoding and leaves skipped fields empty, a sample without replacement, a cache
  that keeps its last keys, a notification that wakes the first waiter or leaves a permit). The theories \<open>Samples\<close> and
  \<open>Sample_Externals\<close> have concrete functions that satisfy all of them; the witnesses of the properties use these.

  \<^bold>\<open>The theories.\<close>
    \<^item> \<open>Prelude\<close>: machine types, panics, operations, weakest preconditions (\<open>wp\<close>) and bounds on effects (\<open>acts_within\<close>).
    \<^item> \<open>Rust_Std\<close>: what the sources use of the standard library (checked arithmetic, decimal printing, \<open>chunk_by\<close>, maps, addresses);
      \<open>Float64\<close>: rounding to doubles; \<open>Sequence\<close>: \<^verbatim>\<open>sequence.rs\<close>; \<open>Node_Data\<close>: the data, messages, timers and effects.
    \<^item> \<open>Externals\<close>, \<open>Samples\<close>, \<open>Sample_Externals\<close>: other crates, their laws, and concrete instances.
    \<^item> \<open>Gen_Server\<close>: the contracts of an actor as locales. \<open>history_server\<close>, \<open>gen_server\<close>, \<open>total_server\<close> lift what one activation
      keeps to whole runs, \<open>mirrored_server\<close> does so for an actor that mirrors another one's state, \<open>transition_system\<close> for step
      relations; \<open>refinement_mapping\<close> carries reachability from a detailed step relation to an abstract one. The actors, the
      node, the running node, the cluster, the timed peer manager and the link between two of them are interpretations.
    \<^item> \<open>Peer_Manager\<close>, \<open>Handshake\<close>, \<open>Packet_Handler\<close>: the actors, with lemmas (\<open>.._eq\<close>) that say what each method computes;
      \<open>.._Props\<close>: their properties.
    \<^item> \<open>Node\<close>, \<open>Node_Props\<close>: builder, start, interface and shutdown of a node.
    \<^item> \<open>System\<close>, \<open>System_Props\<close>: the actors with mailboxes, outboxes, tasks, timers and an arbitrary network as one step relation
      \<open>node_step\<close>, its invariant, and the properties of the whole node; \<open>Join_Props\<close>: the six actors of two nodes from the handshake
      to the delivered broadcast.
    \<^item> \<open>Runtime\<close>, \<open>Runtime_Props\<close>: the node as the registry runs it (\<open>runtime_step\<close>): calls block, casts and calls to an actor that has ended
      return an error, which the sources ignore or unwrap (\<open>ph_unwraps\<close>, \<open>hs_unwraps\<close>, \<open>pm_unwraps\<close>); this refines \<open>node_step\<close>.
    \<^item> \<open>Cluster\<close>, \<open>Cluster_Props\<close>: the packet handlers of several nodes, connected by a network that may lose, delay, repeat and
      reorder datagrams (\<open>cluster_step\<close>), over a fixed overlay of keys and subscriptions (\<open>overlay\<close>).
    \<^item> \<open>Timing\<close>, \<open>Timing_Props\<close>: the peer manager in time (\<open>timed_step\<close>): a clock, the heartbeat interval, and watchdogs that fire when
      they are due; \<open>L\<close> bounds how late messages are handled and timers run, and time can always pass. \<open>Heartbeat_Link\<close>: a publisher
      and a subscriber on one clock with a bounded delay between them (\<open>link_step\<close>).

  \<^bold>\<open>What is proved.\<close>
    \<^item> Of a cluster: the handlers are given only data that was broadcast by a node from which a chain of subscribers leads to them, and
      if the network delivers every datagram, every such node is given the data.
    \<^item> Of the node: in every reachable state every key in use, and every sender of delivered data, belongs to a peer that completed
      a handshake; a node that joins another one by a handshake becomes its subscriber and receives its broadcasts; the actors never deadlock; a start configures the three actors; a shutdown that finds
      the server waiting ends and waits for the acknowledgement.
    \<^item> Of the heartbeats: a peer that falls silent is dropped after 15 s and twice the latency, subscribers are sent a heartbeat at
      least every 5 s and twice the latency, and with delays well below 10 s a publisher that keeps its subscriber is never reported down.
    \<^item> Of the packet handler: packets are numbered consecutively, messages survive the way through encryption and encoding without
      their keys, a broadcast reaches the subscribers' handlers, a message is handled at most once while the cache remembers it,
      panics come from arithmetic only, the rate control's floating point test is an exact integer test, the receive loop
      decodes what was sent.
    \<^item> Of the handshaker: only authenticated peers are reported, two nodes with a common key complete a handshake with matching
      keys, nothing legal makes it panic, its entries have what their phantom types promise, strangers are ignored, handshakes time out.
    \<^item> Of the peer manager: it never panics, the keys and subscribers it reports follow its state, the last handshake wins, removed
      peers are gone, reassignment moves to the chosen peers, each strategy chooses as many peers as configured.
    \<^item> Deviations from the documentation or the evident intention are stated as theorems too (reflected HMACs, a replaced key of the
      initiator, a window of 60 ms, two packets that stop the node, \<open>Nak\<close>s answered with \<open>Nak\<close>s, a duplicate that stops the
      sender, truncated datagrams, forwarded requests, subscriptions that are not watched, a failed start, an early shutdown, and others next to them).

  \<^bold>\<open>Bounds.\<close> No definition needs fuel: every loop of the program runs over a finite list, and the receive loop over the list
  of datagrams that arrive. The clock is assumed to be before the year 2262 (\<open>clock_ok\<close>), as nanoseconds are kept in 64 bits.
  The bounds \<open>L\<close> and \<open>D\<close> on latency and delay in the theories about time are arbitrary numbers of nanoseconds.
  The cache of seen messages has the source's 10,000 entries; an activation puts at most two, so a message is
  remembered for 4,999 further activations. Runs, histories and networks are unbounded.

  \<^bold>\<open>Not modelled.\<close> Logging; the scheduler, sockets and clocks of tokio beyond the orders and values they allow; the code that the
  \<open>make_registry\<close> macro generates, of which only the documented behaviour of casts and calls is used: mailboxes are unbounded
  here, so a sender never blocks on a full mailbox, and a spawned task goes on while its call is being handled. Timers may run
  at any time, but for the heartbeat interval and the watchdogs in the theories about time. In a cluster, the handshakes and subscriptions that make up the overlay are given; how a handshake
  leads to matching keys and a subscription is proved of two nodes. \<^verbatim>\<open>broadcast.rs\<close> is not part of the crate, \<^verbatim>\<open>framer.rs\<close> is empty, and the
  tests are not part of the program.
\<close>

end
